(* ===== verification/Prelude.thy ===== *)
theory Prelude
  imports
    Main
    "HOL-Library.AList"
    "HOL-Library.Char_ord"
    "HOL-Library.List_Lexorder"
    "HOL-Library.Multiset"
    "HOL-Library.Word"
begin

text \<open>
  Shared vocabulary of the development: Go errors and panics as values, Go maps as
  association lists whose order is the iteration order of the runtime, the functions of
  the Go standard library that the sources call (\<open>strings.Split\<close>, \<open>strings.Join\<close>), the
  contracts of the third-party helpers that the sources receive as parameters, and the
  lemmas on them that the component theories use.
\<close>

named_theorems go_map_simps \<open>lookup equations of Go maps\<close>
named_theorems frame_simps \<open>what an operation leaves unchanged\<close>
named_theorems inv_intros \<open>preservation of the component invariants\<close>

section \<open>Errors, panics, blocking\<close>

text \<open>
  A Go \<open>error\<close> value. \<open>Errorf\<close> is a message made by \<open>errors.New\<close> or \<open>fmt.Errorf\<close>,
  \<open>Wrapf\<close> a message that wraps another error by the verb \<open>%w\<close>, \<open>NotFound\<close>, \<open>Conflict\<close>
  and \<open>ApiError\<close> are the API server's status errors as \<open>errors.IsNotFound\<close> and
  \<open>errors.IsConflict\<close> tell them apart, \<open>Aggregate\<close> is a list of errors seen as one. The
  last three are the sentinel values of the sources and of the \<open>context\<close> package.
\<close>

datatype goerror =
    Errorf string
  | Wrapf string goerror
  | NotFound string
  | Conflict string
  | ApiError string
  | Aggregate "goerror list"
  | ErrAlertNotFiring
  | ErrChannelClosed
  | ErrContext

definition IsNotFound :: "goerror \<Rightarrow> bool" where
  "IsNotFound e = (case e of NotFound _ \<Rightarrow> True | _ \<Rightarrow> False)"

definition IsConflict :: "goerror \<Rightarrow> bool" where
  "IsConflict e = (case e of Conflict _ \<Rightarrow> True | _ \<Rightarrow> False)"

lemma IsNotFound_simps [simp]:
  "IsNotFound (NotFound m)" "\<not> IsNotFound (Errorf m)" "\<not> IsNotFound (Wrapf m e)"
  "\<not> IsNotFound (Conflict m)" "\<not> IsNotFound (ApiError m)" "\<not> IsNotFound (Aggregate es)"
  by (simp_all add: IsNotFound_def)

lemma IsConflict_simps [simp]:
  "IsConflict (Conflict m)" "\<not> IsConflict (Errorf m)" "\<not> IsConflict (Wrapf m e)"
  "\<not> IsConflict (NotFound m)" "\<not> IsConflict (ApiError m)" "\<not> IsConflict (Aggregate es)"
  by (simp_all add: IsConflict_def)

text \<open>
  The outcome of a Go call. A panic in a goroutine that does not recover ends the whole
  process, so no state is returned with it.
\<close>

datatype 'a go = Ret 'a | Panics string

fun go_bind :: "'a go \<Rightarrow> ('a \<Rightarrow> 'b go) \<Rightarrow> 'b go" where
  "go_bind (Ret x) f = f x"
| "go_bind (Panics m) f = Panics m"

definition returns :: "'a go \<Rightarrow> bool" where
  "returns r = (case r of Ret _ \<Rightarrow> True | Panics _ \<Rightarrow> False)"

lemma returns_simps [simp]: "returns (Ret x)" "\<not> returns (Panics m)"
  by (simp_all add: returns_def)

lemma returns_iff: "returns r \<longleftrightarrow> (\<exists>x. r = Ret x)"
  by (cases r) auto

lemma go_bind_Ret_iff: "go_bind r f = Ret y \<longleftrightarrow> (\<exists>x. r = Ret x \<and> f x = Ret y)"
  by (cases r) auto

lemma go_bind_RetE: "go_bind r f = Ret y \<Longrightarrow> (\<And>x. r = Ret x \<Longrightarrow> f x = Ret y \<Longrightarrow> P) \<Longrightarrow> P"
  by (cases r) auto

lemma not_returns_iff: "\<not> returns r \<longleftrightarrow> (\<exists>m. r = Panics m)"
  by (cases r) auto

lemma go_bind_Panics_iff: "go_bind r f = Panics m \<longleftrightarrow> r = Panics m \<or> (\<exists>x. r = Ret x \<and> f x = Panics m)"
  by (cases r) auto

lemma go_bind_assoc: "go_bind (go_bind r f) g = go_bind r (\<lambda>x. go_bind (f x) g)"
  by (cases r) auto

text \<open>
  A non-nil pointer to an object that is never written after its allocation: the address
  and the contents. Go compares pointers by address, so two pointers to equal contents
  are different values.
\<close>

datatype 'a ptr = Ptr (addr: nat) (deref: 'a)

lemma option_eqI: "(\<And>x. a = Some x \<longleftrightarrow> b = Some x) \<Longrightarrow> a = b"
  by (cases a; cases b) auto

section \<open>Go maps\<close>

text \<open>
  A Go map is an association list with distinct keys; the order of the list is the order
  in which \<open>range\<close> happens to visit it. Reading is \<^const>\<open>map_of\<close>, assignment is
  \<open>AList.update\<close>, \<open>delete\<close> is \<open>AList.delete\<close>. Nothing that a component promises may
  depend on the order.
\<close>

type_synonym ('k, 'v) gomap = "('k \<times> 'v) list"

abbreviation wf_map :: "('k, 'v) gomap \<Rightarrow> bool" where
  "wf_map m \<equiv> distinct (map fst m)"

abbreviation map_put :: "'k \<Rightarrow> 'v \<Rightarrow> ('k, 'v) gomap \<Rightarrow> ('k, 'v) gomap" where
  "map_put \<equiv> AList.update"

abbreviation map_del :: "'k \<Rightarrow> ('k, 'v) gomap \<Rightarrow> ('k, 'v) gomap" where
  "map_del \<equiv> AList.delete"

text \<open>A loop \<open>for k := range m\<close> that deletes the keys satisfying a test.\<close>

definition map_del_if :: "('k \<Rightarrow> bool) \<Rightarrow> ('k, 'v) gomap \<Rightarrow> ('k, 'v) gomap" where
  "map_del_if P m = foldl (\<lambda>acc k. if P k then map_del k acc else acc) m (map fst m)"

lemma map_of_put [go_map_simps]: "map_of (map_put k v m) = (map_of m)(k \<mapsto> v)"
  by (rule AList.update_conv')

lemma map_of_del [go_map_simps]: "map_of (map_del k m) = (map_of m)(k := None)"
  by (rule AList.delete_conv')

lemma wf_put [inv_intros]: "wf_map m \<Longrightarrow> wf_map (map_put k v m)"
  by (rule distinct_update)

lemma wf_del [inv_intros]: "wf_map m \<Longrightarrow> wf_map (map_del k m)"
  by (rule distinct_delete)

lemma foldl_del_if_map_of:
  "map_of (foldl (\<lambda>acc k. if P k then map_del k acc else acc) m ks) x =
     (if P x \<and> x \<in> set ks then None else map_of m x)"
  by (induction ks arbitrary: m) (auto simp: go_map_simps)

lemma map_of_del_if [go_map_simps]:
  "map_of (map_del_if P m) x = (if P x then None else map_of m x)"
  by (auto simp: map_del_if_def foldl_del_if_map_of map_of_eq_None_iff)

lemma foldl_del_if_wf:
  "wf_map m \<Longrightarrow> wf_map (foldl (\<lambda>acc k. if P k then map_del k acc else acc) m ks)"
  by (induction ks arbitrary: m) (simp_all add: wf_del)

lemma wf_del_if [inv_intros]: "wf_map m \<Longrightarrow> wf_map (map_del_if P m)"
  unfolding map_del_if_def by (rule foldl_del_if_wf)

lemma map_del_if_Nil [simp]: "map_del_if P [] = []"
  by (simp add: map_del_if_def)

lemma dom_map_put: "fst ` set (map_put k v m) = insert k (fst ` set m)"
  by (metis dom_map_of_conv_image_fst map_of_put dom_fun_upd option.distinct(1))

section \<open>Strings\<close>

text \<open>A string between single quotes, as the messages of the sources print names.\<close>

definition quoted :: "string \<Rightarrow> string" where
  "quoted s = [CHR 0x27] @ s @ [CHR 0x27]"

text \<open>
  Go strings are byte strings; \<^typ>\<open>char\<close> is a byte. Every separator of the sources is one
  byte, so \<open>strings.Split\<close> and \<open>strings.Join\<close> are modelled for a separator character.
\<close>

fun split_on :: "char \<Rightarrow> string \<Rightarrow> string list" where
  "split_on c [] = [[]]"
| "split_on c (x # xs) =
     (if x = c then [] # split_on c xs
      else (case split_on c xs of [] \<Rightarrow> [[x]] | w # ws \<Rightarrow> (x # w) # ws))"

fun join_on :: "char \<Rightarrow> string list \<Rightarrow> string" where
  "join_on c [] = []"
| "join_on c [w] = w"
| "join_on c (w # ws) = w @ c # join_on c ws"

lemma split_on_not_Nil [simp]: "split_on c s \<noteq> []"
  by (induction s) (auto split: list.splits)

lemma split_on_no_sep: "c \<notin> set s \<Longrightarrow> split_on c s = [s]"
  by (induction s) auto

lemma split_on_append_sep: "split_on c (a @ c # b) = split_on c a @ split_on c b"
  by (induction a) (auto split: list.splits simp: append_eq_Cons_conv)

lemma split_on_pieces: "w \<in> set (split_on c s) \<Longrightarrow> c \<notin> set w"
  by (induction s arbitrary: w) (fastforce split: if_splits list.splits)+

lemma join_on_Cons: "ws \<noteq> [] \<Longrightarrow> join_on c (w # ws) = w @ c # join_on c ws"
  by (cases ws) auto

lemma join_split [simp]: "join_on c (split_on c s) = s"
proof (induction s)
  case Nil
  show ?case by simp
next
  case (Cons x xs)
  obtain w ws where sp: "split_on c xs = w # ws"
    by (cases "split_on c xs") auto
  with Cons.IH have "join_on c (w # ws) = xs" by simp
  then show ?case
    using sp by (cases "x = c"; cases ws) auto
qed

lemma split_join:
  "ws \<noteq> [] \<Longrightarrow> (\<And>w. w \<in> set ws \<Longrightarrow> c \<notin> set w) \<Longrightarrow> split_on c (join_on c ws) = ws"
  by (induction c ws rule: join_on.induct)
    (auto simp: split_on_no_sep split_on_append_sep)

lemma join_on_append:
  "us \<noteq> [] \<Longrightarrow> vs \<noteq> [] \<Longrightarrow> join_on c (us @ vs) = join_on c us @ c # join_on c vs"
  by (induction c us rule: join_on.induct) (auto simp: join_on_Cons)

lemma length_split_on: "length (split_on c s) = Suc (count_list s c)"
  by (induction s) (auto split: list.splits)

lemma length_split_gt_1: "Suc 0 < length (split_on c s) \<longleftrightarrow> c \<in> set s"
  using count_list_0_iff [of s c] by (auto simp: length_split_on)

end
