(* ===== verification/Hash_Hex.thy ===== *)
theory Hash_Hex
  imports Prelude
begin

text \<open>
  The two packages of the Go standard library that turn an event or a subscription into a
  short identifier: \<open>hash/fnv\<close> (the 32-bit FNV-1a hash, bytes of the sum in big-endian
  order) and \<open>encoding/hex\<close>. The lemmas show that the printed form has a fixed width and
  loses nothing of the hash.
\<close>

unbundle bit_operations_syntax

definition fnv32a_step :: "32 word \<Rightarrow> char \<Rightarrow> 32 word" where
  "fnv32a_step h c = (h XOR of_nat (of_char c)) * 16777619"

definition fnv32a :: "string \<Rightarrow> 32 word" where
  "fnv32a s = foldl fnv32a_step 2166136261 s"

definition fnv32a_Sum :: "32 word \<Rightarrow> 8 word list" where
  "fnv32a_Sum h = [ucast (drop_bit 24 h), ucast (drop_bit 16 h), ucast (drop_bit 8 h), ucast h]"

definition hex_digits :: string where
  "hex_digits = ''0123456789abcdef''"

definition hex_byte :: "8 word \<Rightarrow> string" where
  "hex_byte b = [hex_digits ! (unat b div 16), hex_digits ! (unat b mod 16)]"

definition EncodeToString :: "8 word list \<Rightarrow> string" where
  "EncodeToString bs = concat (map hex_byte bs)"

text \<open>The printed FNV-1a hash of a string, as \<open>Event.Key\<close> and the consumer ids use it.\<close>

definition fnv_hex :: "string \<Rightarrow> string" where
  "fnv_hex s = EncodeToString (fnv32a_Sum (fnv32a s))"

lemma fnv32a_append: "fnv32a (s @ t) = foldl fnv32a_step (fnv32a s) t"
  by (simp add: fnv32a_def)

lemma length_hex_byte [simp]: "length (hex_byte b) = 2"
  by (simp add: hex_byte_def)

lemma unat_byte_less: "unat (b :: 8 word) < 256"
  using unsigned_less [of b] by simp

lemma hex_digits_nth_mem: "n < 16 \<Longrightarrow> hex_digits ! n \<in> set hex_digits"
  by (rule nth_mem) (simp add: hex_digits_def)

lemma set_hex_byte: "set (hex_byte b) \<subseteq> set hex_digits"
proof -
  have "unat b div 16 < 16"
    using unat_byte_less [of b] by simp
  then show ?thesis
    by (simp add: hex_byte_def hex_digits_nth_mem)
qed

lemma length_EncodeToString: "length (EncodeToString bs) = 2 * length bs"
  by (induction bs) (simp_all add: EncodeToString_def)

lemma set_EncodeToString: "set (EncodeToString bs) \<subseteq> set hex_digits"
  using set_hex_byte by (auto simp: EncodeToString_def)

lemma hex_digits_distinct: "distinct hex_digits"
  by (simp add: hex_digits_def)

lemma length_hex_digits: "length hex_digits = 16"
  by (simp add: hex_digits_def)

lemma hex_byte_inject: "hex_byte a = hex_byte b \<longleftrightarrow> a = b"
proof
  assume eq: "hex_byte a = hex_byte b"
  have bound: "unat x div 16 < 16" for x :: "8 word"
    using unat_byte_less [of x] by simp
  from eq have "unat a div 16 = unat b div 16" and "unat a mod 16 = unat b mod 16"
    using bound [of a] bound [of b]
    by (simp_all add: hex_byte_def nth_eq_iff_index_eq [OF hex_digits_distinct] length_hex_digits)
  then have "unat a = unat b"
    by (metis div_mult_mod_eq)
  then show "a = b"
    by (simp add: word_unat_eq_iff)
qed simp

lemma EncodeToString_inject:
  "EncodeToString as = EncodeToString bs \<longleftrightarrow> as = bs"
proof
  assume "EncodeToString as = EncodeToString bs"
  then show "as = bs"
  proof (induction as arbitrary: bs)
    case Nil
    then show ?case by (cases bs) (simp_all add: EncodeToString_def hex_byte_def)
  next
    case (Cons a as)
    then obtain b bs' where "bs = b # bs'"
      by (cases bs) (simp_all add: EncodeToString_def hex_byte_def)
    with Cons show ?case
      by (simp add: EncodeToString_def append_eq_append_conv hex_byte_inject)
  qed
qed simp

lemma fnv32a_Sum_inject: "fnv32a_Sum g = fnv32a_Sum h \<longleftrightarrow> g = h"
proof
  assume eq: "fnv32a_Sum g = fnv32a_Sum h"
  have byte: "(ucast (drop_bit k g) :: 8 word) = ucast (drop_bit k h)" if "k \<in> {0, 8, 16, 24}" for k
    using that eq by (auto simp: fnv32a_Sum_def)
  have "bit g n = bit h n" if "n < 32" for n
  proof -
    have "n div 8 \<in> {0, 1, 2, 3}"
      using that by (auto simp: less_Suc_eq div_less_iff_less_mult)
    then have "8 * (n div 8) \<in> {0, 8, 16, 24}"
      by auto
    from byte [OF this] have
      "bit (ucast (drop_bit (8 * (n div 8)) g) :: 8 word) (n mod 8) =
       bit (ucast (drop_bit (8 * (n div 8)) h) :: 8 word) (n mod 8)"
      by simp
    then show ?thesis
      by (simp add: bit_ucast_iff bit_drop_bit_eq)
  qed
  then show "g = h"
    by (intro bit_word_eqI) simp
qed simp

lemma length_fnv_hex [simp]: "length (fnv_hex s) = 8"
  by (simp add: fnv_hex_def length_EncodeToString fnv32a_Sum_def)

lemma set_fnv_hex: "set (fnv_hex s) \<subseteq> set hex_digits"
  unfolding fnv_hex_def by (rule set_EncodeToString)

lemma fnv_hex_not_Nil [simp]: "fnv_hex s \<noteq> []"
  by (metis length_fnv_hex list.size(3) zero_neq_numeral)

lemma fnv_hex_eq_iff: "fnv_hex s = fnv_hex t \<longleftrightarrow> fnv32a s = fnv32a t"
  by (simp add: fnv_hex_def EncodeToString_inject fnv32a_Sum_inject)

end
