(* ===== verification/Manager_Base.thy ===== *)
theory Manager_Base
  imports Prelude
begin

text \<open>
  \<open>pkg/manager/base_manager.go\<close>: names and keys of Kubernetes objects, and the interface
  \<open>Manager[T]\<close> that the action manager and the producer manager implement and the two
  reconcilers call. The interface is the locale \<open>object_manager\<close>.
\<close>

section \<open>Object names and keys\<close>

text \<open>\<open>types.NamespacedName\<close> and the fields of \<open>metav1.ObjectMeta\<close> that the sources read.\<close>

record NamespacedName =
  nn_Namespace :: string
  nn_Name :: string

record ObjectMeta =
  om_Namespace :: string
  om_Name :: string
  om_Generation :: int

record ObjectKey =
  ok_NamespacedName :: NamespacedName
  ok_Generation :: int

definition meta_name :: "ObjectMeta \<Rightarrow> NamespacedName" where
  "meta_name m = \<lparr>nn_Namespace = om_Namespace m, nn_Name = om_Name m\<rparr>"

definition GetName :: "ObjectKey \<Rightarrow> string" where
  "GetName k = nn_Namespace (ok_NamespacedName k) @ ''/'' @ nn_Name (ok_NamespacedName k)"

definition ToKey :: "ObjectMeta \<Rightarrow> ObjectKey" where
  "ToKey m =
     \<lparr>ok_NamespacedName = \<lparr>nn_Namespace = om_Namespace m, nn_Name = om_Name m\<rparr>,
      ok_Generation = om_Generation m\<rparr>"

lemma ToKey_NamespacedName [simp]: "ok_NamespacedName (ToKey m) = meta_name m"
  by (simp add: ToKey_def meta_name_def)

lemma ToKey_Generation [simp]: "ok_Generation (ToKey m) = om_Generation m"
  by (simp add: ToKey_def)

lemma ToKey_eq_iff:
  "ToKey m = ToKey m' \<longleftrightarrow> meta_name m = meta_name m' \<and> om_Generation m = om_Generation m'"
  by (simp add: ToKey_def meta_name_def)

text \<open>
  The loop of \<open>ActionState.Remove\<close> and of the producer manager's \<open>Remove\<close>: every key of
  the map with this name is deleted, whatever its generation.
\<close>

definition remove_name :: "NamespacedName \<Rightarrow> (ObjectKey, 'v) gomap \<Rightarrow> (ObjectKey, 'v) gomap" where
  "remove_name name m = map_del_if (\<lambda>k. ok_NamespacedName k = name) m"

lemma map_of_remove_name [go_map_simps]:
  "map_of (remove_name name m) k = (if ok_NamespacedName k = name then None else map_of m k)"
  by (simp add: remove_name_def go_map_simps)

lemma wf_remove_name [inv_intros]: "wf_map m \<Longrightarrow> wf_map (remove_name name m)"
  by (simp add: remove_name_def wf_del_if)

section \<open>The manager interface\<close>

text \<open>
  What a reconciler may rely on when it drives a manager. \<open>present\<close> is the test behind
  \<open>Exists\<close>; the laws say what \<open>Add\<close> and \<open>Remove\<close> do to it and that neither panics from a
  state that satisfies the invariant. \<open>Add\<close> may fail (the action manager resolves a label
  selector first), and then nothing has changed.
\<close>

locale object_manager =
  fixes add :: "'t \<Rightarrow> 'm \<Rightarrow> (goerror option \<times> 'm) go"
    and remove :: "NamespacedName \<Rightarrow> 'm \<Rightarrow> (goerror option \<times> 'm) go"
    and present :: "ObjectMeta \<Rightarrow> 'm \<Rightarrow> bool"
    and meta :: "'t \<Rightarrow> ObjectMeta"
    and invar :: "'m \<Rightarrow> bool"
  assumes add_returns: "invar m \<Longrightarrow> \<exists>r m'. add x m = Ret (r, m') \<and> invar m'"
    and add_failed: "invar m \<Longrightarrow> add x m = Ret (Some e, m') \<Longrightarrow> m' = m"
    and add_present: "invar m \<Longrightarrow> add x m = Ret (None, m') \<Longrightarrow> present (meta x) m'"
    and add_other: "invar m \<Longrightarrow> add x m = Ret (r, m') \<Longrightarrow> meta_name obj \<noteq> meta_name (meta x)
      \<Longrightarrow> present obj m' = present obj m"
    and remove_returns: "invar m \<Longrightarrow> \<exists>m'. remove n m = Ret (None, m') \<and> invar m'"
    and remove_present: "invar m \<Longrightarrow> remove n m = Ret (r, m')
      \<Longrightarrow> present obj m' = (present obj m \<and> meta_name obj \<noteq> n)"
begin

lemma remove_absent:
  assumes "invar m" and "remove (meta_name obj) m = Ret (r, m')"
  shows "\<not> present obj m'"
  using remove_present [OF assms] by simp

lemma remove_after_add:
  assumes "invar m" and "add x m = Ret (r, m1)" and "remove (meta_name (meta x)) m1 = Ret (r', m2)"
  shows "present obj m2 = (present obj m \<and> meta_name obj \<noteq> meta_name (meta x))"
proof -
  from add_returns [OF assms(1), of x] assms(2) have inv1: "invar m1"
    by auto
  then show ?thesis
    using remove_present [OF inv1 assms(3)] add_other [OF assms(1,2)] by auto
qed

lemma remove_idempotent:
  assumes "invar m" and "remove n m = Ret (r, m1)" and "remove n m1 = Ret (r', m2)"
  shows "present obj m2 = present obj m1"
proof -
  from remove_returns [OF assms(1), of n] assms(2) have "invar m1"
    by auto
  then show ?thesis
    using remove_present [OF assms(1,2)] remove_present [OF _ assms(3)] by auto
qed

end

end
