(* ===== verification/Events.thy ===== *)
theory Events
  imports Hash_Hex Manager_Base
begin

text \<open>
  \<open>pkg/events/events.go\<close>: the event that travels over the bus, the key by which duplicate
  events are recognised, and the fully qualified topic name under which a source
  publishes.
\<close>

section \<open>Events\<close>

type_synonym EventData = "(string, string) gomap"

text \<open>\<open>EventData.Get\<close>: reading a missing key of a Go map gives the zero value.\<close>

definition EventData_Get :: "EventData \<Rightarrow> string \<Rightarrow> string" where
  "EventData_Get d k = (case map_of d k of None \<Rightarrow> [] | Some v \<Rightarrow> v)"

record Event =
  ev_Name :: string
  ev_ActiveTime :: int
  ev_Data :: "EventData ptr option"

text \<open>The zero value \<open>events.Event{}\<close>.\<close>

definition empty_event :: Event where
  "empty_event = \<lparr>ev_Name = [], ev_ActiveTime = 0, ev_Data = None\<rparr>"

text \<open>The bytes that \<open>Key\<close> writes into the builder before hashing.\<close>

definition data_values :: "EventData \<Rightarrow> string" where
  "data_values d = concat (map (EventData_Get d) (sort (map fst d)))"

definition key_material :: "Event \<Rightarrow> string" where
  "key_material e =
     ev_Name e @ (case ev_Data e of None \<Rightarrow> [] | Some p \<Rightarrow> data_values (deref p))"

definition event_Key :: "Event \<Rightarrow> string" where
  "event_Key e =
     (if (case ev_Data e of None \<Rightarrow> True | Some p \<Rightarrow> length (deref p) = 0) \<and> length (ev_Name e) = 0
      then []
      else fnv_hex (key_material e))"

definition CreateFullyQualifiedTopicName :: "string \<Rightarrow> NamespacedName \<Rightarrow> string" where
  "CreateFullyQualifiedTopicName topic source =
     (if source \<noteq> \<lparr>nn_Namespace = [], nn_Name = []\<rparr>
      then topic @ '':'' @ nn_Namespace source @ '':'' @ nn_Name source
      else topic)"

section \<open>The de-duplication key\<close>

text \<open>Two maps with the same contents, as Go sees them.\<close>

definition same_map :: "('k, 'v) gomap \<Rightarrow> ('k, 'v) gomap \<Rightarrow> bool" where
  "same_map m m' \<longleftrightarrow> wf_map m \<and> wf_map m' \<and> map_of m = map_of m'"

lemma same_map_keys:
  fixes m :: "('k::linorder, 'v) gomap"
  assumes "same_map m m'"
  shows "sort (map fst m) = sort (map fst m')"
proof (rule sorted_distinct_set_unique)
  have "dom (map_of m) = dom (map_of m')"
    using assms by (simp add: same_map_def)
  then show "set (sort (map fst m)) = set (sort (map fst m'))"
    by (simp add: dom_map_of_conv_image_fst)
qed (use assms in \<open>simp_all add: same_map_def\<close>)

lemma same_map_Get: "same_map d d' \<Longrightarrow> EventData_Get d = EventData_Get d'"
  by (simp add: fun_eq_iff EventData_Get_def same_map_def)

lemma data_values_same_map: "same_map d d' \<Longrightarrow> data_values d = data_values d'"
  by (simp add: data_values_def same_map_keys same_map_Get)

lemma same_map_length: "same_map m m' \<Longrightarrow> length m = length m'"
  by (metis length_map same_map_def distinct_card dom_map_of_conv_image_fst list.set_map)

text \<open>
  The key of an event does not depend on the order in which the Go runtime walks the data
  map, nor on where the map is stored: two events with the same name and equal data have
  the same key.
\<close>

lemma event_Key_order_independent:
  assumes "same_map d d'"
  shows "event_Key \<lparr>ev_Name = n, ev_ActiveTime = t, ev_Data = Some (Ptr a d)\<rparr> =
         event_Key \<lparr>ev_Name = n, ev_ActiveTime = t', ev_Data = Some (Ptr a' d')\<rparr>"
  using data_values_same_map [OF assms] same_map_length [OF assms]
  by (simp add: event_Key_def key_material_def)

text \<open>C39:
  The type of a key: it is either empty, exactly for an event without a name and without data, or eight
  lower-case hexadecimal digits; and among the non-empty keys two agree exactly when the
  32-bit FNV-1a hashes of the hashed bytes agree, so printing adds no collision.
\<close>

theorem event_Key_format:
  "(event_Key e = [] \<longleftrightarrow> ev_Name e = [] \<and> (\<forall>p. ev_Data e = Some p \<longrightarrow> deref p = [])) \<and>
   (event_Key e \<noteq> [] \<longrightarrow> length (event_Key e) = 8 \<and> set (event_Key e) \<subseteq> set hex_digits) \<and>
   (event_Key e \<noteq> [] \<longrightarrow> event_Key e' \<noteq> [] \<longrightarrow>
      (event_Key e = event_Key e' \<longleftrightarrow> fnv32a (key_material e) = fnv32a (key_material e')))"
  using set_fnv_hex by (auto simp: event_Key_def fnv_hex_eq_iff split: option.splits)

definition sample_event :: Event where
  "sample_event = \<lparr>ev_Name = ''a'', ev_ActiveTime = 0, ev_Data = None\<rparr>"

theorem event_Key_format_witness:
  "length (event_Key sample_event) = 8 \<and> set (event_Key sample_event) \<subseteq> set hex_digits"
  using event_Key_format [of sample_event sample_event] by (auto simp: sample_event_def)

text \<open>
  The key mixes the values without separators and leaves the label names out: moving
  characters from one label's value to the front of the next one's never changes the key,
  so events with different data are taken for duplicates.
\<close>

lemma event_Key_ignores_boundaries:
  "event_Key \<lparr>ev_Name = n, ev_ActiveTime = t, ev_Data = Some (Ptr a [(''k1'', u @ v), (''k2'', w)])\<rparr> =
   event_Key \<lparr>ev_Name = n, ev_ActiveTime = t, ev_Data = Some (Ptr b [(''k1'', u), (''k2'', v @ w)])\<rparr>"
proof -
  have keys: "sort [''k1'', ''k2''] = [''k1'', ''k2'']"
    by code_simp
  show ?thesis
    by (simp add: event_Key_def key_material_def data_values_def keys EventData_Get_def)
qed

section \<open>Topic names\<close>

lemma CreateFullyQualifiedTopicName_empty [simp]:
  "CreateFullyQualifiedTopicName t \<lparr>nn_Namespace = [], nn_Name = []\<rparr> = t"
  by (simp add: CreateFullyQualifiedTopicName_def)

lemma CreateFullyQualifiedTopicName_join:
  "source \<noteq> \<lparr>nn_Namespace = [], nn_Name = []\<rparr> \<Longrightarrow>
   CreateFullyQualifiedTopicName t source = join_on CHR '':'' [t, nn_Namespace source, nn_Name source]"
  by (simp add: CreateFullyQualifiedTopicName_def)

text \<open>
  A fully qualified topic name identifies the topic and the source: with no colon in the
  topics, the namespaces or the names, two names are equal exactly when their parts are.
\<close>

theorem CreateFullyQualifiedTopicName_inject:
  assumes "CHR '':'' \<notin> set t" "CHR '':'' \<notin> set (nn_Namespace s)" "CHR '':'' \<notin> set (nn_Name s)"
    and "CHR '':'' \<notin> set t'" "CHR '':'' \<notin> set (nn_Namespace s')" "CHR '':'' \<notin> set (nn_Name s')"
  shows "CreateFullyQualifiedTopicName t s = CreateFullyQualifiedTopicName t' s' \<longleftrightarrow> t = t' \<and> s = s'"
proof -
  let ?parts = "\<lambda>t (s :: NamespacedName). if s \<noteq> \<lparr>nn_Namespace = [], nn_Name = []\<rparr>
     then [t, nn_Namespace s, nn_Name s] else [t]"
  have split: "split_on CHR '':'' (CreateFullyQualifiedTopicName t s) = ?parts t s"
    if "CHR '':'' \<notin> set t" "CHR '':'' \<notin> set (nn_Namespace s)" "CHR '':'' \<notin> set (nn_Name s)"
    for t and s :: NamespacedName
    using that by (auto simp: CreateFullyQualifiedTopicName_join split_on_no_sep split_on_append_sep)
  have "t = t' \<and> s = s'" if "CreateFullyQualifiedTopicName t s = CreateFullyQualifiedTopicName t' s'"
  proof -
    have "?parts t s = ?parts t' s'"
      using split [OF assms(1-3)] split [OF assms(4-6)] that by metis
    then show ?thesis
      by (simp split: if_splits)
  qed
  then show ?thesis by blast
qed

theorem CreateFullyQualifiedTopicName_inject_witness:
  "CreateFullyQualifiedTopicName ''HighCpu'' \<lparr>nn_Namespace = ''mon'', nn_Name = ''p8s''\<rparr> = ''HighCpu:mon:p8s'' \<and>
   CreateFullyQualifiedTopicName ''HighCpu'' \<lparr>nn_Namespace = ''mon'', nn_Name = ''p8s''\<rparr> \<noteq>
   CreateFullyQualifiedTopicName ''HighCpu'' \<lparr>nn_Namespace = ''mon'', nn_Name = ''other''\<rparr>"
  using CreateFullyQualifiedTopicName_inject [of "''HighCpu''" "\<lparr>nn_Namespace = ''mon'', nn_Name = ''p8s''\<rparr>"
      "''HighCpu''" "\<lparr>nn_Namespace = ''mon'', nn_Name = ''other''\<rparr>"]
  by (simp add: CreateFullyQualifiedTopicName_def)

end
