(* ===== verification/Matcher.thy ===== *)
theory Matcher
  imports Events
begin

text \<open>
  \<open>pkg/eventbus/matcher.go\<close>: which subscribers a message on a topic goes to. The topic is
  tried as it is and then with its last colon-separated part dropped, until no colon is
  left.
\<close>

section \<open>The matcher\<close>

type_synonym 'c subs = "(string, 'c list) gomap"

text \<open>\<open>subs[topic]\<close>: a missing key reads as the nil slice.\<close>

definition subs_at :: "'c subs \<Rightarrow> string \<Rightarrow> 'c list" where
  "subs_at subs topic = (case map_of subs topic of Some r \<Rightarrow> r | None \<Rightarrow> [])"

lemma length_parent_less:
  "1 < length (split_on c t) \<Longrightarrow>
   length (split_on c (join_on c (take (length (split_on c t) - 1) (split_on c t)))) < length (split_on c t)"
  by (subst split_join) (auto dest: in_set_takeD split_on_pieces)

function SubscriberMatch :: "'c subs \<Rightarrow> string \<Rightarrow> 'c list \<times> bool" where
  "SubscriberMatch subs topic =
     (let chs = (case map_of subs topic of Some r \<Rightarrow> r | None \<Rightarrow> []);
          topicSlice = split_on CHR '':'' topic;
          chs' =
            (if length topicSlice > 1
             then let t = join_on CHR '':'' (take (length topicSlice - 1) topicSlice);
                      (r, ok) = SubscriberMatch subs t
                  in if ok then chs @ r else chs
             else chs)
      in (chs', length chs' > 0))"
  by pat_completeness auto
termination
  by (relation "measure (\<lambda>(subs, t). length (split_on CHR '':'' t))")
    (use length_parent_less in \<open>auto simp: Let_def\<close>)

declare SubscriberMatch.simps [simp del]

section \<open>The topics a message belongs to\<close>

text \<open>The topic a subscriber registered covers the topics below it.\<close>

definition topic_covers :: "string \<Rightarrow> string \<Rightarrow> bool" where
  "topic_covers p t \<longleftrightarrow> p = t \<or> (\<exists>s. t = p @ CHR '':'' # s)"

definition parent_topic :: "string \<Rightarrow> string" where
  "parent_topic t = join_on CHR '':'' (butlast (split_on CHR '':'' t))"

lemma topic_covers_refl [simp]: "topic_covers t t"
  by (simp add: topic_covers_def)

lemma topic_covers_append: "topic_covers t (t @ CHR '':'' # s)"
  by (auto simp: topic_covers_def)

lemma parent_topic_split:
  assumes "CHR '':'' \<in> set t"
  obtains l where "t = parent_topic t @ CHR '':'' # l" and "CHR '':'' \<notin> set l"
proof
  let ?ws = "split_on CHR '':'' t"
  from assms have "1 < length ?ws"
    by (simp add: length_split_gt_1)
  then have ne: "butlast ?ws \<noteq> []"
    by (cases ?ws rule: rev_cases) auto
  have "t = join_on CHR '':'' (butlast ?ws @ [last ?ws])"
    by simp
  also have "\<dots> = parent_topic t @ CHR '':'' # last ?ws"
    using ne by (simp add: join_on_append parent_topic_def del: append_butlast_last_id)
  finally show "t = parent_topic t @ CHR '':'' # last ?ws" .
  show "CHR '':'' \<notin> set (last ?ws)"
    by (rule split_on_pieces [of _ _ t]) simp
qed

lemma topic_covers_parent:
  assumes "CHR '':'' \<in> set t"
  shows "topic_covers p t \<longleftrightarrow> p = t \<or> topic_covers p (parent_topic t)"
proof -
  obtain l where t: "t = parent_topic t @ CHR '':'' # l" and l: "CHR '':'' \<notin> set l"
    using assms by (rule parent_topic_split)
  have "(\<exists>s. q @ CHR '':'' # l = p @ CHR '':'' # s) \<longleftrightarrow> topic_covers p q" for q
    using l by (auto simp: topic_covers_def append_eq_append_conv2 Cons_eq_append_conv append_eq_Cons_conv)
  with t show ?thesis
    by (metis topic_covers_def)
qed

lemma topic_covers_no_colon: "CHR '':'' \<notin> set t \<Longrightarrow> topic_covers p t \<longleftrightarrow> p = t"
  by (auto simp: topic_covers_def)

lemma SubscriberMatch_snd: "snd (SubscriberMatch subs t) \<longleftrightarrow> fst (SubscriberMatch subs t) \<noteq> []"
  by (subst (1 2) SubscriberMatch.simps) (simp add: Let_def)

lemma SubscriberMatch_fst:
  "fst (SubscriberMatch subs t) =
     subs_at subs t @ (if CHR '':'' \<in> set t then fst (SubscriberMatch subs (parent_topic t)) else [])"
  using SubscriberMatch_snd [of subs "parent_topic t"]
  by (subst SubscriberMatch.simps)
    (auto simp: Let_def subs_at_def parent_topic_def butlast_conv_take length_split_gt_1 split: prod.splits)

lemma length_parent_topic: "CHR '':'' \<in> set t \<Longrightarrow> length (parent_topic t) < length t"
  by (metis parent_topic_split length_append length_Cons less_add_Suc1 add_Suc_right)

lemma topic_induct [case_names topic]:
  assumes "\<And>t. (CHR '':'' \<in> set t \<Longrightarrow> P (parent_topic t)) \<Longrightarrow> P t"
  shows "P t"
  by (induction t rule: length_induct) (use assms length_parent_topic in blast)

lemma set_SubscriberMatch:
  "set (fst (SubscriberMatch subs t)) = {c. \<exists>p. topic_covers p t \<and> c \<in> set (subs_at subs p)}"
proof (induction t rule: topic_induct)
  case (topic t)
  show ?case
  proof (cases "CHR '':'' \<in> set t")
    case True
    with topic show ?thesis
      by (subst SubscriberMatch_fst) (auto simp: topic_covers_parent [OF True])
  next
    case False
    then show ?thesis
      by (subst SubscriberMatch_fst) (auto simp: topic_covers_no_colon)
  qed
qed

text \<open>C19:
  The matcher is sound and complete: a channel is matched exactly when it is subscribed to
  the topic itself or to a colon-bounded prefix of it, the flag tells whether there is one,
  and the subscribers of the topic come before those of its prefixes.
\<close>

theorem SubscriberMatch_correct:
  "(c \<in> set (fst (SubscriberMatch subs t)) \<longleftrightarrow> (\<exists>p. topic_covers p t \<and> c \<in> set (subs_at subs p))) \<and>
   (snd (SubscriberMatch subs t) \<longleftrightarrow> (\<exists>p c'. topic_covers p t \<and> c' \<in> set (subs_at subs p))) \<and>
   (\<exists>rest. fst (SubscriberMatch subs t) = subs_at subs t @ rest)"
proof -
  have "snd (SubscriberMatch subs t) \<longleftrightarrow> set (fst (SubscriberMatch subs t)) \<noteq> {}"
    by (simp add: SubscriberMatch_snd)
  moreover have "\<exists>rest. fst (SubscriberMatch subs t) = subs_at subs t @ rest"
    by (subst SubscriberMatch_fst) blast
  ultimately show ?thesis
    by (auto simp: set_SubscriberMatch)
qed

section \<open>At most one delivery per channel\<close>

lemma subs_at_mem: "c \<in> set (subs_at subs p) \<Longrightarrow> \<exists>r. (p, r) \<in> set subs \<and> c \<in> set r"
  by (cases "map_of subs p") (auto simp: subs_at_def dest: map_of_SomeD)

lemma subs_at_disjoint:
  assumes "distinct (concat (map snd subs))" and "p \<noteq> q"
    and "c \<in> set (subs_at subs p)" and "c \<in> set (subs_at subs q)"
  shows False
  using assms
proof (induction subs)
  case Nil
  then show ?case by (simp add: subs_at_def)
next
  case (Cons x subs)
  obtain k r where x: "x = (k, r)" by (cases x)
  have rest: "c \<in> set (concat (map snd subs))" if "c \<in> set (subs_at subs u)" for u
    using subs_at_mem [OF that] by force
  show ?case
    using Cons rest x by (auto simp: subs_at_def split: if_splits)
qed

lemma distinct_subs_at: "distinct (concat (map snd subs)) \<Longrightarrow> distinct (subs_at subs p)"
  by (auto simp: subs_at_def distinct_concat_iff image_iff dest: map_of_SomeD split: option.splits)
    (metis distinct_concat_iff in_set_conv_nth map_of_SomeD nth_map nth_mem snd_conv length_map)

lemma parent_topic_neq: "CHR '':'' \<in> set t \<Longrightarrow> topic_covers p (parent_topic t) \<Longrightarrow> p \<noteq> t"
  using length_parent_topic [of t] by (auto simp: topic_covers_def)

lemma distinct_SubscriberMatch:
  assumes "distinct (concat (map snd subs))"
  shows "distinct (fst (SubscriberMatch subs t))"
proof (induction t rule: topic_induct)
  case (topic t)
  have "set (subs_at subs t) \<inter> set (fst (SubscriberMatch subs (parent_topic t))) = {}"
    if "CHR '':'' \<in> set t"
    using subs_at_disjoint [OF assms] parent_topic_neq [OF that] by (auto simp: set_SubscriberMatch)
  then show ?case
    using topic distinct_subs_at [OF assms] by (subst SubscriberMatch_fst) auto
qed

text \<open>
  An event published by any source under its fully qualified topic name reaches the
  subscribers of the bare event name.
\<close>

lemma fully_qualified_covers: "topic_covers t (CreateFullyQualifiedTopicName t source)"
  by (auto simp: CreateFullyQualifiedTopicName_def topic_covers_def)

end
