(* ===== verification/Channels.thy ===== *)
theory Channels
  imports Prelude
begin

text \<open>
  Go channels. A store maps channel references to channels; a channel is its buffer, its
  capacity and whether it is closed. A reference the store does not know is the nil
  channel, which is never ready. Sending to or closing a closed channel panics; receiving
  from a closed channel first drains the buffer and then yields the zero value.
\<close>

section \<open>The store of channels\<close>

type_synonym chan_id = nat

record 'a chan =
  ch_buf :: "'a list"
  ch_cap :: nat
  ch_closed :: bool

record 'a store =
  st_chans :: "chan_id \<Rightarrow> 'a chan option"
  st_next :: chan_id

definition empty_store :: "'a store" where
  "empty_store = \<lparr>st_chans = (\<lambda>_. None), st_next = 0\<rparr>"

definition set_chan :: "chan_id \<Rightarrow> 'a chan \<Rightarrow> 'a store \<Rightarrow> 'a store" where
  "set_chan c ch s = s\<lparr>st_chans := (st_chans s)(c \<mapsto> ch)\<rparr>"

text \<open>\<open>make(chan T, n)\<close>\<close>

definition make_chan :: "nat \<Rightarrow> 'a store \<Rightarrow> chan_id \<times> 'a store" where
  "make_chan n s =
     (st_next s,
      \<lparr>st_chans = (st_chans s)(st_next s \<mapsto> \<lparr>ch_buf = [], ch_cap = n, ch_closed = False\<rparr>),
       st_next = Suc (st_next s)\<rparr>)"

text \<open>\<open>select { case c <- v: ... default: ... }\<close>; the flag tells whether the value was sent.\<close>

definition try_send :: "chan_id \<Rightarrow> 'a \<Rightarrow> 'a store \<Rightarrow> (bool \<times> 'a store) go" where
  "try_send c v s =
     (case st_chans s c of
        None \<Rightarrow> Ret (False, s)
      | Some ch \<Rightarrow>
          if ch_closed ch then Panics ''send on closed channel''
          else if length (ch_buf ch) < ch_cap ch
          then Ret (True, set_chan c (ch\<lparr>ch_buf := ch_buf ch @ [v]\<rparr>) s)
          else Ret (False, s))"

text \<open>\<open>close(c)\<close>\<close>

definition close_chan :: "chan_id \<Rightarrow> 'a store \<Rightarrow> 'a store go" where
  "close_chan c s =
     (case st_chans s c of
        None \<Rightarrow> Panics ''close of nil channel''
      | Some ch \<Rightarrow>
          if ch_closed ch then Panics ''close of closed channel''
          else Ret (set_chan c (ch\<lparr>ch_closed := True\<rparr>) s))"

text \<open>\<open>v, ok := <-c\<close>: a value, the end of a closed and drained channel, or nothing yet.\<close>

datatype 'a recv = Received 'a | Closed | NotReady

definition recv :: "chan_id \<Rightarrow> 'a store \<Rightarrow> 'a recv \<times> 'a store" where
  "recv c s =
     (case st_chans s c of
        None \<Rightarrow> (NotReady, s)
      | Some ch \<Rightarrow>
          (case ch_buf ch of
             v # vs \<Rightarrow> (Received v, set_chan c (ch\<lparr>ch_buf := vs\<rparr>) s)
           | [] \<Rightarrow> if ch_closed ch then (Closed, s) else (NotReady, s)))"

section \<open>Well-formed stores\<close>

definition chan_open :: "'a store \<Rightarrow> chan_id \<Rightarrow> bool" where
  "chan_open s c = (case st_chans s c of None \<Rightarrow> False | Some ch \<Rightarrow> \<not> ch_closed ch)"

definition has_room :: "'a store \<Rightarrow> chan_id \<Rightarrow> bool" where
  "has_room s c = (case st_chans s c of None \<Rightarrow> False | Some ch \<Rightarrow> length (ch_buf ch) < ch_cap ch)"

definition buf :: "'a store \<Rightarrow> chan_id \<Rightarrow> 'a list" where
  "buf s c = (case st_chans s c of None \<Rightarrow> [] | Some ch \<Rightarrow> ch_buf ch)"

definition chan_cap :: "'a store \<Rightarrow> chan_id \<Rightarrow> nat" where
  "chan_cap s c = (case st_chans s c of None \<Rightarrow> 0 | Some ch \<Rightarrow> ch_cap ch)"

definition wf_store :: "'a store \<Rightarrow> bool" where
  "wf_store s \<longleftrightarrow>
     (\<forall>c ch. st_chans s c = Some ch \<longrightarrow> c < st_next s \<and> length (ch_buf ch) \<le> ch_cap ch)"

text \<open>The effect of a successful send.\<close>

definition push :: "'a \<Rightarrow> 'a chan \<Rightarrow> 'a chan" where
  "push v ch = ch\<lparr>ch_buf := ch_buf ch @ [v]\<rparr>"

lemma set_chan_simps [simp]:
  "st_chans (set_chan c ch s) = (st_chans s)(c \<mapsto> ch)"
  "st_next (set_chan c ch s) = st_next s"
  by (simp_all add: set_chan_def)

lemma wf_empty_store [inv_intros]: "wf_store empty_store"
  by (simp add: wf_store_def empty_store_def)

lemma wf_make_chan [inv_intros]: "wf_store s \<Longrightarrow> wf_store (snd (make_chan n s))"
  by (auto simp: wf_store_def make_chan_def less_Suc_eq)

lemma make_chan_fresh: "wf_store s \<Longrightarrow> st_chans s (fst (make_chan n s)) = None"
  by (cases "st_chans s (st_next s)") (auto simp: wf_store_def make_chan_def)

lemma fst_make_chan [simp]: "fst (make_chan n s) = st_next s"
  by (simp add: make_chan_def)

lemma chan_open_make_chan [frame_simps]:
  "chan_open (snd (make_chan n s)) c \<longleftrightarrow> c = fst (make_chan n s) \<or> chan_open s c"
  by (auto simp: chan_open_def make_chan_def)

lemma chan_cap_make_chan [frame_simps]:
  "chan_cap (snd (make_chan n s)) c = (if c = st_next s then n else chan_cap s c)"
  by (simp add: chan_cap_def make_chan_def)

lemma try_send_open:
  "chan_open s c \<Longrightarrow> try_send c v s =
     Ret (if has_room s c then (True, set_chan c (push v (the (st_chans s c))) s) else (False, s))"
  by (auto simp: chan_open_def has_room_def try_send_def push_def split: option.splits)

lemma wf_try_send [inv_intros]: "wf_store s \<Longrightarrow> try_send c v s = Ret (b, s') \<Longrightarrow> wf_store s'"
  by (auto simp: wf_store_def try_send_def split: option.splits if_splits)

lemma try_send_frame [frame_simps]:
  "try_send c v s = Ret (b, s') \<Longrightarrow> st_next s' = st_next s"
  "try_send c v s = Ret (b, s') \<Longrightarrow> chan_open s' d = chan_open s d"
  "try_send c v s = Ret (b, s') \<Longrightarrow> d \<noteq> c \<Longrightarrow> st_chans s' d = st_chans s d"
  "try_send c v s = Ret (b, s') \<Longrightarrow> chan_cap s' d = chan_cap s d"
  by (auto simp: try_send_def chan_open_def chan_cap_def split: option.splits if_splits)

lemma wf_recv [inv_intros]: "wf_store s \<Longrightarrow> wf_store (snd (recv c s))"
  by (fastforce simp: wf_store_def recv_def split: option.splits list.splits)

lemma recv_frame [frame_simps]:
  "st_next (snd (recv c s)) = st_next s"
  "chan_open (snd (recv c s)) d = chan_open s d"
  "d \<noteq> c \<Longrightarrow> st_chans (snd (recv c s)) d = st_chans s d"
  "chan_cap (snd (recv c s)) d = chan_cap s d"
  by (auto simp: recv_def chan_open_def chan_cap_def split: option.splits list.splits)

lemma close_chan_open:
  "chan_open s c \<Longrightarrow>
   close_chan c s = Ret (set_chan c ((the (st_chans s c))\<lparr>ch_closed := True\<rparr>) s)"
  by (auto simp: chan_open_def close_chan_def split: option.splits)

lemma wf_close_chan [inv_intros]: "wf_store s \<Longrightarrow> close_chan c s = Ret s' \<Longrightarrow> wf_store s'"
  by (auto simp: wf_store_def close_chan_def split: option.splits if_splits)

lemma close_chan_frame [frame_simps]:
  "close_chan c s = Ret s' \<Longrightarrow> st_next s' = st_next s"
  "close_chan c s = Ret s' \<Longrightarrow> chan_open s' d \<longleftrightarrow> d \<noteq> c \<and> chan_open s d"
  "close_chan c s = Ret s' \<Longrightarrow> buf s' d = buf s d"
  "close_chan c s = Ret s' \<Longrightarrow> chan_cap s' d = chan_cap s d"
  by (auto simp: close_chan_def chan_open_def buf_def chan_cap_def split: option.splits if_splits)

lemma wf_store_bounded: "wf_store s \<Longrightarrow> length (buf s c) \<le> chan_cap s c"
  by (auto simp: wf_store_def buf_def chan_cap_def split: option.splits)

text \<open>A channel is first in, first out.\<close>

lemma recv_buf:
  "recv c s = (Received v, s') \<Longrightarrow> buf s c = v # buf s' c"
  by (auto simp: recv_def buf_def split: option.splits list.splits if_splits)

lemma try_send_buf:
  "try_send c v s = Ret (True, s') \<Longrightarrow> buf s' c = buf s c @ [v]"
  by (auto simp: try_send_def buf_def split: option.splits if_splits)

end
