(* ===== verification/Eventbus.thy ===== *)
theory Eventbus
  imports Matcher Channels
begin

text \<open>
  \<open>pkg/eventbus/eventbus.go\<close>: topics with their subscribers, the work queue of published
  messages, and the worker that hands each message to the matching subscribers. The work
  queue is \<open>client-go\<close>'s rate limiting queue: a parameter of the model, a record of its
  operations, with its documented behaviour as the predicate \<open>workqueue_contract\<close>.
\<close>

section \<open>State\<close>

record message =
  msg_event :: Event
  msg_topic :: string

text \<open>The queue stores values of any type; \<open>ForeignItem\<close> is one that is not a message.\<close>

datatype item = MessageItem message | ForeignItem string

text \<open>
  \<open>workqueue.RateLimitingInterface\<close>. \<open>wq_Get\<close> is \<open>None\<close> while it would block, and
  otherwise gives the next item, or \<open>None\<close> for shutdown.
\<close>

record 'q workqueue_ops =
  wq_Add :: "item \<Rightarrow> 'q \<Rightarrow> 'q"
  wq_Get :: "'q \<Rightarrow> (item option \<times> 'q) option"
  wq_Done :: "item \<Rightarrow> 'q \<Rightarrow> 'q"
  wq_Forget :: "item \<Rightarrow> 'q \<Rightarrow> 'q"
  wq_AddRateLimited :: "item \<Rightarrow> 'q \<Rightarrow> 'q"
  wq_ShutDownWithDrain :: "'q \<Rightarrow> 'q"

type_synonym Subscribers = "chan_id subs"

text \<open>A logger is the list of its names; \<open>None\<close> is the zero value of \<open>logr.Logger\<close>.\<close>

record 'q EventBus =
  eb_logger :: "string list option"
  eb_workqueue :: 'q
  eb_workers :: nat
  eb_running :: nat \<comment> \<open>worker goroutines inside \<open>wait.Until\<close>\<close>
  eb_subscribers :: Subscribers
  eb_store :: "Event store" \<comment> \<open>the consumer channels\<close>

definition CONSUMER_BUFFER_SIZE :: nat where
  "CONSUMER_BUFFER_SIZE = 10"

section \<open>Operations\<close>

text \<open>
  The rate limiter that the queue is made with, as the tree of constructor calls of client-go:
  the larger of the delays of the limiters in a list; a delay per item that starts at the first
  duration and doubles up to the second; so many requests per second with a burst.
\<close>

datatype RateLimiter =
    MaxOfRateLimiter "RateLimiter list"
  | ItemExponentialFailureRateLimiter int int
  | BucketRateLimiter nat nat

definition NewRateLimiter :: RateLimiter where
  "NewRateLimiter = MaxOfRateLimiter
     [ItemExponentialFailureRateLimiter (1000 * 1000000) (5000 * 1000000000), BucketRateLimiter 10 100]"

definition NewEventBus :: "nat \<Rightarrow> 'q \<Rightarrow> 'q EventBus" where
  "NewEventBus workers q =
     \<lparr>eb_logger = None, eb_workqueue = q, eb_workers = workers, eb_running = 0, eb_subscribers = [],
      eb_store = empty_store\<rparr>"

text \<open>The manager of controller-runtime calls it when the bus is added; what is logged is not modelled.\<close>

definition InjectLogger :: "string list \<Rightarrow> 'q EventBus \<Rightarrow> goerror option \<times> 'q EventBus" where
  "InjectLogger logr b = (None, b\<lparr>eb_logger := Some logr\<rparr>)"

definition Publish :: "'q workqueue_ops \<Rightarrow> string \<Rightarrow> Event \<Rightarrow> 'q EventBus \<Rightarrow> goerror option \<times> 'q EventBus" where
  "Publish wq topic event b =
     (None, b\<lparr>eb_workqueue :=
        wq_Add wq (MessageItem \<lparr>msg_event = event, msg_topic = topic\<rparr>) (eb_workqueue b)\<rparr>)"

text \<open>
  \<open>Subscribe\<close>: a new buffered channel, appended to the topic's subscribers. The consumer
  object made from the channel is modelled in theory Consumers; the operation here returns
  the channel.
\<close>

definition Subscribe :: "string \<Rightarrow> 'q EventBus \<Rightarrow> chan_id \<times> 'q EventBus" where
  "Subscribe topic b =
     (let (ch, st) = make_chan CONSUMER_BUFFER_SIZE (eb_store b)
      in (ch, b\<lparr>eb_subscribers := map_put topic (subs_at (eb_subscribers b) topic @ [ch]) (eb_subscribers b),
                eb_store := st\<rparr>))"

text \<open>The slice without its element at the first index where it equals \<open>ch\<close>.\<close>

fun cut_first :: "chan_id \<Rightarrow> chan_id list \<Rightarrow> chan_id list option" where
  "cut_first ch [] = None"
| "cut_first ch (c # cs) = (if ch = c then Some cs else map_option (Cons c) (cut_first ch cs))"

definition unsubscribe :: "string \<Rightarrow> chan_id \<Rightarrow> 'q EventBus \<Rightarrow> (goerror option \<times> 'q EventBus) go" where
  "unsubscribe topic ch b =
     (case cut_first ch (subs_at (eb_subscribers b) topic) of
        None \<Rightarrow> Ret (None, b)
      | Some cs \<Rightarrow>
          go_bind (close_chan ch (eb_store b))
            (\<lambda>st. Ret (None, b\<lparr>eb_subscribers := map_put topic cs (eb_subscribers b), eb_store := st\<rparr>)))"

text \<open>
  The loop over the matched subscribers: it sends to each without blocking and stops at
  the first whose buffer is full.
\<close>

fun deliver :: "chan_id list \<Rightarrow> Event \<Rightarrow> Event store \<Rightarrow> (bool \<times> Event store) go" where
  "deliver [] e st = Ret (True, st)"
| "deliver (c # cs) e st =
     go_bind (try_send c e st) (\<lambda>(sent, st'). if sent then deliver cs e st' else Ret (False, st'))"

definition not_ready_error :: "message \<Rightarrow> goerror" where
  "not_ready_error m =
     Errorf (''consumer not ready for event '' @ quoted (event_Key (msg_event m)) @ '', requeuing'')"

text \<open>
  The closure inside \<open>processNextWorkItem\<close>, before its deferred \<open>Done\<close>: the error it
  returns, the errors it passes to \<open>HandleError\<close> itself, and the bus.
\<close>

definition process_item :: "'q workqueue_ops \<Rightarrow> item \<Rightarrow> 'q EventBus \<Rightarrow>
    (goerror option \<times> goerror list \<times> 'q EventBus) go" where
  "process_item wq obj b =
     (case obj of
        ForeignItem s \<Rightarrow>
          Ret (None, [Errorf (''expected Event in workqueue but got '' @ s)],
               b\<lparr>eb_workqueue := wq_Forget wq obj (eb_workqueue b)\<rparr>)
      | MessageItem m \<Rightarrow>
          (let (subscribers, ok) = SubscriberMatch (eb_subscribers b) (msg_topic m)
           in if ok
              then go_bind (deliver subscribers (msg_event m) (eb_store b))
                (\<lambda>(all_sent, st).
                   if all_sent
                   then Ret (None, [], b\<lparr>eb_store := st, eb_workqueue := wq_Forget wq obj (eb_workqueue b)\<rparr>)
                   else Ret (Some (not_ready_error m), [],
                          b\<lparr>eb_store := st, eb_workqueue := wq_AddRateLimited wq obj (eb_workqueue b)\<rparr>))
              else Ret (None, [], b\<lparr>eb_workqueue := wq_Forget wq obj (eb_workqueue b)\<rparr>)))"

text \<open>
  One turn of a worker: \<open>None\<close> while \<open>Get\<close> blocks; otherwise whether to go on, the errors
  handled, and the bus.
\<close>

definition processNextWorkItem :: "'q workqueue_ops \<Rightarrow> 'q EventBus \<Rightarrow> (bool \<times> goerror list \<times> 'q EventBus) go option" where
  "processNextWorkItem wq b =
     (case wq_Get wq (eb_workqueue b) of
        None \<Rightarrow> None
      | Some (None, q) \<Rightarrow> Some (Ret (False, [], b\<lparr>eb_workqueue := q\<rparr>))
      | Some (Some obj, q) \<Rightarrow>
          Some (go_bind (process_item wq obj (b\<lparr>eb_workqueue := q\<rparr>))
            (\<lambda>(err, handled, b').
               Ret (True, handled @ (case err of None \<Rightarrow> [] | Some e \<Rightarrow> [e]),
                    b'\<lparr>eb_workqueue := wq_Done wq obj (eb_workqueue b')\<rparr>))))"

text \<open>
  \<open>runWorker\<close>: turn after turn until the queue shuts down. It may never end, so the number
  of turns is bounded by fuel; \<open>None\<close> is a worker that still runs or blocks.
\<close>

fun runWorker :: "nat \<Rightarrow> 'q workqueue_ops \<Rightarrow> 'q EventBus \<Rightarrow> 'q EventBus go option" where
  "runWorker 0 wq b = None"
| "runWorker (Suc n) wq b =
     (case processNextWorkItem wq b of
        None \<Rightarrow> None
      | Some (Panics m) \<Rightarrow> Some (Panics m)
      | Some (Ret (go_on, handled, b')) \<Rightarrow> if go_on then runWorker n wq b' else Some (Ret b'))"

text \<open>\<open>Start\<close> up to the wait for the end of the context: the workers are launched.\<close>

definition Start_launch :: "'q EventBus \<Rightarrow> 'q EventBus" where
  "Start_launch b = b\<lparr>eb_running := eb_running b + eb_workers b\<rparr>"

fun close_all :: "chan_id list \<Rightarrow> Event store \<Rightarrow> Event store go" where
  "close_all [] st = Ret st"
| "close_all (c # cs) st = go_bind (close_chan c st) (close_all cs)"

text \<open>
  \<open>Start\<close> after the context is done. The last statement sends one value on the unbuffered
  channel \<open>workerShutdownChan\<close>: it blocks (\<open>None\<close>) until a worker goroutine takes the
  value, and that one worker ends.
\<close>

definition Start_stop :: "'q workqueue_ops \<Rightarrow> 'q EventBus \<Rightarrow> 'q EventBus go option" where
  "Start_stop wq b =
     (let b1 = b\<lparr>eb_workqueue := wq_ShutDownWithDrain wq (eb_workqueue b)\<rparr>
      in case close_all (concat (map snd (eb_subscribers b1))) (eb_store b1) of
           Panics m \<Rightarrow> Some (Panics m)
         | Ret st \<Rightarrow>
             if eb_running b1 = 0 then None
             else Some (Ret (b1\<lparr>eb_store := st, eb_subscribers := [], eb_running := eb_running b1 - 1\<rparr>)))"

section \<open>The work queue contract\<close>

text \<open>
  The documented behaviour of the queue. \<open>pend\<close> are the items that wait to be handed out
  (queued, delayed by the rate limiter, or marked again while in process), \<open>closing\<close> says
  that shutdown has begun, after which additions are dropped. \<open>Get\<close> hands out a waiting
  item; \<open>Done\<close> and \<open>Forget\<close> touch neither.
\<close>

definition workqueue_contract :: "'q workqueue_ops \<Rightarrow> ('q \<Rightarrow> item set) \<Rightarrow> ('q \<Rightarrow> bool) \<Rightarrow> bool" where
  "workqueue_contract wq pend closing \<longleftrightarrow>
     (\<forall>i q. pend (wq_Add wq i q) = (if closing q then pend q else insert i (pend q))) \<and>
     (\<forall>i q. pend (wq_AddRateLimited wq i q) = (if closing q then pend q else insert i (pend q))) \<and>
     (\<forall>i q q'. wq_Get wq q = Some (Some i, q') \<longrightarrow> i \<in> pend q \<and> pend q' = pend q - {i}) \<and>
     (\<forall>i q. pend (wq_Done wq i q) = pend q \<and> pend (wq_Forget wq i q) = pend q) \<and>
     (\<forall>i q q' r. closing (wq_Add wq i q) = closing q \<and> closing (wq_AddRateLimited wq i q) = closing q \<and>
        closing (wq_Done wq i q) = closing q \<and> closing (wq_Forget wq i q) = closing q \<and>
        (wq_Get wq q = Some (r, q') \<longrightarrow> closing q' = closing q)) \<and>
     (\<forall>q. closing (wq_ShutDownWithDrain wq q))"

lemma workqueue_contractD:
  assumes "workqueue_contract wq pend closing"
  shows "pend (wq_Add wq i q) = (if closing q then pend q else insert i (pend q))"
    and "pend (wq_AddRateLimited wq i q) = (if closing q then pend q else insert i (pend q))"
    and "wq_Get wq q = Some (Some i, q') \<Longrightarrow> i \<in> pend q \<and> pend q' = pend q - {i}"
    and "pend (wq_Done wq i q) = pend q" and "pend (wq_Forget wq i q) = pend q"
    and "wq_Get wq q = Some (r, q') \<Longrightarrow> closing q' = closing q"
    and "closing (wq_AddRateLimited wq i q) = closing q" and "closing (wq_Done wq i q) = closing q"
    and "closing (wq_Forget wq i q) = closing q" and "closing (wq_Add wq i q) = closing q"
  using assms unfolding workqueue_contract_def by blast+

text \<open>A queue that meets the contract: a list without duplicates and the shutdown flag.\<close>

type_synonym fifo = "item list \<times> bool"

definition fifo_add :: "item \<Rightarrow> fifo \<Rightarrow> fifo" where
  "fifo_add i q = (if snd q \<or> i \<in> set (fst q) then q else (fst q @ [i], snd q))"

definition fifo_ops :: "fifo workqueue_ops" where
  "fifo_ops =
     \<lparr>wq_Add = fifo_add,
      wq_Get = (\<lambda>(is, sd). case is of [] \<Rightarrow> if sd then Some (None, (is, sd)) else None
                                    | i # is' \<Rightarrow> Some (Some i, (removeAll i is', sd))),
      wq_Done = (\<lambda>_ q. q), wq_Forget = (\<lambda>_ q. q), wq_AddRateLimited = fifo_add,
      wq_ShutDownWithDrain = (\<lambda>(is, sd). (is, True))\<rparr>"

lemma fifo_contract: "workqueue_contract fifo_ops (\<lambda>q. set (fst q)) snd"
  by (auto simp: workqueue_contract_def fifo_ops_def fifo_add_def split: list.splits if_splits)

section \<open>The invariant of the bus\<close>

definition subscribed :: "'q EventBus \<Rightarrow> chan_id list" where
  "subscribed b = concat (map snd (eb_subscribers b))"

text \<open>
  Every subscribed channel is open, has the consumer buffer size and is subscribed once,
  and no channel holds more events than its buffer.
\<close>

definition bus_inv :: "'q EventBus \<Rightarrow> bool" where
  "bus_inv b \<longleftrightarrow>
     wf_map (eb_subscribers b) \<and> distinct (subscribed b) \<and> wf_store (eb_store b) \<and>
     (\<forall>c \<in> set (subscribed b). chan_open (eb_store b) c \<and> chan_cap (eb_store b) c = CONSUMER_BUFFER_SIZE)"

lemma bus_invD:
  assumes "bus_inv b"
  shows "wf_map (eb_subscribers b)" "distinct (subscribed b)" "wf_store (eb_store b)"
    "c \<in> set (subscribed b) \<Longrightarrow> chan_open (eb_store b) c"
    "c \<in> set (subscribed b) \<Longrightarrow> chan_cap (eb_store b) c = CONSUMER_BUFFER_SIZE"
  using assms by (simp_all add: bus_inv_def)

lemma bus_inv_workqueue [simp]: "bus_inv (b\<lparr>eb_workqueue := q\<rparr>) = bus_inv b"
  by (simp add: bus_inv_def subscribed_def)

lemma bus_inv_running [simp]: "bus_inv (b\<lparr>eb_running := n\<rparr>) = bus_inv b"
  by (simp add: bus_inv_def subscribed_def)

lemma bus_inv_InjectLogger [inv_intros]: "bus_inv b \<Longrightarrow> bus_inv (snd (InjectLogger logr b))"
  by (simp add: InjectLogger_def bus_inv_def subscribed_def)

lemma bus_inv_New [inv_intros]: "bus_inv (NewEventBus n q)"
  by (simp add: bus_inv_def NewEventBus_def subscribed_def wf_empty_store)

lemma bus_inv_Publish [inv_intros]: "bus_inv b \<Longrightarrow> bus_inv (snd (Publish wq t e b))"
  by (simp add: Publish_def)

lemma cut_first_None: "cut_first ch cs = None \<longleftrightarrow> ch \<notin> set cs"
  by (induction cs) auto

lemma mset_cut_first: "cut_first ch cs = Some ds \<Longrightarrow> mset cs = add_mset ch (mset ds)"
  by (induction cs arbitrary: ds) (auto split: if_splits)

lemma cut_first_remove1: "cut_first ch cs = Some ds \<Longrightarrow> ds = remove1 ch cs"
  by (induction cs arbitrary: ds) (auto split: if_splits)

lemma mset_subs_put:
  "wf_map m \<Longrightarrow>
   mset (concat (map snd (map_put t cs m))) + mset (subs_at m t) = mset (concat (map snd m)) + mset cs"
proof (induction m)
  case Nil
  then show ?case by (simp add: subs_at_def)
next
  case (Cons x m)
  obtain k r where x: "x = (k, r)" by (cases x)
  show ?case
  proof (cases "k = t")
    case True
    with Cons.prems x have "map_of m t = None"
      by (simp add: map_of_eq_None_iff)
    with True x show ?thesis
      by (simp add: subs_at_def)
  next
    case False
    with Cons x have "mset (concat (map snd (map_put t cs m))) + mset (subs_at m t) =
        mset (concat (map snd m)) + mset cs"
      by simp
    with False x show ?thesis
      by (simp add: subs_at_def ac_simps)
  qed
qed

lemma subs_at_put [go_map_simps]: "subs_at (map_put t cs m) u = (if u = t then cs else subs_at m u)"
  by (simp add: subs_at_def go_map_simps)

lemma subs_at_subscribed: "c \<in> set (subs_at (eb_subscribers b) t) \<Longrightarrow> c \<in> set (subscribed b)"
  using subs_at_mem [of c "eb_subscribers b" t] by (force simp: subscribed_def)

lemma matched_subscribed: "c \<in> set (fst (SubscriberMatch (eb_subscribers b) t)) \<Longrightarrow> c \<in> set (subscribed b)"
  using subs_at_subscribed by (fastforce simp: set_SubscriberMatch)

subsection \<open>Subscribing and unsubscribing\<close>

lemma Subscribe_simps [simp]:
  "fst (Subscribe t b) = st_next (eb_store b)"
  "eb_store (snd (Subscribe t b)) = snd (make_chan CONSUMER_BUFFER_SIZE (eb_store b))"
  "eb_workqueue (snd (Subscribe t b)) = eb_workqueue b"
  "eb_subscribers (snd (Subscribe t b)) =
     map_put t (subs_at (eb_subscribers b) t @ [st_next (eb_store b)]) (eb_subscribers b)"
  by (simp_all add: Subscribe_def make_chan_def)

lemma mset_subscribed_Subscribe:
  assumes "bus_inv b"
  shows "mset (subscribed (snd (Subscribe t b))) = add_mset (fst (Subscribe t b)) (mset (subscribed b))"
proof -
  let ?c = "st_next (eb_store b)"
  from mset_subs_put [OF bus_invD(1) [OF assms], of t "subs_at (eb_subscribers b) t @ [?c]"]
  show ?thesis
    by (simp add: subscribed_def)
qed

lemma subscribed_below_next: "bus_inv b \<Longrightarrow> c \<in> set (subscribed b) \<Longrightarrow> c < st_next (eb_store b)"
  by (auto simp: bus_inv_def chan_open_def wf_store_def split: option.splits)

lemma bus_inv_Subscribe [inv_intros]:
  assumes "bus_inv b"
  shows "bus_inv (snd (Subscribe t b))"
proof -
  let ?b = "snd (Subscribe t b)" and ?c = "st_next (eb_store b)"
  note inv = bus_invD [OF assms]
  have ms: "mset (subscribed ?b) = mset (?c # subscribed b)"
    using mset_subscribed_Subscribe [OF assms] by simp
  have "?c \<notin> set (subscribed b)"
    using subscribed_below_next [OF assms] by blast
  with ms inv(2) have "distinct (subscribed ?b)"
    by (metis distinct.simps(2) mset_eq_imp_distinct_iff)
  moreover have "set (subscribed ?b) = insert ?c (set (subscribed b))"
    using mset_eq_setD [OF ms] by simp
  ultimately show ?thesis
    using inv by (auto simp: bus_inv_def wf_put wf_make_chan chan_open_make_chan chan_cap_make_chan)
qed

lemma unsubscribe_absent: "c \<notin> set (subs_at (eb_subscribers b) t) \<Longrightarrow> unsubscribe t c b = Ret (None, b)"
  using cut_first_None [of c "subs_at (eb_subscribers b) t"] by (simp add: unsubscribe_def)

lemma unsubscribe_present:
  assumes "bus_inv b" and "c \<in> set (subs_at (eb_subscribers b) t)"
  obtains st where "close_chan c (eb_store b) = Ret st"
    and "unsubscribe t c b =
      Ret (None, b\<lparr>eb_subscribers := map_put t (remove1 c (subs_at (eb_subscribers b) t)) (eb_subscribers b),
                   eb_store := st\<rparr>)"
proof -
  have "chan_open (eb_store b) c"
    using bus_invD(4) [OF assms(1)] subs_at_subscribed [OF assms(2)] by blast
  then obtain st where st: "close_chan c (eb_store b) = Ret st"
    using close_chan_open by blast
  moreover obtain ds where ds: "cut_first c (subs_at (eb_subscribers b) t) = Some ds"
    using assms(2) cut_first_None by fastforce
  ultimately show ?thesis
    using that cut_first_remove1 [OF ds] by (simp add: unsubscribe_def)
qed

lemma mset_subscribed_remove:
  assumes "bus_inv b" and "c \<in> set (subs_at (eb_subscribers b) t)"
  shows "mset (subscribed b) = add_mset c (mset (concat (map snd
    (map_put t (remove1 c (subs_at (eb_subscribers b) t)) (eb_subscribers b)))))"
proof -
  let ?cs = "subs_at (eb_subscribers b) t"
  have "mset ?cs = {#c#} + mset (remove1 c ?cs)"
    using assms(2) by simp
  with mset_subs_put [OF bus_invD(1) [OF assms(1)], of t "remove1 c ?cs"] show ?thesis
    by (simp add: subscribed_def del: mset_remove1)
qed

lemma bus_inv_unsubscribe [inv_intros]:
  assumes "bus_inv b"
  shows "\<exists>b'. unsubscribe t c b = Ret (None, b') \<and> bus_inv b'"
proof (cases "c \<in> set (subs_at (eb_subscribers b) t)")
  case False
  then show ?thesis
    using assms by (simp add: unsubscribe_absent)
next
  case True
  let ?subs = "map_put t (remove1 c (subs_at (eb_subscribers b) t)) (eb_subscribers b)"
  note inv = bus_invD [OF assms]
  obtain st where st: "close_chan c (eb_store b) = Ret st"
    and res: "unsubscribe t c b = Ret (None, b\<lparr>eb_subscribers := ?subs, eb_store := st\<rparr>)"
    using assms True by (rule unsubscribe_present)
  have ms: "mset (subscribed b) = mset (c # concat (map snd ?subs))"
    using mset_subscribed_remove [OF assms True] by simp
  then have "distinct (c # concat (map snd ?subs))"
    using inv(2) mset_eq_imp_distinct_iff by blast
  moreover have "set (subscribed b) = insert c (set (concat (map snd ?subs)))"
    using mset_eq_setD [OF ms] by simp
  ultimately have "bus_inv (b\<lparr>eb_subscribers := ?subs, eb_store := st\<rparr>)"
    using inv wf_close_chan [OF inv(3) st] close_chan_frame(2,4) [OF st]
    by (auto simp: bus_inv_def subscribed_def wf_put)
  with res show ?thesis by blast
qed

subsection \<open>Delivery\<close>

text \<open>The store after the event has been sent to the channels of a set.\<close>

definition sent_to :: "chan_id set \<Rightarrow> Event \<Rightarrow> Event store \<Rightarrow> Event store" where
  "sent_to cs e st = st\<lparr>st_chans := (\<lambda>c. if c \<in> cs then map_option (push e) (st_chans st c) else st_chans st c)\<rparr>"

lemma sent_to_simps [simp]:
  "sent_to {} e st = st"
  "st_next (sent_to cs e st) = st_next st"
  "chan_open (sent_to cs e st) c = chan_open st c"
  "chan_cap (sent_to cs e st) c = chan_cap st c"
  by (auto simp: sent_to_def chan_open_def chan_cap_def push_def split: option.splits)

lemma has_room_sent_to: "c \<notin> cs \<Longrightarrow> has_room (sent_to cs e st) c = has_room st c"
  by (simp add: sent_to_def has_room_def)

lemma sent_to_insert: "c \<notin> cs \<Longrightarrow> sent_to cs e (sent_to {c} e st) = sent_to (insert c cs) e st"
  by (auto simp: sent_to_def fun_eq_iff)

lemma try_send_sent_to:
  assumes "chan_open st c"
  shows "try_send c e st = Ret (if has_room st c then (True, sent_to {c} e st) else (False, st))"
proof -
  have "set_chan c (push e (the (st_chans st c))) st = sent_to {c} e st"
    using assms by (auto simp: set_chan_def sent_to_def chan_open_def fun_eq_iff split: option.splits)
  then show ?thesis
    by (simp add: try_send_open [OF assms])
qed

lemma deliver_open:
  "\<lbrakk>distinct cs; \<And>c. c \<in> set cs \<Longrightarrow> chan_open st c\<rbrakk> \<Longrightarrow>
   deliver cs e st =
     Ret ((\<forall>c \<in> set cs. has_room st c), sent_to (set (takeWhile (has_room st) cs)) e st)"
proof (induction cs arbitrary: st)
  case Nil
  then show ?case by simp
next
  case (Cons c cs)
  show ?case
  proof (cases "has_room st c")
    case False
    then show ?thesis
      using Cons.prems(2) by (simp add: try_send_sent_to)
  next
    case True
    let ?st = "sent_to {c} e st"
    have room: "has_room ?st d = has_room st d" if "d \<in> set cs" for d
      using that Cons.prems(1) by (subst has_room_sent_to) auto
    then have tw: "takeWhile (has_room ?st) cs = takeWhile (has_room st) cs"
      by (simp cong: takeWhile_cong)
    have "deliver cs e ?st = Ret ((\<forall>d \<in> set cs. has_room ?st d), sent_to (set (takeWhile (has_room ?st) cs)) e ?st)"
      using Cons by simp
    moreover have "c \<notin> set (takeWhile (has_room st) cs)"
      using Cons.prems(1) by (auto dest: set_takeWhileD)
    ultimately show ?thesis
      using True Cons.prems(2) room tw by (simp add: try_send_sent_to sent_to_insert)
  qed
qed

lemma wf_sent_to:
  assumes "wf_store st" and "\<And>c. c \<in> cs \<Longrightarrow> has_room st c"
  shows "wf_store (sent_to cs e st)"
proof -
  have "c < st_next st \<and> length (ch_buf ch) \<le> ch_cap ch" if "st_chans (sent_to cs e st) c = Some ch" for c ch
  proof (cases "c \<in> cs")
    case True
    with that obtain ch0 where "st_chans st c = Some ch0" "ch = push e ch0"
      by (auto simp: sent_to_def)
    with assms(1) assms(2) [OF True] show ?thesis
      by (auto simp: wf_store_def push_def has_room_def)
  next
    case False
    with that assms(1) show ?thesis
      by (auto simp: wf_store_def sent_to_def)
  qed
  then show ?thesis
    by (auto simp: wf_store_def)
qed

lemma bus_inv_sent_to:
  assumes "bus_inv b" and "\<And>c. c \<in> cs \<Longrightarrow> has_room (eb_store b) c"
  shows "bus_inv (b\<lparr>eb_store := sent_to cs e (eb_store b)\<rparr>)"
  using assms wf_sent_to [of "eb_store b" cs e] by (simp add: bus_inv_def subscribed_def)

text \<open>The channels a message is matched with, and those that take it before the first full one.\<close>

definition matched :: "message \<Rightarrow> 'q EventBus \<Rightarrow> chan_id list" where
  "matched m b = fst (SubscriberMatch (eb_subscribers b) (msg_topic m))"

definition receivers :: "message \<Rightarrow> 'q EventBus \<Rightarrow> chan_id list" where
  "receivers m b = takeWhile (has_room (eb_store b)) (matched m b)"

lemma deliver_matched:
  assumes "bus_inv b"
  shows "deliver (matched m b) (msg_event m) (eb_store b) =
     Ret ((\<forall>c \<in> set (matched m b). has_room (eb_store b) c),
          sent_to (set (receivers m b)) (msg_event m) (eb_store b))"
  unfolding receivers_def
proof (rule deliver_open)
  show "distinct (matched m b)"
    using bus_invD(2) [OF assms] by (auto simp: matched_def subscribed_def intro: distinct_SubscriberMatch)
  show "chan_open (eb_store b) c" if "c \<in> set (matched m b)" for c
    using that bus_invD(4) [OF assms] by (auto simp: matched_def dest: matched_subscribed)
qed

lemma receivers_room: "c \<in> set (receivers m b) \<Longrightarrow> has_room (eb_store b) c"
  by (auto simp: receivers_def dest: set_takeWhileD)

lemma process_message:
  assumes "bus_inv b"
  shows "process_item wq (MessageItem m) b =
     (if \<forall>c \<in> set (matched m b). has_room (eb_store b) c
      then Ret (None, [], b\<lparr>eb_store := sent_to (set (receivers m b)) (msg_event m) (eb_store b),
                 eb_workqueue := wq_Forget wq (MessageItem m) (eb_workqueue b)\<rparr>)
      else Ret (Some (not_ready_error m), [],
                 b\<lparr>eb_store := sent_to (set (receivers m b)) (msg_event m) (eb_store b),
                 eb_workqueue := wq_AddRateLimited wq (MessageItem m) (eb_workqueue b)\<rparr>))"
proof (cases "matched m b = []")
  case True
  then have "SubscriberMatch (eb_subscribers b) (msg_topic m) = ([], False)"
    by (metis SubscriberMatch_snd matched_def prod.collapse)
  with True show ?thesis
    by (simp add: process_item_def receivers_def)
next
  case False
  then have "SubscriberMatch (eb_subscribers b) (msg_topic m) = (matched m b, True)"
    by (metis SubscriberMatch_snd matched_def prod.collapse)
  then show ?thesis
    using deliver_matched [OF assms, of m] by (simp add: process_item_def)
qed

lemma bus_inv_process_item [inv_intros]:
  assumes "bus_inv b"
  shows "\<exists>err handled b'. process_item wq obj b = Ret (err, handled, b') \<and> bus_inv b'"
proof (cases obj)
  case (MessageItem m)
  then show ?thesis
    using process_message [OF assms] bus_inv_sent_to [OF assms receivers_room] by simp
next
  case (ForeignItem s)
  then show ?thesis
    using assms by (simp add: process_item_def)
qed

lemma bus_inv_processNextWorkItem [inv_intros]:
  assumes "bus_inv b" and "processNextWorkItem wq b = Some r"
  shows "\<exists>go_on handled b'. r = Ret (go_on, handled, b') \<and> bus_inv b'"
proof (cases "wq_Get wq (eb_workqueue b)")
  case None
  with assms show ?thesis by (simp add: processNextWorkItem_def)
next
  case (Some oq)
  obtain ob q where oq: "oq = (ob, q)" by (cases oq)
  show ?thesis
  proof (cases ob)
    case None
    with Some oq assms show ?thesis by (auto simp: processNextWorkItem_def)
  next
    case Some': (Some obj)
    have "bus_inv (b\<lparr>eb_workqueue := q\<rparr>)"
      using assms(1) by simp
    from bus_inv_process_item [OF this, of wq obj] show ?thesis
      using Some Some' oq assms(2) by (auto simp: processNextWorkItem_def)
  qed
qed

lemma close_all_open:
  "\<lbrakk>distinct cs; \<And>c. c \<in> set cs \<Longrightarrow> chan_open st c; wf_store st\<rbrakk> \<Longrightarrow>
   \<exists>st'. close_all cs st = Ret st' \<and> wf_store st' \<and> st_next st' = st_next st \<and>
     (\<forall>d. chan_open st' d \<longleftrightarrow> d \<notin> set cs \<and> chan_open st d) \<and> (\<forall>d. buf st' d = buf st d)"
proof (induction cs arbitrary: st)
  case Nil
  then show ?case by simp
next
  case (Cons c cs)
  obtain st1 where st1: "close_chan c st = Ret st1"
    using Cons.prems(2) close_chan_open by fastforce
  note frame = close_chan_frame [OF st1]
  have "\<exists>st'. close_all cs st1 = Ret st' \<and> wf_store st' \<and> st_next st' = st_next st1 \<and>
     (\<forall>d. chan_open st' d \<longleftrightarrow> d \<notin> set cs \<and> chan_open st1 d) \<and> (\<forall>d. buf st' d = buf st1 d)"
    using Cons.prems frame(2) wf_close_chan [OF _ st1] by (intro Cons.IH) auto
  with st1 frame show ?case
    by auto
qed

lemma bus_inv_Start_stop [inv_intros]:
  assumes "bus_inv b" and "Start_stop wq b = Some r"
  shows "\<exists>b'. r = Ret b' \<and> bus_inv b'"
proof -
  obtain st where "close_all (subscribed b) (eb_store b) = Ret st" "wf_store st"
    using close_all_open [of "subscribed b" "eb_store b"] bus_invD [OF assms(1)] by blast
  with assms(2) show ?thesis
    by (auto simp: Start_stop_def subscribed_def bus_inv_def Let_def split: if_splits)
qed

section \<open>What a worker turn does\<close>

lemma buf_sent_to: "c \<in> cs \<Longrightarrow> chan_open st c \<Longrightarrow> buf (sent_to cs e st) c = buf st c @ [e]"
  by (auto simp: buf_def sent_to_def chan_open_def push_def split: option.splits)

lemma buf_sent_to_other: "c \<notin> cs \<Longrightarrow> buf (sent_to cs e st) c = buf st c"
  by (simp add: buf_def sent_to_def)

lemma matched_open: "bus_inv b \<Longrightarrow> c \<in> set (matched m b) \<Longrightarrow> chan_open (eb_store b) c"
  unfolding matched_def by (blast dest: matched_subscribed bus_invD(4))

lemma receivers_matched: "c \<in> set (receivers m b) \<Longrightarrow> c \<in> set (matched m b)"
  by (auto simp: receivers_def dest: set_takeWhileD)

lemma receivers_all: "(\<And>c. c \<in> set (matched m b) \<Longrightarrow> has_room (eb_store b) c) \<Longrightarrow> receivers m b = matched m b"
  by (simp add: receivers_def takeWhile_eq_all_conv)

lemma turn_message:
  assumes "bus_inv b" and "wq_Get wq (eb_workqueue b) = Some (Some (MessageItem m), q)"
  shows "processNextWorkItem wq b =
    (let st = sent_to (set (receivers m b)) (msg_event m) (eb_store b)
     in if \<forall>c \<in> set (matched m b). has_room (eb_store b) c
        then Some (Ret (True, [], b\<lparr>eb_store := st,
               eb_workqueue := wq_Done wq (MessageItem m) (wq_Forget wq (MessageItem m) q)\<rparr>))
        else Some (Ret (True, [not_ready_error m], b\<lparr>eb_store := st,
               eb_workqueue := wq_Done wq (MessageItem m) (wq_AddRateLimited wq (MessageItem m) q)\<rparr>)))"
proof -
  have "bus_inv (b\<lparr>eb_workqueue := q\<rparr>)"
    using assms(1) by simp
  from process_message [OF this, of wq m] assms(2) show ?thesis
    by (simp add: processNextWorkItem_def matched_def receivers_def Let_def)
qed

text \<open>C16:
  When every matching subscriber has room, one turn of a worker appends the event exactly
  once to the channel of each of them, leaves every other channel and the subscriptions
  alone, and forgets the message.
\<close>

theorem processNextWorkItem_delivers:
  assumes "bus_inv b" and "wq_Get wq (eb_workqueue b) = Some (Some (MessageItem m), q)"
    and "\<forall>c \<in> set (matched m b). has_room (eb_store b) c"
  shows "\<exists>b'. processNextWorkItem wq b = Some (Ret (True, [], b')) \<and>
     (\<forall>c. buf (eb_store b') c = buf (eb_store b) c @ (if c \<in> set (matched m b) then [msg_event m] else [])) \<and>
     eb_subscribers b' = eb_subscribers b \<and>
     eb_workqueue b' = wq_Done wq (MessageItem m) (wq_Forget wq (MessageItem m) q)"
  using turn_message [OF assms(1,2)] assms(3) receivers_all [of m b] matched_open [OF assms(1)]
  by (auto simp: buf_sent_to buf_sent_to_other Let_def)

text \<open>
  A bus with a subscriber of the event \<open>HighCpu\<close>, a second one of the same event behind
  it, and one message from a source waiting. In \<open>full_bus\<close> the second subscriber has ten
  events in its buffer.
\<close>

definition demo_message :: message where
  "demo_message = \<lparr>msg_event = sample_event, msg_topic = ''HighCpu:mon:p8s''\<rparr>"

definition demo_bus :: "fifo EventBus" where
  "demo_bus = snd (Publish fifo_ops ''HighCpu:mon:p8s'' sample_event
     (snd (Subscribe ''HighCpu'' (snd (Subscribe ''HighCpu:mon'' (NewEventBus 2 ([], False)))))))"

definition full_bus :: "fifo EventBus" where
  "full_bus = demo_bus\<lparr>eb_store := set_chan 1
     \<lparr>ch_buf = replicate 10 sample_event, ch_cap = 10, ch_closed = False\<rparr> (eb_store demo_bus)\<rparr>"

lemma demo_event [simp]: "msg_event demo_message = sample_event"
  by (simp add: demo_message_def)

lemma demo_bus_inv: "bus_inv demo_bus"
  unfolding demo_bus_def by (intro bus_inv_Publish bus_inv_Subscribe bus_inv_New)

lemma full_bus_inv: "bus_inv full_bus"
proof -
  have "subscribed demo_bus = [0, 1]" and "st_next (eb_store demo_bus) = 2"
    by code_simp+
  then show ?thesis
    using demo_bus_inv by (auto simp: bus_inv_def full_bus_def subscribed_def wf_store_def chan_open_def
        chan_cap_def CONSUMER_BUFFER_SIZE_def)
qed

lemma demo_get:
  "wq_Get fifo_ops (eb_workqueue demo_bus) = Some (Some (MessageItem demo_message), ([], False))"
  "wq_Get fifo_ops (eb_workqueue full_bus) = Some (Some (MessageItem demo_message), ([], False))"
  by (simp_all add: fifo_ops_def fifo_add_def full_bus_def demo_bus_def demo_message_def Publish_def NewEventBus_def)

lemma demo_matched: "matched demo_message demo_bus = [0, 1]" "matched demo_message full_bus = [0, 1]"
  by code_simp+

theorem processNextWorkItem_delivers_witness:
  "\<exists>b'. processNextWorkItem fifo_ops demo_bus = Some (Ret (True, [], b')) \<and>
     buf (eb_store b') 0 = [sample_event] \<and> buf (eb_store b') 1 = [sample_event]"
proof -
  have room: "\<forall>c \<in> set (matched demo_message demo_bus). has_room (eb_store demo_bus) c"
    unfolding demo_matched by code_simp
  have empty: "buf (eb_store demo_bus) 0 = []" "buf (eb_store demo_bus) 1 = []"
    by code_simp+
  obtain b' where "processNextWorkItem fifo_ops demo_bus = Some (Ret (True, [], b'))"
    and "buf (eb_store b') c = buf (eb_store demo_bus) c @
      (if c \<in> set (matched demo_message demo_bus) then [msg_event demo_message] else [])" for c
    using processNextWorkItem_delivers [OF demo_bus_inv demo_get(1) room] by blast
  with empty show ?thesis
    by (simp add: demo_matched)
qed

text \<open>C17:
  When some matching subscriber is full, the event is appended to the channels before the
  first full one and to no other, the turn reports the error and goes on, and the message
  is put back with a rate limit: subscribers in front of a full one see the event again.
\<close>

theorem processNextWorkItem_requeues:
  assumes "bus_inv b" and "wq_Get wq (eb_workqueue b) = Some (Some (MessageItem m), q)"
    and "\<exists>c \<in> set (matched m b). \<not> has_room (eb_store b) c"
  shows "\<exists>b' pre full post.
     matched m b = pre @ full # post \<and> \<not> has_room (eb_store b) full \<and>
     processNextWorkItem wq b = Some (Ret (True, [not_ready_error m], b')) \<and>
     (\<forall>c. buf (eb_store b') c = buf (eb_store b) c @ (if c \<in> set pre then [msg_event m] else [])) \<and>
     eb_workqueue b' = wq_Done wq (MessageItem m) (wq_AddRateLimited wq (MessageItem m) q)"
proof -
  let ?room = "has_room (eb_store b)"
  have "dropWhile ?room (matched m b) \<noteq> []"
    using assms(3) by (auto simp: dropWhile_eq_Nil_conv)
  then obtain full post where drop: "dropWhile ?room (matched m b) = full # post"
    by (cases "dropWhile ?room (matched m b)") auto
  then have "matched m b = receivers m b @ full # post" and "\<not> ?room full"
    by (metis receivers_def takeWhile_dropWhile_id) (use drop in \<open>simp add: dropWhile_eq_Cons_conv\<close>)
  moreover have "buf (sent_to (set (receivers m b)) (msg_event m) (eb_store b)) c =
      buf (eb_store b) c @ (if c \<in> set (receivers m b) then [msg_event m] else [])" for c
    using matched_open [OF assms(1) receivers_matched] by (simp add: buf_sent_to buf_sent_to_other)
  moreover have "\<not> (\<forall>c \<in> set (matched m b). ?room c)"
    using assms(3) by blast
  ultimately show ?thesis
    using turn_message [OF assms(1,2)] by (simp add: Let_def) blast
qed

theorem processNextWorkItem_requeues_witness:
  "\<exists>b'. processNextWorkItem fifo_ops full_bus = Some (Ret (True, [not_ready_error demo_message], b')) \<and>
     eb_workqueue b' = ([MessageItem demo_message], False)"
proof -
  have "\<not> has_room (eb_store full_bus) 1"
    by code_simp
  then have full: "\<exists>c \<in> set (matched demo_message full_bus). \<not> has_room (eb_store full_bus) c"
    by (simp add: demo_matched)
  from processNextWorkItem_requeues [OF full_bus_inv demo_get(2) full] show ?thesis
    by (auto simp: fifo_ops_def fifo_add_def)
qed

text \<open>C7:
  No message is lost while the queue is open: after a worker's turn the message has reached
  every subscriber it matched, or it waits in the queue again; the other waiting items are
  the same as before.
\<close>

theorem processNextWorkItem_at_least_once:
  assumes "workqueue_contract wq pend closing" and "bus_inv b" and "\<not> closing (eb_workqueue b)"
    and "wq_Get wq (eb_workqueue b) = Some (Some (MessageItem m), q)"
  shows "\<exists>handled b'. processNextWorkItem wq b = Some (Ret (True, handled, b')) \<and>
     ((\<forall>c \<in> set (matched m b). buf (eb_store b') c = buf (eb_store b) c @ [msg_event m]) \<or>
       MessageItem m \<in> pend (eb_workqueue b')) \<and>
     pend (eb_workqueue b') - {MessageItem m} = pend (eb_workqueue b) - {MessageItem m}"
proof -
  note wqD = workqueue_contractD [OF assms(1)]
  have q: "pend q = pend (eb_workqueue b) - {MessageItem m}" and "\<not> closing q"
    using wqD(3,6) [OF assms(4)] assms(3) by auto
  then have pend:
    "pend (wq_Done wq (MessageItem m) (wq_Forget wq (MessageItem m) q)) = pend q"
    "pend (wq_Done wq (MessageItem m) (wq_AddRateLimited wq (MessageItem m) q)) = insert (MessageItem m) (pend q)"
    by (simp_all add: wqD)
  show ?thesis
    using turn_message [OF assms(2,4)] pend q receivers_all [of m b] matched_open [OF assms(2)]
    by (auto simp: Let_def buf_sent_to)
qed

theorem processNextWorkItem_at_least_once_witness:
  "\<exists>handled b'. processNextWorkItem fifo_ops full_bus = Some (Ret (True, handled, b')) \<and>
     ((\<forall>c \<in> set (matched demo_message full_bus).
         buf (eb_store b') c = buf (eb_store full_bus) c @ [msg_event demo_message]) \<or>
       MessageItem demo_message \<in> set (fst (eb_workqueue b')))"
proof -
  have "\<not> snd (eb_workqueue full_bus)"
    by code_simp
  from processNextWorkItem_at_least_once [OF fifo_contract full_bus_inv this demo_get(2)] show ?thesis
    by blast
qed

end
