(* ===== verification/Bus_Concurrency.thy ===== *)
theory Bus_Concurrency
  imports Eventbus
begin

text \<open>
  The event bus as its goroutines run it. The workers, the publishers, the callers of
  \<open>Subscribe\<close> and \<open>UnSubscribe\<close>, the consumers that receive and the shutdown of \<open>Start\<close>
  interleave; the only synchronisation is what the code has: the read lock a worker holds
  from matching to the end of its delivery, the write lock of \<open>Subscribe\<close> and
  \<open>unsubscribe\<close>, the read lock of \<open>Start\<close> while it closes the channels, and atomic channel
  operations. \<open>ShutDownWithDrain\<close> begins the shutdown of the queue and returns when no item is
  in process and the queue has \<open>finished\<close>, a parameter of the relation. A panic of any
  goroutine ends the process: \<open>bs_crashed\<close>.
\<close>

section \<open>The step relation\<close>

datatype worker = Idle | Fetched item | Delivering message "chan_id list"

text \<open>
  Where \<open>Start\<close> is: waiting for the end of its context, in \<open>ShutDownWithDrain\<close>, in the loop
  that closes the channels still to be closed, sending on \<open>workerShutdownChan\<close>, or returned.
\<close>

datatype stopper = Serving | Draining | Closing "chan_id list" | Stopping | Stopped

record 'q bus_sys =
  bs_bus :: "'q EventBus"
  bs_worker :: "nat \<Rightarrow> worker"
  bs_stop :: stopper
  bs_crashed :: bool

definition set_worker :: "nat \<Rightarrow> worker \<Rightarrow> 'q bus_sys \<Rightarrow> 'q bus_sys" where
  "set_worker w p s = s\<lparr>bs_worker := (bs_worker s)(w := p)\<rparr>"

definition set_bus :: "'q EventBus \<Rightarrow> 'q bus_sys \<Rightarrow> 'q bus_sys" where
  "set_bus b s = s\<lparr>bs_bus := b\<rparr>"

definition set_stop :: "stopper \<Rightarrow> 'q bus_sys \<Rightarrow> 'q bus_sys" where
  "set_stop p s = s\<lparr>bs_stop := p\<rparr>"

definition crash :: "'q bus_sys \<Rightarrow> 'q bus_sys" where
  "crash s = s\<lparr>bs_crashed := True\<rparr>"

text \<open>No goroutine holds the read lock of \<open>subscribersMux\<close>.\<close>

fun stop_reads :: "stopper \<Rightarrow> bool" where
  "stop_reads (Closing cs) = True"
| "stop_reads Stopping = True"
| "stop_reads Serving = False"
| "stop_reads Draining = False"
| "stop_reads Stopped = False"

definition no_reader :: "'q bus_sys \<Rightarrow> bool" where
  "no_reader s \<longleftrightarrow> (\<forall>w m cs. bs_worker s w \<noteq> Delivering m cs) \<and> \<not> stop_reads (bs_stop s)"

text \<open>No item is in process.\<close>

definition drained :: "'q bus_sys \<Rightarrow> bool" where
  "drained s \<longleftrightarrow> (\<forall>w. bs_worker s w = Idle)"

definition queue_done :: "'q workqueue_ops \<Rightarrow> (item \<Rightarrow> 'q \<Rightarrow> 'q) \<Rightarrow> item \<Rightarrow> 'q EventBus \<Rightarrow> 'q EventBus" where
  "queue_done wq f obj b = b\<lparr>eb_workqueue := wq_Done wq obj (f obj (eb_workqueue b))\<rparr>"

text \<open>The steps of the workers and of \<open>Start\<close>.\<close>

inductive bus_internal :: "'q workqueue_ops \<Rightarrow> ('q \<Rightarrow> bool) \<Rightarrow> 'q bus_sys \<Rightarrow> 'q bus_sys \<Rightarrow> bool" for wq finished where
  fetch: "bs_worker s w = Idle \<Longrightarrow> wq_Get wq (eb_workqueue (bs_bus s)) = Some (Some obj, q) \<Longrightarrow>
    bus_internal wq finished s (set_worker w (Fetched obj) (set_bus ((bs_bus s)\<lparr>eb_workqueue := q\<rparr>) s))"
| foreign: "bs_worker s w = Fetched (ForeignItem x) \<Longrightarrow>
    bus_internal wq finished s (set_worker w Idle (set_bus (queue_done wq (wq_Forget wq) (ForeignItem x) (bs_bus s)) s))"
| match: "bs_worker s w = Fetched (MessageItem m) \<Longrightarrow>
    bus_internal wq finished s (set_worker w (Delivering m (matched m (bs_bus s))) s)"
| send: "bs_worker s w = Delivering m (c # cs) \<Longrightarrow>
    try_send c (msg_event m) (eb_store (bs_bus s)) = Ret (True, st) \<Longrightarrow>
    bus_internal wq finished s (set_worker w (Delivering m cs) (set_bus ((bs_bus s)\<lparr>eb_store := st\<rparr>) s))"
| send_full: "bs_worker s w = Delivering m (c # cs) \<Longrightarrow>
    try_send c (msg_event m) (eb_store (bs_bus s)) = Ret (False, st) \<Longrightarrow>
    bus_internal wq finished s (set_worker w Idle
      (set_bus (queue_done wq (wq_AddRateLimited wq) (MessageItem m) ((bs_bus s)\<lparr>eb_store := st\<rparr>)) s))"
| send_panic: "bs_worker s w = Delivering m (c # cs) \<Longrightarrow>
    try_send c (msg_event m) (eb_store (bs_bus s)) = Panics p \<Longrightarrow> bus_internal wq finished s (crash s)"
| delivered: "bs_worker s w = Delivering m [] \<Longrightarrow>
    bus_internal wq finished s (set_worker w Idle (set_bus (queue_done wq (wq_Forget wq) (MessageItem m) (bs_bus s)) s))"
| shutdown: "bs_stop s = Serving \<Longrightarrow>
    bus_internal wq finished s (set_stop Draining
      (set_bus ((bs_bus s)\<lparr>eb_workqueue := wq_ShutDownWithDrain wq (eb_workqueue (bs_bus s))\<rparr>) s))"
| drain: "bs_stop s = Draining \<Longrightarrow> drained s \<Longrightarrow> finished (eb_workqueue (bs_bus s)) \<Longrightarrow>
    bus_internal wq finished s (set_stop (Closing (subscribed (bs_bus s))) s)"
| close: "bs_stop s = Closing (c # cs) \<Longrightarrow> close_chan c (eb_store (bs_bus s)) = Ret st \<Longrightarrow>
    bus_internal wq finished s (set_stop (Closing cs) (set_bus ((bs_bus s)\<lparr>eb_store := st\<rparr>) s))"
| close_panic: "bs_stop s = Closing (c # cs) \<Longrightarrow> close_chan c (eb_store (bs_bus s)) = Panics p \<Longrightarrow>
    bus_internal wq finished s (crash s)"
| clear: "bs_stop s = Closing [] \<Longrightarrow>
    bus_internal wq finished s (set_stop Stopping (set_bus ((bs_bus s)\<lparr>eb_subscribers := []\<rparr>) s))"
| stopped: "bs_stop s = Stopping \<Longrightarrow> 0 < eb_running (bs_bus s) \<Longrightarrow>
    bus_internal wq finished s (set_stop Stopped (set_bus ((bs_bus s)\<lparr>eb_running := eb_running (bs_bus s) - 1\<rparr>) s))"

text \<open>Together with those of the users of the bus.\<close>

inductive bus_step :: "'q workqueue_ops \<Rightarrow> ('q \<Rightarrow> bool) \<Rightarrow> 'q bus_sys \<Rightarrow> 'q bus_sys \<Rightarrow> bool" for wq finished where
  publish: "bus_step wq finished s (set_bus (snd (Publish wq t e (bs_bus s))) s)"
| subscribe: "no_reader s \<Longrightarrow> bus_step wq finished s (set_bus (snd (Subscribe t (bs_bus s))) s)"
| unsub: "no_reader s \<Longrightarrow> unsubscribe t c (bs_bus s) = Ret (r, b) \<Longrightarrow> bus_step wq finished s (set_bus b s)"
| unsub_panic: "no_reader s \<Longrightarrow> unsubscribe t c (bs_bus s) = Panics p \<Longrightarrow> bus_step wq finished s (crash s)"
| receive: "bus_step wq finished s
    (set_bus ((bs_bus s)\<lparr>eb_store := snd (recv c (eb_store (bs_bus s)))\<rparr>) s)"
| internal: "bus_internal wq finished s s' \<Longrightarrow> bus_step wq finished s s'"

lemmas bus_step_fetch = bus_internal.fetch [THEN bus_step.internal]
  and bus_step_foreign = bus_internal.foreign [THEN bus_step.internal]
  and bus_step_match = bus_internal.match [THEN bus_step.internal]
  and bus_step_send = bus_internal.send [THEN bus_step.internal]
  and bus_step_send_full = bus_internal.send_full [THEN bus_step.internal]
  and bus_step_send_panic = bus_internal.send_panic [THEN bus_step.internal]
  and bus_step_delivered = bus_internal.delivered [THEN bus_step.internal]
  and bus_step_shutdown = bus_internal.shutdown [THEN bus_step.internal]
  and bus_step_drain = bus_internal.drain [THEN bus_step.internal]
  and bus_step_close = bus_internal.close [THEN bus_step.internal]
  and bus_step_clear = bus_internal.clear [THEN bus_step.internal]
  and bus_step_stopped = bus_internal.stopped [THEN bus_step.internal]

definition init_sys :: "nat \<Rightarrow> 'q \<Rightarrow> 'q bus_sys" where
  "init_sys n q = \<lparr>bs_bus = Start_launch (NewEventBus n q), bs_worker = (\<lambda>_. Idle), bs_stop = Serving, bs_crashed = False\<rparr>"

inductive bus_reachable :: "'q workqueue_ops \<Rightarrow> ('q \<Rightarrow> bool) \<Rightarrow> 'q bus_sys \<Rightarrow> bool" for wq finished where
  init: "bus_reachable wq finished (init_sys n q)"
| step: "bus_reachable wq finished s \<Longrightarrow> bus_step wq finished s s' \<Longrightarrow> bus_reachable wq finished s'"

text \<open>
  The documented behaviour of the drain: a queue that has finished hands out no item, and
  nothing that its clients do makes it hand out one again.
\<close>

definition drain_contract :: "'q workqueue_ops \<Rightarrow> ('q \<Rightarrow> bool) \<Rightarrow> bool" where
  "drain_contract wq finished \<longleftrightarrow>
     (\<forall>q i q'. finished q \<longrightarrow> wq_Get wq q \<noteq> Some (Some i, q')) \<and>
     (\<forall>q i. finished q \<longrightarrow> finished (wq_Add wq i q))"

definition fifo_finished :: "fifo \<Rightarrow> bool" where
  "fifo_finished q \<longleftrightarrow> snd q \<and> fst q = []"

lemma fifo_drain: "drain_contract fifo_ops fifo_finished"
  by (auto simp: drain_contract_def fifo_finished_def fifo_ops_def fifo_add_def)

section \<open>The invariant of the running bus\<close>

text \<open>
  A worker that delivers holds the read lock, so its channels are still subscribed. While
  \<open>Start\<close> closes the channels the queue has finished and no worker has an item; the channels
  that are still to be closed, taken as the only subscribers, satisfy the invariant of the
  bus.
\<close>

fun left_open :: "stopper \<Rightarrow> Subscribers \<Rightarrow> Subscribers" where
  "left_open (Closing cs) subs = [([], cs)]"
| "left_open Serving subs = subs"
| "left_open Draining subs = subs"
| "left_open Stopping subs = subs"
| "left_open Stopped subs = subs"

definition open_part :: "'q bus_sys \<Rightarrow> 'q EventBus" where
  "open_part s = (bs_bus s)\<lparr>eb_subscribers := left_open (bs_stop s) (eb_subscribers (bs_bus s))\<rparr>"

definition sys_inv :: "('q \<Rightarrow> bool) \<Rightarrow> 'q bus_sys \<Rightarrow> bool" where
  "sys_inv finished s \<longleftrightarrow> bus_inv (open_part s) \<and> \<not> bs_crashed s \<and>
     (\<forall>w m cs. bs_worker s w = Delivering m cs \<longrightarrow> set cs \<subseteq> set (subscribed (bs_bus s))) \<and>
     (stop_reads (bs_stop s) \<longrightarrow> drained s \<and> finished (eb_workqueue (bs_bus s)))"

lemma set_simps [simp]:
  "bs_bus (set_bus b s) = b" "bs_worker (set_bus b s) = bs_worker s" "bs_crashed (set_bus b s) = bs_crashed s"
  "bs_stop (set_bus b s) = bs_stop s"
  "bs_bus (set_worker w p s) = bs_bus s" "bs_worker (set_worker w p s) = (bs_worker s)(w := p)"
  "bs_crashed (set_worker w p s) = bs_crashed s" "bs_stop (set_worker w p s) = bs_stop s"
  "bs_bus (set_stop x s) = bs_bus s" "bs_worker (set_stop x s) = bs_worker s"
  "bs_crashed (set_stop x s) = bs_crashed s" "bs_stop (set_stop x s) = x"
  by (simp_all add: set_bus_def set_worker_def set_stop_def)

lemma bus_inv_queue_done [simp]: "bus_inv (queue_done wq f obj b) = bus_inv b"
  by (simp add: queue_done_def)

lemma subscribed_simps [simp]:
  "subscribed (queue_done wq f obj b) = subscribed b"
  "subscribed (b\<lparr>eb_store := st\<rparr>) = subscribed b"
  "subscribed (b\<lparr>eb_workqueue := q\<rparr>) = subscribed b"
  "subscribed (b\<lparr>eb_running := n\<rparr>) = subscribed b"
  "subscribed (snd (Publish wq t e b)) = subscribed b"
  by (simp_all add: queue_done_def subscribed_def Publish_def)

lemma bus_inv_recv:
  "bus_inv b \<Longrightarrow> bus_inv (b\<lparr>eb_store := snd (recv c (eb_store b))\<rparr>)"
  by (simp add: bus_inv_def recv_frame wf_recv)

lemma bus_inv_try_send:
  "bus_inv b \<Longrightarrow> try_send c e (eb_store b) = Ret (ok, st) \<Longrightarrow> bus_inv (b\<lparr>eb_store := st\<rparr>)"
  by (auto simp: bus_inv_def try_send_frame wf_try_send)

text \<open>Outside of the closing loop the open part of the bus is the bus.\<close>

lemma open_part_bus: "(\<And>cs. bs_stop s \<noteq> Closing cs) \<Longrightarrow> open_part s = bs_bus s"
  by (cases "bs_stop s") (auto simp: open_part_def)

lemma open_part_not_reading: "\<not> stop_reads (bs_stop s) \<Longrightarrow> open_part s = bs_bus s"
  by (rule open_part_bus) auto

text \<open>Steps that neither touch the subscribers nor the place of \<open>Start\<close>.\<close>

lemma open_part_set_worker [simp]: "open_part (set_worker w p s) = open_part s"
  by (simp add: open_part_def)

lemma bus_inv_open_part_queue [simp]:
  "bus_inv (open_part (set_bus ((bs_bus s)\<lparr>eb_workqueue := q\<rparr>) s)) = bus_inv (open_part s)"
  by (simp add: open_part_def bus_inv_def subscribed_def)

lemma bus_inv_open_part_store:
  assumes "bus_inv (open_part s)" and "bus_inv ((open_part s)\<lparr>eb_store := st\<rparr>)"
  shows "bus_inv (open_part (set_bus ((bs_bus s)\<lparr>eb_store := st\<rparr>) s))"
  using assms(2) by (simp add: open_part_def bus_inv_def subscribed_def)

lemma eb_store_open_part [simp]: "eb_store (open_part s) = eb_store (bs_bus s)"
  by (simp add: open_part_def)

lemma queue_done_store:
  "queue_done wq f obj (b\<lparr>eb_store := st\<rparr>) = (b\<lparr>eb_store := st\<rparr>)\<lparr>eb_workqueue := wq_Done wq obj (f obj (eb_workqueue b))\<rparr>"
  "queue_done wq f obj b = b\<lparr>eb_workqueue := wq_Done wq obj (f obj (eb_workqueue b))\<rparr>"
  by (simp_all add: queue_done_def)

lemma drainedD: "drained s \<Longrightarrow> bs_worker s w = Idle"
  by (simp add: drained_def)

text \<open>A worker that holds an item is never beside the closing loop.\<close>

lemma sys_inv_busy_worker:
  assumes "sys_inv finished s" and "bs_worker s w \<noteq> Idle"
  shows "\<not> stop_reads (bs_stop s)" "open_part s = bs_bus s" "bus_inv (bs_bus s)"
  using assms open_part_not_reading [of s] by (auto simp: sys_inv_def drained_def)

lemma sys_inv_no_reader:
  assumes "no_reader s" and "bus_inv b" and "sys_inv finished s"
  shows "sys_inv finished (set_bus b s)"
  using assms open_part_not_reading [of "set_bus b s"] by (simp add: sys_inv_def no_reader_def)

lemma sys_inv_send_open:
  assumes "sys_inv finished s" and "bs_worker s w = Delivering m (c # cs)"
  shows "chan_open (eb_store (bs_bus s)) c"
proof -
  have "c \<in> set (subscribed (bs_bus s))"
    using assms by (fastforce simp: sys_inv_def)
  then show ?thesis
    using sys_inv_busy_worker(3) [OF assms(1)] assms(2) by (metis bus_invD(4) worker.distinct(3))
qed

text \<open>A worker that goes on to \<open>p\<close> and leaves the bus \<open>b\<close>.\<close>

lemma sys_inv_worker:
  assumes "sys_inv finished s" and "bs_worker s w \<noteq> Idle" and "bus_inv b" and "subscribed b = subscribed (bs_bus s)"
    and "\<And>m cs. p = Delivering m cs \<Longrightarrow> set cs \<subseteq> set (subscribed b)"
  shows "sys_inv finished (set_worker w p (set_bus b s))"
  using assms sys_inv_busy_worker [OF assms(1,2)] open_part_not_reading [of "set_bus b s"] by (auto simp: sys_inv_def)

text \<open>The closing loop: closing the first channel that is left is an \<open>unsubscribe\<close> in the open part.\<close>

lemma closing_step:
  assumes "bus_inv (open_part s)" and "bs_stop s = Closing (c # cs)"
  obtains st where "close_chan c (eb_store (bs_bus s)) = Ret st"
    and "bus_inv (open_part (set_stop (Closing cs) (set_bus ((bs_bus s)\<lparr>eb_store := st\<rparr>) s)))"
proof -
  have subs: "eb_subscribers (open_part s) = [([], c # cs)]"
    using assms(2) by (simp add: open_part_def)
  obtain b where "unsubscribe [] c (open_part s) = Ret (None, b)" and b: "bus_inv b"
    using bus_inv_unsubscribe [OF assms(1)] by blast
  with subs obtain st where st: "close_chan c (eb_store (bs_bus s)) = Ret st"
    and "b = (open_part s)\<lparr>eb_subscribers := [([], cs)], eb_store := st\<rparr>"
    by (auto simp: unsubscribe_def subs_at_def go_bind_Ret_iff)
  with b have "bus_inv (open_part (set_stop (Closing cs) (set_bus ((bs_bus s)\<lparr>eb_store := st\<rparr>) s)))"
    by (simp add: open_part_def bus_inv_def subscribed_def)
  with st show thesis
    by (rule that)
qed

lemma bus_inv_cleared: "bus_inv b \<Longrightarrow> bus_inv (b\<lparr>eb_subscribers := []\<rparr>)"
  by (simp add: bus_inv_def subscribed_def)

lemma sys_inv_writer:
  assumes "no_reader s" and "sys_inv finished s"
  shows "sys_inv finished (set_bus (snd (Subscribe t (bs_bus s))) s)"
    and "\<exists>b. unsubscribe t c (bs_bus s) = Ret (None, b) \<and> sys_inv finished (set_bus b s)"
proof -
  have inv: "bus_inv (bs_bus s)"
    using assms open_part_not_reading [of s] by (simp add: sys_inv_def no_reader_def)
  then show "sys_inv finished (set_bus (snd (Subscribe t (bs_bus s))) s)"
    using assms by (blast intro: sys_inv_no_reader bus_inv_Subscribe)
  show "\<exists>b. unsubscribe t c (bs_bus s) = Ret (None, b) \<and> sys_inv finished (set_bus b s)"
    using bus_inv_unsubscribe [OF inv, of t c] assms by (blast intro: sys_inv_no_reader)
qed

lemma sys_inv_match:
  assumes "sys_inv finished s" and "bs_worker s w = Fetched (MessageItem m)"
  shows "sys_inv finished (set_worker w (Delivering m (matched m (bs_bus s))) s)"
proof -
  have "sys_inv finished (set_worker w (Delivering m (matched m (bs_bus s))) (set_bus (bs_bus s) s))"
    using assms sys_inv_busy_worker(3) [of finished s w]
    by (intro sys_inv_worker) (auto simp: matched_def dest: matched_subscribed)
  then show ?thesis
    by (simp add: set_bus_def)
qed

lemma sys_inv_queue_done:
  assumes "sys_inv finished s" and "bs_worker s w \<noteq> Idle" and "bus_inv b" and "subscribed b = subscribed (bs_bus s)"
  shows "sys_inv finished (set_worker w Idle (set_bus (queue_done wq f obj b) s))"
  using assms by (intro sys_inv_worker) simp_all

lemma sys_inv_done:
  assumes "sys_inv finished s" and "bs_worker s w \<noteq> Idle"
  shows "sys_inv finished (set_worker w Idle (set_bus (queue_done wq f obj (bs_bus s)) s))"
  using assms sys_inv_busy_worker(3) [OF assms] by (intro sys_inv_queue_done) simp_all

lemma sys_inv_send:
  assumes "sys_inv finished s" and "bs_worker s w = Delivering m (c # cs)"
    and "try_send c (msg_event m) (eb_store (bs_bus s)) = Ret (ok, st)"
  shows "sys_inv finished (set_worker w (Delivering m cs) (set_bus ((bs_bus s)\<lparr>eb_store := st\<rparr>) s))"
    and "sys_inv finished (set_worker w Idle (set_bus (queue_done wq f obj ((bs_bus s)\<lparr>eb_store := st\<rparr>)) s))"
proof -
  have busy: "bs_worker s w \<noteq> Idle"
    using assms(2) by simp
  have inv: "bus_inv ((bs_bus s)\<lparr>eb_store := st\<rparr>)"
    using sys_inv_busy_worker(3) [OF assms(1) busy] assms(3) by (rule bus_inv_try_send)
  have "set (c # cs) \<subseteq> set (subscribed (bs_bus s))"
    using assms(1,2) by (fastforce simp: sys_inv_def)
  then show "sys_inv finished (set_worker w (Delivering m cs) (set_bus ((bs_bus s)\<lparr>eb_store := st\<rparr>) s))"
    using assms(1) busy inv by (intro sys_inv_worker) auto
  show "sys_inv finished (set_worker w Idle (set_bus (queue_done wq f obj ((bs_bus s)\<lparr>eb_store := st\<rparr>)) s))"
    using assms(1) busy inv by (intro sys_inv_queue_done) simp_all
qed

lemma sys_inv_clear:
  assumes "sys_inv finished s" and "bs_stop s = Closing []"
  shows "sys_inv finished (set_stop Stopping (set_bus ((bs_bus s)\<lparr>eb_subscribers := []\<rparr>) s))"
proof -
  have "bus_inv ((bs_bus s)\<lparr>eb_subscribers := []\<rparr>)"
    using assms bus_inv_cleared [of "open_part s"] by (simp add: sys_inv_def open_part_def)
  with assms show ?thesis
    by (auto simp: sys_inv_def open_part_def drained_def)
qed

lemma sys_inv_internal:
  assumes "drain_contract wq finished" and "bus_internal wq finished s s'" and "sys_inv finished s"
  shows "sys_inv finished s'"
  using assms(2,3)
proof (induction rule: bus_internal.induct)
  case (fetch s w obj q)
  then show ?case
    using assms(1) by (auto simp: sys_inv_def drain_contract_def)
next
  case (send_full s w m c cs st)
  then show ?case
    by (intro sys_inv_send(2))
next
  case (send_panic s w m c cs p)
  then show ?case
    using try_send_open [OF sys_inv_send_open] by fastforce
next
  case (close s c cs st)
  then show ?case
    using closing_step [of s c cs] by (auto simp: sys_inv_def drained_def)
next
  case (close_panic s c cs p)
  then show ?case
    using closing_step [of s c cs] by (auto simp: sys_inv_def)
qed (simp_all add: sys_inv_match sys_inv_send(1) sys_inv_clear sys_inv_done,
   auto simp: sys_inv_def open_part_def bus_inv_def subscribed_def drained_def)

lemma sys_inv_step:
  assumes "drain_contract wq finished" and "bus_step wq finished s s'" and "sys_inv finished s"
  shows "sys_inv finished s'"
  using assms(2,3)
proof (induction rule: bus_step.induct)
  case (publish s t e)
  then show ?case
    using assms(1) by (auto simp: sys_inv_def drain_contract_def drained_def Publish_def)
next
  case (unsub s t c r b)
  then show ?case
    using sys_inv_writer(2) [of s finished t c] by auto
next
  case (unsub_panic s t c p)
  then show ?case
    using sys_inv_writer(2) [of s finished t c] by auto
next
  case (receive s c)
  then show ?case
    using bus_inv_recv [of "open_part s" c] bus_inv_open_part_store [of s] by (auto simp: sys_inv_def drained_def)
qed (simp_all add: sys_inv_writer(1) sys_inv_internal [OF assms(1)])

lemma bus_inv_Start_launch [simp]: "bus_inv (Start_launch b) = bus_inv b"
  by (simp add: Start_launch_def)

lemma sys_inv_reachable:
  assumes "drain_contract wq finished" and "bus_reachable wq finished s"
  shows "sys_inv finished s"
  using assms(2)
proof (induction rule: bus_reachable.induct)
  case (init n q)
  show ?case
    by (simp add: sys_inv_def init_sys_def bus_inv_New open_part_def)
next
  case (step s s')
  then show ?case
    using sys_inv_step [OF assms(1)] by blast
qed

text \<open>C4:
  However workers, publishers, subscribers, consumers and the shutdown interleave, the bus
  never panics: no event is sent to a closed channel and no channel is closed twice, even
  when a consumer unsubscribes again or after shutdown. Of the queue this needs only that
  a drain has ended when no more item will be handed out.
\<close>

theorem bus_never_panics:
  assumes "drain_contract wq finished" and "bus_reachable wq finished s"
  shows "\<not> bs_crashed s"
  using sys_inv_reachable [OF assms] by (simp add: sys_inv_def)

text \<open>C38:
  In every reachable state a channel holds at most its capacity, and except while \<open>Start\<close> closes the
  channels, a subscriber's channel is open, registered once, and holds at most ten events.
\<close>

theorem subscriber_channels_bounded:
  assumes "drain_contract wq finished" and "bus_reachable wq finished s"
  shows "length (buf (eb_store (bs_bus s)) d) \<le> chan_cap (eb_store (bs_bus s)) d \<and>
    (c \<in> set (subscribed (bs_bus s)) \<longrightarrow> (\<forall>cs. bs_stop s \<noteq> Closing cs) \<longrightarrow>
      chan_open (eb_store (bs_bus s)) c \<and> length (buf (eb_store (bs_bus s)) c) \<le> 10 \<and>
      count_list (subscribed (bs_bus s)) c = 1)"
proof -
  have part: "bus_inv (open_part s)"
    using sys_inv_reachable [OF assms] by (simp add: sys_inv_def)
  then have bound: "length (buf (eb_store (bs_bus s)) d) \<le> chan_cap (eb_store (bs_bus s)) d" for d
    using bus_invD(3) [OF part] by (auto intro: wf_store_bounded)
  have "chan_open (eb_store (bs_bus s)) c \<and> length (buf (eb_store (bs_bus s)) c) \<le> 10 \<and>
      count_list (subscribed (bs_bus s)) c = 1"
    if sub: "c \<in> set (subscribed (bs_bus s))" and "\<forall>cs. bs_stop s \<noteq> Closing cs"
  proof -
    have inv: "bus_inv (bs_bus s)"
      using part open_part_bus [of s] that(2) by simp
    have "count_list (subscribed (bs_bus s)) c = 1"
      using bus_invD(2) [OF inv] sub by (metis count_mset distinct_count_atmost_1)
    then show ?thesis
      using bus_invD(4,5) [OF inv sub] bound [of c] by (simp add: CONSUMER_BUFFER_SIZE_def)
  qed
  with bound show ?thesis
    by blast
qed

theorem subscriber_channels_bounded_witness:
  "chan_open (eb_store (snd (Subscribe ''HighCpu'' (bs_bus (init_sys 2 ([] :: item list, False)))))) 0 \<and>
   length (buf (eb_store (snd (Subscribe ''HighCpu'' (bs_bus (init_sys 2 ([] :: item list, False)))))) 0) \<le> 10"
proof -
  let ?s = "init_sys 2 ([], False) :: fifo bus_sys"
  let ?s' = "set_bus (snd (Subscribe ''HighCpu'' (bs_bus ?s))) ?s"
  have "bus_step fifo_ops fifo_finished ?s ?s'"
    by (rule bus_step.subscribe) (simp add: no_reader_def init_sys_def)
  then have "bus_reachable fifo_ops fifo_finished ?s'"
    by (rule bus_reachable.step [OF bus_reachable.init])
  moreover have "subscribed (bs_bus ?s') = [0]"
    by (simp add: subscribed_def init_sys_def Start_launch_def NewEventBus_def empty_store_def subs_at_def)
  ultimately show ?thesis
    using subscriber_channels_bounded [OF fifo_drain, of ?s' 0 0] by (simp add: init_sys_def)
qed

section \<open>The worker turn is one of the interleavings\<close>

lemma bus_step_rtranclp: "bus_step wq finished s s' \<Longrightarrow> (bus_step wq finished)\<^sup>*\<^sup>* s' s'' \<Longrightarrow> (bus_step wq finished)\<^sup>*\<^sup>* s s''"
  by (rule converse_rtranclp_into_rtranclp)

lemma bus_internal_rtranclp:
  "bus_internal wq finished s s' \<Longrightarrow> (bus_internal wq finished)\<^sup>*\<^sup>* s' s'' \<Longrightarrow> (bus_internal wq finished)\<^sup>*\<^sup>* s s''"
  by (rule converse_rtranclp_into_rtranclp)

lemma set_absorb [simp]:
  "set_bus b (set_bus b' s) = set_bus b s"
  "set_worker w p (set_worker w p' s) = set_worker w p s"
  "set_bus b (set_worker w p s) = set_worker w p (set_bus b s)"
  "set_stop x (set_stop y s) = set_stop x s"
  "set_bus b (set_stop x s) = set_stop x (set_bus b s)"
  by (simp_all add: set_bus_def set_worker_def set_stop_def)

lemma set_worker_idem: "bs_worker s w = p \<Longrightarrow> set_worker w p s = s"
  by (cases s) (simp add: set_worker_def fun_upd_idem)

lemma deliver_steps:
  assumes "bs_worker s w = Delivering m cs"
    and "deliver cs (msg_event m) (eb_store (bs_bus s)) = Ret (all_sent, st)"
  shows "(bus_internal wq finished)\<^sup>*\<^sup>* s (set_worker w Idle (set_bus
     (queue_done wq (if all_sent then wq_Forget wq else wq_AddRateLimited wq) (MessageItem m)
       ((bs_bus s)\<lparr>eb_store := st\<rparr>)) s))"
  using assms
proof (induction cs arbitrary: s)
  case Nil
  then show ?case
    using bus_internal.delivered [of s w m wq finished] by auto
next
  case (Cons c cs)
  from Cons.prems(2) obtain sent st1 where sent: "try_send c (msg_event m) (eb_store (bs_bus s)) = Ret (sent, st1)"
    and rest: "(if sent then deliver cs (msg_event m) st1 else Ret (False, st1)) = Ret (all_sent, st)"
    by (auto simp: go_bind_Ret_iff)
  show ?case
  proof (cases sent)
    case True
    let ?s = "set_worker w (Delivering m cs) (set_bus ((bs_bus s)\<lparr>eb_store := st1\<rparr>) s)"
    have "bus_internal wq finished s ?s"
      using Cons.prems(1) sent True by (auto intro: bus_internal.send)
    moreover have "(bus_internal wq finished)\<^sup>*\<^sup>* ?s (set_worker w Idle (set_bus
       (queue_done wq (if all_sent then wq_Forget wq else wq_AddRateLimited wq) (MessageItem m)
         ((bs_bus ?s)\<lparr>eb_store := st\<rparr>)) ?s))"
      using rest True by (intro Cons.IH) simp_all
    ultimately show ?thesis
      by (auto intro: bus_internal_rtranclp)
  next
    case False
    then have "bus_internal wq finished s (set_worker w Idle (set_bus
       (queue_done wq (wq_AddRateLimited wq) (MessageItem m) ((bs_bus s)\<lparr>eb_store := st1\<rparr>)) s))"
      using Cons.prems(1) sent by (auto intro: bus_internal.send_full)
    then show ?thesis
      using rest False by auto
  qed
qed

lemma deliver_Nil_subscribers:
  "\<not> snd (SubscriberMatch (eb_subscribers b) (msg_topic m)) \<Longrightarrow>
   deliver (matched m b) e st = Ret (True, st)"
  by (simp add: SubscriberMatch_snd matched_def)

lemma process_message_deliver:
  assumes "process_item wq (MessageItem m) b = Ret (err, handled, b')"
  obtains all_sent st where "deliver (matched m b) (msg_event m) (eb_store b) = Ret (all_sent, st)"
    and "b'\<lparr>eb_workqueue := wq_Done wq (MessageItem m) (eb_workqueue b')\<rparr> =
      queue_done wq (if all_sent then wq_Forget wq else wq_AddRateLimited wq) (MessageItem m) (b\<lparr>eb_store := st\<rparr>)"
proof (cases "snd (SubscriberMatch (eb_subscribers b) (msg_topic m))")
  case True
  with assms that show ?thesis
    by (auto simp: process_item_def matched_def queue_done_def go_bind_Ret_iff split: prod.splits if_splits)
next
  case False
  with assms that [OF deliver_Nil_subscribers [OF False]] show ?thesis
    by (auto simp: process_item_def queue_done_def split: prod.splits)
qed

lemma worker_turn_internal:
  assumes "bs_worker s w = Idle" and "processNextWorkItem wq (bs_bus s) = Some (Ret (True, handled, b'))"
  shows "(bus_internal wq finished)\<^sup>*\<^sup>* s (set_bus b' s)"
proof -
  obtain obj q where get: "wq_Get wq (eb_workqueue (bs_bus s)) = Some (Some obj, q)"
    using assms(2) by (auto simp: processNextWorkItem_def split: option.splits)
  let ?b = "(bs_bus s)\<lparr>eb_workqueue := q\<rparr>"
  let ?s = "set_worker w (Fetched obj) (set_bus ?b s)"
  have fetch: "bus_internal wq finished s ?s"
    using assms(1) get by (rule bus_internal.fetch)
  obtain err h b1 where item: "process_item wq obj ?b = Ret (err, h, b1)"
    and b': "b' = b1\<lparr>eb_workqueue := wq_Done wq obj (eb_workqueue b1)\<rparr>"
    using assms(2) get by (auto simp: processNextWorkItem_def go_bind_Ret_iff)
  have idle: "set_worker w Idle (set_bus b' s) = set_bus b' s"
    using assms(1) by (intro set_worker_idem) simp
  have "(bus_internal wq finished)\<^sup>*\<^sup>* ?s (set_worker w Idle (set_bus b' s))"
  proof (cases obj)
    case (ForeignItem x)
    with item b' have "b' = queue_done wq (wq_Forget wq) (ForeignItem x) ?b"
      by (auto simp: process_item_def queue_done_def)
    then show ?thesis
      using ForeignItem bus_internal.foreign [of ?s w x wq finished] by auto
  next
    case (MessageItem m)
    with item obtain all_sent st where
      del: "deliver (matched m ?b) (msg_event m) (eb_store ?b) = Ret (all_sent, st)"
      and qd: "b' = queue_done wq (if all_sent then wq_Forget wq else wq_AddRateLimited wq) (MessageItem m)
        (?b\<lparr>eb_store := st\<rparr>)"
      unfolding b' by (auto elim: process_message_deliver)
    let ?s' = "set_worker w (Delivering m (matched m ?b)) ?s"
    have "bus_internal wq finished ?s ?s'"
      using MessageItem bus_internal.match [of ?s w m wq finished] by simp
    moreover have "(bus_internal wq finished)\<^sup>*\<^sup>* ?s' (set_worker w Idle (set_bus b' s))"
      using deliver_steps [of ?s' w m "matched m ?b" all_sent st wq finished] del qd by simp
    ultimately show ?thesis
      by (rule bus_internal_rtranclp)
  qed
  with fetch idle show ?thesis
    by (auto intro: bus_internal_rtranclp)
qed

text \<open>C20:
  The sequential worker turn \<open>processNextWorkItem\<close> is a run of the interleaved system: from
  any state in which a worker is idle, its turn, taken without interruption, leads to the
  same bus, with the worker idle again.
\<close>

theorem processNextWorkItem_simulated:
  assumes "bs_worker s w = Idle" and "processNextWorkItem wq (bs_bus s) = Some (Ret (True, handled, b'))"
  shows "(bus_step wq finished)\<^sup>*\<^sup>* s (set_bus b' s)"
proof -
  have "bus_internal wq finished \<le> bus_step wq finished"
    by (auto intro: bus_step.internal)
  then show ?thesis
    using worker_turn_internal [OF assms, of finished] rtranclp_mono by blast
qed

theorem processNextWorkItem_simulated_witness:
  "\<exists>b'. (bus_step fifo_ops fifo_finished)\<^sup>*\<^sup>* \<lparr>bs_bus = demo_bus, bs_worker = (\<lambda>_. Idle), bs_stop = Serving, bs_crashed = False\<rparr>
     \<lparr>bs_bus = b', bs_worker = (\<lambda>_. Idle), bs_stop = Serving, bs_crashed = False\<rparr> \<and> fst (eb_workqueue b') = []"
proof -
  let ?s = "\<lparr>bs_bus = demo_bus, bs_worker = (\<lambda>_. Idle), bs_stop = Serving, bs_crashed = False\<rparr>"
  let ?b = "demo_bus\<lparr>eb_store := sent_to (set (receivers demo_message demo_bus)) sample_event (eb_store demo_bus),
     eb_workqueue := ([], False)\<rparr>"
  have room: "\<forall>c \<in> set (matched demo_message demo_bus). has_room (eb_store demo_bus) c"
    unfolding demo_matched by code_simp
  have turn: "processNextWorkItem fifo_ops (bs_bus ?s) = Some (Ret (True, [], ?b))"
    using turn_message [OF demo_bus_inv demo_get(1)] room by (simp add: fifo_ops_def Let_def)
  have idle: "bs_worker ?s 0 = Idle" by simp
  show ?thesis
    using processNextWorkItem_simulated [OF idle turn] by (auto simp: set_bus_def intro!: exI [of _ ?b])
qed

section \<open>The shutdown\<close>

lemma close_all_steps:
  assumes "bs_stop s = Closing cs" and "close_all cs (eb_store (bs_bus s)) = Ret st"
  shows "(bus_step wq finished)\<^sup>*\<^sup>* s (set_stop (Closing []) (set_bus ((bs_bus s)\<lparr>eb_store := st\<rparr>) s))"
  using assms
proof (induction cs arbitrary: s)
  case Nil
  then have "set_stop (Closing []) (set_bus ((bs_bus s)\<lparr>eb_store := st\<rparr>) s) = s"
    by (cases s; cases "bs_bus s") (simp add: set_stop_def set_bus_def)
  then show ?case
    by simp
next
  case (Cons c cs)
  from Cons.prems(2) obtain st1 where st1: "close_chan c (eb_store (bs_bus s)) = Ret st1"
    and rest: "close_all cs st1 = Ret st"
    by (auto simp: go_bind_Ret_iff)
  let ?s = "set_stop (Closing cs) (set_bus ((bs_bus s)\<lparr>eb_store := st1\<rparr>) s)"
  have "bus_step wq finished s ?s"
    using Cons.prems(1) st1 by (rule bus_step_close)
  moreover have "(bus_step wq finished)\<^sup>*\<^sup>* ?s (set_stop (Closing []) (set_bus ((bs_bus ?s)\<lparr>eb_store := st\<rparr>) ?s))"
    using rest by (intro Cons.IH) simp_all
  ultimately show ?case
    by (auto intro: bus_step_rtranclp)
qed

text \<open>
  The sequential \<open>Start_stop\<close> is a run of the interleaved system: when no worker has an item
  and the queue finishes at once, its steps lead to the same bus.
\<close>

lemma Start_stop_simulated:
  assumes "bs_stop s = Serving" and "drained s"
    and "finished (wq_ShutDownWithDrain wq (eb_workqueue (bs_bus s)))"
    and "Start_stop wq (bs_bus s) = Some (Ret b)"
  shows "(bus_step wq finished)\<^sup>*\<^sup>* s (set_stop Stopped (set_bus b s))"
proof -
  let ?b1 = "(bs_bus s)\<lparr>eb_workqueue := wq_ShutDownWithDrain wq (eb_workqueue (bs_bus s))\<rparr>"
  obtain st where st: "close_all (subscribed (bs_bus s)) (eb_store (bs_bus s)) = Ret st"
    and run: "0 < eb_running (bs_bus s)"
    and b: "b = ?b1\<lparr>eb_store := st, eb_subscribers := [], eb_running := eb_running (bs_bus s) - 1\<rparr>"
    using assms(4) by (auto simp: Start_stop_def subscribed_def Let_def split: go.splits if_splits)
  let ?s1 = "set_stop Draining (set_bus ?b1 s)"
  let ?s2 = "set_stop (Closing (subscribed (bs_bus s))) (set_bus ?b1 s)"
  let ?s3 = "set_stop (Closing []) (set_bus (?b1\<lparr>eb_store := st\<rparr>) s)"
  let ?s4 = "set_stop Stopping (set_bus (?b1\<lparr>eb_store := st, eb_subscribers := []\<rparr>) s)"
  have "bus_step wq finished s ?s1"
    using assms(1) by (rule bus_step_shutdown)
  moreover have "bus_step wq finished ?s1 ?s2"
    using bus_step_drain [of ?s1 finished wq] assms(2,3) by (simp add: drained_def)
  moreover have "(bus_step wq finished)\<^sup>*\<^sup>* ?s2 ?s3"
    using close_all_steps [of ?s2 "subscribed (bs_bus s)" st wq finished] st by simp
  moreover have "bus_step wq finished ?s3 ?s4"
    using bus_step_clear [of ?s3 wq finished] by simp
  moreover have "bus_step wq finished ?s4 (set_stop Stopped (set_bus b s))"
    using bus_step_stopped [of ?s4 wq finished] run b by simp
  ultimately show ?thesis
    by (meson bus_step_rtranclp converse_rtranclp_into_rtranclp r_into_rtranclp rtranclp_trans)
qed

lemma bus_reachable_rtranclp:
  "(bus_step wq finished)\<^sup>*\<^sup>* s s' \<Longrightarrow> bus_reachable wq finished s \<Longrightarrow> bus_reachable wq finished s'"
  by (induction rule: rtranclp_induct) (auto intro: bus_reachable.step)

text \<open>A bus with one subscriber and one message, before the message is handed out.\<close>

definition subscribed_sys :: "fifo bus_sys" where
  "subscribed_sys = set_bus (snd (Subscribe ''HighCpu'' (bs_bus (init_sys 2 ([], False))))) (init_sys 2 ([], False))"

definition published_sys :: "fifo bus_sys" where
  "published_sys = set_bus (snd (Publish fifo_ops ''HighCpu'' sample_event (bs_bus subscribed_sys))) subscribed_sys"

lemma subscribed_sys_reachable: "bus_reachable fifo_ops finished subscribed_sys"
  unfolding subscribed_sys_def
  by (rule bus_reachable.step [OF bus_reachable.init], rule bus_step.subscribe) (simp add: no_reader_def init_sys_def)

lemma published_sys_reachable: "bus_reachable fifo_ops finished published_sys"
  unfolding published_sys_def by (rule bus_reachable.step [OF subscribed_sys_reachable bus_step.publish])

theorem bus_never_panics_witness:
  "\<exists>b. Start_stop fifo_ops (bs_bus subscribed_sys) = Some (Ret b) \<and>
     \<not> chan_open (eb_store b) 0 \<and> \<not> bs_crashed (set_stop Stopped (set_bus b subscribed_sys))"
proof -
  obtain b where stop: "Start_stop fifo_ops (bs_bus subscribed_sys) = Some (Ret b)" and "\<not> chan_open (eb_store b) 0"
    by (simp add: Start_stop_def subscribed_sys_def init_sys_def Start_launch_def NewEventBus_def Subscribe_def
        make_chan_def empty_store_def subs_at_def close_chan_def set_chan_def chan_open_def Let_def)
  moreover have "(bus_step fifo_ops fifo_finished)\<^sup>*\<^sup>* subscribed_sys (set_stop Stopped (set_bus b subscribed_sys))"
    using stop by (intro Start_stop_simulated)
      (simp_all add: subscribed_sys_def init_sys_def drained_def fifo_finished_def fifo_ops_def Start_launch_def
        NewEventBus_def Subscribe_def Let_def split_beta)
  then have "bus_reachable fifo_ops fifo_finished (set_stop Stopped (set_bus b subscribed_sys))"
    using subscribed_sys_reachable by (rule bus_reachable_rtranclp)
  ultimately show ?thesis
    using bus_never_panics [OF fifo_drain] by blast
qed

lemma late_item_panics:
  assumes "bs_stop s = Draining" and "drained s" and "finished (eb_workqueue (bs_bus s))"
    and "wq_Get wq (eb_workqueue (bs_bus s)) = Some (Some (MessageItem m), q)"
    and "subscribed (bs_bus s) = [c]" and "matched m (bs_bus s) = [c]" and "close_chan c (eb_store (bs_bus s)) = Ret st"
    and "try_send c (msg_event m) st = Panics p"
  shows "\<exists>s'. (bus_step wq finished)\<^sup>*\<^sup>* s s' \<and> bs_crashed s'"
proof -
  let ?b = "(bs_bus s)\<lparr>eb_workqueue := q\<rparr>"
  let ?s1 = "set_stop (Closing [c]) s"
  let ?s2 = "set_worker 0 (Fetched (MessageItem m)) (set_bus ?b ?s1)"
  let ?s3 = "set_worker 0 (Delivering m [c]) ?s2"
  let ?s4 = "set_stop (Closing []) (set_bus (?b\<lparr>eb_store := st\<rparr>) ?s3)"
  have "bus_step wq finished s ?s1"
    using bus_step_drain [of s finished wq] assms(1-3,5) by simp
  moreover have "bus_step wq finished ?s1 ?s2"
    using bus_step_fetch [of ?s1 0 wq "MessageItem m" q finished] assms(2,4) by (simp add: drained_def)
  moreover have "bus_step wq finished ?s2 ?s3"
    using bus_step_match [of ?s2 0 m wq finished] assms(6) by (simp add: matched_def)
  moreover have "bus_step wq finished ?s3 ?s4"
    using bus_step_close [of ?s3 c "[]" st wq finished] assms(7) by simp
  moreover have "bus_step wq finished ?s4 (crash ?s4)"
    using bus_step_send_panic [of ?s4 0 m c "[]" p wq finished] assms(8) by simp
  ultimately have "(bus_step wq finished)\<^sup>*\<^sup>* s (crash ?s4)"
    by (meson bus_step_rtranclp r_into_rtranclp)
  then show ?thesis
    by (auto simp: crash_def intro!: exI [of _ "crash ?s4"])
qed

text \<open>
  The guarantee of the drain is needed. If \<open>ShutDownWithDrain\<close> only waited for the items in
  process, a message still queued could be taken by a worker while \<open>Start\<close> closes the
  channels: both hold the read lock, and the send to the closed channel panics.
\<close>

lemma bus_panics_without_full_drain:
  "\<exists>s. bus_reachable fifo_ops (\<lambda>q. True) s \<and> bs_crashed s"
proof -
  let ?m = "\<lparr>msg_event = sample_event, msg_topic = ''HighCpu''\<rparr>"
  let ?b = "(bs_bus published_sys)\<lparr>eb_workqueue := wq_ShutDownWithDrain fifo_ops (eb_workqueue (bs_bus published_sys))\<rparr>"
  let ?s = "set_stop Draining (set_bus ?b published_sys)"
  let ?open = "\<lparr>ch_buf = [], ch_cap = CONSUMER_BUFFER_SIZE, ch_closed = False\<rparr>"
  have facts: "bs_stop published_sys = Serving" "drained ?s"
    "wq_Get fifo_ops (eb_workqueue ?b) = Some (Some (MessageItem ?m), ([], True))"
    "eb_subscribers ?b = [(''HighCpu'', [0])]" "st_chans (eb_store ?b) 0 = Some ?open"
    by (simp_all add: published_sys_def subscribed_sys_def init_sys_def Start_launch_def NewEventBus_def Subscribe_def
        Publish_def drained_def fifo_ops_def fifo_add_def make_chan_def empty_store_def subs_at_def Let_def)
  have match: "matched ?m ?b = [0]"
    unfolding matched_def facts(4) by code_simp
  have "bus_step fifo_ops (\<lambda>q. True) published_sys ?s"
    using facts(1) by (rule bus_step_shutdown)
  then have "bus_reachable fifo_ops (\<lambda>q. True) ?s"
    by (rule bus_reachable.step [OF published_sys_reachable])
  moreover have "\<exists>s'. (bus_step fifo_ops (\<lambda>q. True))\<^sup>*\<^sup>* ?s s' \<and> bs_crashed s'"
    using facts match
    by (intro late_item_panics [where m = ?m and q = "([], True)" and c = 0 and p = "''send on closed channel''"
          and st = "set_chan 0 (?open\<lparr>ch_closed := True\<rparr>) (eb_store ?b)"])
      (simp_all add: subscribed_def close_chan_def set_chan_def try_send_def)
  ultimately show ?thesis
    using bus_reachable_rtranclp by blast
qed

end
