(* ===== verification/Consumers.thy ===== *)
theory Consumers
  imports Eventbus
begin

text \<open>
  \<open>pkg/eventbus/consumer.go\<close>: the consumer that a subscription returns, the set of consumers
  that \<open>MergeConsumers\<close> makes of several, and the goroutine that feeds the merged channel.
\<close>

section \<open>Consumers\<close>

text \<open>The bus of an \<open>EventConsumer\<close> is the one bus of the program, an argument below.\<close>

datatype Consumer =
    EventConsumer (co_topic: string) (co_eventChannel: chan_id) (co_consumerId: string)
  | EventConsumerSet "Consumer list" chan_id

text \<open>\<open>now\<close> is the current time in the format \<open>RFC3339Nano\<close>.\<close>

definition NewConsumer :: "string \<Rightarrow> string \<Rightarrow> chan_id \<Rightarrow> Consumer" where
  "NewConsumer now topic consumerCh = EventConsumer topic consumerCh (fnv_hex (topic @ now))"

text \<open>\<open>EventBus.Subscribe\<close> with the consumer it returns.\<close>

definition Subscribe_consumer :: "string \<Rightarrow> string \<Rightarrow> 'q EventBus \<Rightarrow> Consumer \<times> 'q EventBus" where
  "Subscribe_consumer now topic b =
     (let (ch, b') = Subscribe topic b in (NewConsumer now topic ch, b'))"

fun consumer_Id :: "Consumer \<Rightarrow> string" where
  "consumer_Id (EventConsumer t ch i) = i"
| "consumer_Id (EventConsumerSet cs m) = fnv_hex (concat (map consumer_Id cs))"

fun OnEvent :: "Consumer \<Rightarrow> chan_id" where
  "OnEvent (EventConsumer t ch i) = ch"
| "OnEvent (EventConsumerSet cs m) = m"

text \<open>\<open>UnSubscribe\<close>; a set unsubscribes its members one after the other.\<close>

fun UnSubscribe :: "Consumer \<Rightarrow> 'q EventBus \<Rightarrow> (goerror option \<times> 'q EventBus) go"
  and UnSubscribe_members :: "Consumer list \<Rightarrow> 'q EventBus \<Rightarrow> (goerror option \<times> 'q EventBus) go" where
  "UnSubscribe (EventConsumer t ch i) b = unsubscribe t ch b"
| "UnSubscribe (EventConsumerSet cs m) b = UnSubscribe_members cs b"
| "UnSubscribe_members [] b = Ret (None, b)"
| "UnSubscribe_members (c # cs) b =
     go_bind (UnSubscribe c b) (\<lambda>(err, b'). UnSubscribe_members cs b')"

section \<open>Merging\<close>

text \<open>
  \<open>Merge\<close>: \<open>reflect.Select\<close> picks any ready case, so the case it picks is an argument. A nil
  channel is \<open>None\<close>; the case after the channels is the context. The result is \<open>None\<close> when
  the picked case is not ready, and otherwise the message, the error and the channels.
\<close>

definition Merge :: "bool \<Rightarrow> chan_id option list \<Rightarrow> nat \<Rightarrow> Event store \<Rightarrow> ((Event \<times> goerror option) \<times> Event store) option" where
  "Merge ctx_done chs pick st =
     (let closed = (empty_event, Some (if ctx_done then ErrContext else ErrChannelClosed))
      in if pick < length chs
         then (case chs ! pick of
                 None \<Rightarrow> None
               | Some c \<Rightarrow>
                   (case recv c st of
                      (Received v, st') \<Rightarrow> Some ((v, None), st')
                    | (Closed, st') \<Rightarrow> Some (closed, st')
                    | (NotReady, st') \<Rightarrow> None))
         else if pick = length chs \<and> ctx_done then Some (closed, st)
         else None)"

text \<open>
  \<open>OnEventSync\<close>. The set makes a slice that already has as many nil channels as there are
  members and appends the channels of the members to it.
\<close>

fun OnEventSync :: "Consumer \<Rightarrow> bool \<Rightarrow> nat \<Rightarrow> Event store \<Rightarrow> (Event \<times> Event store) option" where
  "OnEventSync (EventConsumer t ch i) ctx_done pick st =
     (if pick = 0
      then (case recv ch st of
              (Received v, st') \<Rightarrow> Some (v, st')
            | (Closed, st') \<Rightarrow> Some (empty_event, st')
            | (NotReady, st') \<Rightarrow> None)
      else if pick = 1 \<and> ctx_done then Some (empty_event, st)
      else None)"
| "OnEventSync (EventConsumerSet cs m) ctx_done pick st =
     (case Merge ctx_done (replicate (length cs) None @ map (Some \<circ> OnEvent) cs) pick st of
        None \<Rightarrow> None
      | Some ((event, err), st') \<Rightarrow> Some (event, st'))"

text \<open>
  \<open>MergeConsumers\<close> makes an unbuffered channel and a goroutine. The goroutine selects over
  the channels of the members and hands each message to whoever receives from the merged
  channel; \<open>PumpSend\<close> is the goroutine waiting for that receiver, with the value of \<open>ok\<close>
  for the next turn of its loop.
\<close>

definition MergeConsumers :: "Consumer list \<Rightarrow> 'q EventBus \<Rightarrow> Consumer \<times> chan_id option list \<times> 'q EventBus" where
  "MergeConsumers consumers b =
     (let (merged, st) = make_chan 0 (eb_store b)
      in (EventConsumerSet consumers merged, map (Some \<circ> OnEvent) consumers, b\<lparr>eb_store := st\<rparr>))"

datatype pump_pc = PumpSelect | PumpSend Event bool | PumpDone

text \<open>
  The pump with the channels, what was handed out, and two logs: what was taken from which
  channel, and what was sent to which channel since the pump was started.
\<close>

record pump =
  pp_store :: "Event store"
  pp_pc :: pump_pc
  pp_out :: "Event list"
  pp_taken :: "(chan_id \<times> Event) list"
  pp_sent :: "(chan_id \<times> Event) list"

definition pump_init :: "Event store \<Rightarrow> pump" where
  "pump_init st = \<lparr>pp_store = st, pp_pc = PumpSelect, pp_out = [], pp_taken = [], pp_sent = []\<rparr>"

definition pump_select :: "chan_id option list \<Rightarrow> nat \<Rightarrow> pump \<Rightarrow> pump option" where
  "pump_select chs pick p =
     (case Merge False chs pick (pp_store p) of
        None \<Rightarrow> None
      | Some ((event, err), st) \<Rightarrow>
          Some (p\<lparr>pp_store := st,
                  pp_pc := PumpSend event (case err of None \<Rightarrow> True | Some e \<Rightarrow> e \<noteq> ErrChannelClosed),
                  pp_taken := pp_taken p @
                    (case (err, chs ! pick) of (None, Some c) \<Rightarrow> [(c, event)] | _ \<Rightarrow> [])\<rparr>))"

inductive pump_step :: "chan_id option list \<Rightarrow> pump \<Rightarrow> pump \<Rightarrow> bool" for chs where
  arrive: "try_send c e (pp_store p) = Ret (True, st) \<Longrightarrow>
    pump_step chs p (p\<lparr>pp_store := st, pp_sent := pp_sent p @ [(c, e)]\<rparr>)"
| closes: "close_chan c (pp_store p) = Ret st \<Longrightarrow> pump_step chs p (p\<lparr>pp_store := st\<rparr>)"
| select: "pp_pc p = PumpSelect \<Longrightarrow> pump_select chs pick p = Some p' \<Longrightarrow> pump_step chs p p'"
| hand: "pp_pc p = PumpSend e ok \<Longrightarrow>
    pump_step chs p (p\<lparr>pp_out := pp_out p @ [e], pp_pc := if ok then PumpSelect else PumpDone\<rparr>)"

section \<open>Unsubscribing\<close>

text \<open>The subscriptions behind a consumer.\<close>

fun leaves :: "Consumer \<Rightarrow> (string \<times> chan_id) set" where
  "leaves (EventConsumer t ch i) = {(t, ch)}"
| "leaves (EventConsumerSet cs m) = (\<Union>c \<in> set cs. leaves c)"

text \<open>The bus with exactly these subscriptions gone and their channels closed.\<close>

definition released :: "(string \<times> chan_id) set \<Rightarrow> 'q EventBus \<Rightarrow> 'q EventBus \<Rightarrow> bool" where
  "released L b b' \<longleftrightarrow>
     (\<forall>t. set (subs_at (eb_subscribers b') t) = set (subs_at (eb_subscribers b) t) - {ch. (t, ch) \<in> L}) \<and>
     (\<forall>ch. chan_open (eb_store b') ch \<longleftrightarrow>
        chan_open (eb_store b) ch \<and> \<not> (\<exists>t. (t, ch) \<in> L \<and> ch \<in> set (subs_at (eb_subscribers b) t))) \<and>
     (\<forall>ch. buf (eb_store b') ch = buf (eb_store b) ch) \<and> eb_workqueue b' = eb_workqueue b"

lemma released_refl: "released {} b b"
  by (simp add: released_def)

lemma released_trans: "released L b b1 \<Longrightarrow> released L' b1 b2 \<Longrightarrow> released (L \<union> L') b b2"
  unfolding released_def by auto

lemma unsubscribe_released:
  assumes "bus_inv b" and "unsubscribe t c b = Ret (r, b')"
  shows "released {(t, c)} b b'"
proof (cases "c \<in> set (subs_at (eb_subscribers b) t)")
  case False
  then show ?thesis
    using assms(2) by (auto simp: unsubscribe_absent released_def)
next
  case True
  have "distinct (subs_at (eb_subscribers b) t)"
    using distinct_subs_at bus_invD(2) [OF assms(1)] by (simp add: subscribed_def)
  moreover obtain st where "close_chan c (eb_store b) = Ret st"
    "b' = b\<lparr>eb_subscribers := map_put t (remove1 c (subs_at (eb_subscribers b) t)) (eb_subscribers b), eb_store := st\<rparr>"
    using unsubscribe_present [OF assms(1) True] assms(2) by (metis go.inject(1) prod.inject)
  ultimately show ?thesis
    using True by (auto simp: released_def subs_at_put close_chan_frame)
qed

lemma UnSubscribe_released:
  fixes b :: "'q EventBus"
  shows "bus_inv b \<Longrightarrow> \<exists>b'. UnSubscribe c b = Ret (None, b') \<and> bus_inv b' \<and> released (leaves c) b b'"
    and "bus_inv b \<Longrightarrow> \<exists>b'. UnSubscribe_members cs b = Ret (None, b') \<and> bus_inv b' \<and>
      released (\<Union>c \<in> set cs. leaves c) b b'"
proof (induction c b and cs b rule: UnSubscribe_UnSubscribe_members.induct)
  case (1 t ch i b)
  then show ?case
    using bus_inv_unsubscribe [OF 1, of t ch] unsubscribe_released [OF 1] by fastforce
next
  case (4 c cs b)
  then obtain b1 where b1: "UnSubscribe c b = Ret (None, b1)" "bus_inv b1" "released (leaves c) b b1"
    by blast
  then obtain b2 where "UnSubscribe_members cs b1 = Ret (None, b2)" "bus_inv b2"
    "released (\<Union>c \<in> set cs. leaves c) b1 b2"
    using "4.IH"(2) by fastforce
  then show ?case
    using b1 released_trans by auto
qed (auto simp: released_refl)

text \<open>
  Unsubscribing a consumer, plain or merged, always succeeds, however often it is done and
  whether or not the bus has been stopped: exactly the subscriptions behind the consumer are
  removed, exactly their channels are closed, nothing buffered is lost, and every other
  subscription stays as it was.
\<close>

lemma UnSubscribe_exact:
  assumes "bus_inv b"
  shows "\<exists>b'. UnSubscribe c b = Ret (None, b') \<and> bus_inv b' \<and>
    (\<forall>t. set (subs_at (eb_subscribers b') t) = set (subs_at (eb_subscribers b) t) - {ch. (t, ch) \<in> leaves c}) \<and>
    (\<forall>ch. chan_open (eb_store b') ch \<longleftrightarrow>
        chan_open (eb_store b) ch \<and> \<not> (\<exists>t. (t, ch) \<in> leaves c \<and> ch \<in> set (subs_at (eb_subscribers b) t))) \<and>
    (\<forall>ch. buf (eb_store b') ch = buf (eb_store b) ch)"
  using UnSubscribe_released(1) [OF assms, of c] unfolding released_def by blast

section \<open>The merged stream\<close>

text \<open>The part of a log that belongs to a channel.\<close>

definition log_of :: "chan_id \<Rightarrow> (chan_id \<times> Event) list \<Rightarrow> Event list" where
  "log_of c l = map snd (filter (\<lambda>x. fst x = c) l)"

lemma log_of_simps [simp]:
  "log_of c [] = []" "log_of c (l @ l') = log_of c l @ log_of c l'"
  "log_of c [(d, e)] = (if d = c then [e] else [])"
  by (simp_all add: log_of_def)

text \<open>The message in the hands of the goroutine, and the empty event it ends with.\<close>

fun in_flight :: "pump_pc \<Rightarrow> Event list" where
  "in_flight (PumpSend e ok) = [e]"
| "in_flight PumpSelect = []"
| "in_flight PumpDone = []"

fun terminator :: "pump_pc \<Rightarrow> Event list" where
  "terminator (PumpSend e ok) = (if ok then [] else [e])"
| "terminator PumpSelect = []"
| "terminator PumpDone = [empty_event]"

definition pump_inv :: "Event store \<Rightarrow> pump \<Rightarrow> bool" where
  "pump_inv st0 p \<longleftrightarrow>
     (\<forall>c. buf st0 c @ log_of c (pp_sent p) = log_of c (pp_taken p) @ buf (pp_store p) c) \<and>
     pp_out p @ in_flight (pp_pc p) = map snd (pp_taken p) @ terminator (pp_pc p) \<and>
     (\<forall>e. pp_pc p = PumpSend e False \<longrightarrow> e = empty_event)"

lemma buf_cong: "st_chans s' c = st_chans s c \<Longrightarrow> buf s' c = buf s c"
  by (simp add: buf_def)

lemma try_send_buf_all:
  "try_send c v s = Ret (True, s') \<Longrightarrow> buf s' d = buf s d @ (if d = c then [v] else [])"
  using try_send_buf [of c v s s'] try_send_frame(3) [of c v s True s' d] buf_cong [of s' d s] by auto

lemma recv_buf_all:
  "recv c s = (Received v, s') \<Longrightarrow> buf s d = (if d = c then [v] else []) @ buf s' d"
  using recv_buf [of c s v s'] recv_frame(3) [of d c s] buf_cong [of s' d s] by auto

lemma recv_not_received: "recv c s = (r, s') \<Longrightarrow> (\<And>v. r \<noteq> Received v) \<Longrightarrow> s' = s"
  by (auto simp: recv_def split: option.splits list.splits if_splits)

lemma Merge_cases:
  assumes "Merge False chs pick st = Some ((ev, err), st')"
  obtains (received) c where "pick < length chs" "chs ! pick = Some c" "recv c st = (Received ev, st')" "err = None"
  | (closed) c where "pick < length chs" "chs ! pick = Some c" "recv c st = (Closed, st')" "st' = st"
      "ev = empty_event" "err = Some ErrChannelClosed"
  using assms
  by (auto simp: Merge_def Let_def dest: recv_not_received split: if_split_asm option.split_asm prod.split_asm recv.split_asm)

lemma pump_inv_step: "pump_step chs p p' \<Longrightarrow> pump_inv st0 p \<Longrightarrow> pump_inv st0 p'"
proof (induction rule: pump_step.induct)
  case (arrive c e p st)
  then show ?case
    by (auto simp: pump_inv_def try_send_buf_all)
next
  case (closes c p st)
  then show ?case
    by (simp add: pump_inv_def close_chan_frame)
next
  case (select p pick p')
  from select(2) obtain ev err st' where m: "Merge False chs pick (pp_store p) = Some ((ev, err), st')"
    by (auto simp: pump_select_def split: option.splits)
  from m show ?case
  proof (cases rule: Merge_cases)
    case (received c)
    then show ?thesis
      using select m by (auto simp: pump_inv_def pump_select_def recv_buf_all)
  next
    case (closed c)
    then show ?thesis
      using select m by (auto simp: pump_inv_def pump_select_def)
  qed
next
  case (hand p e ok)
  then show ?case
    by (auto simp: pump_inv_def)
qed

lemma pump_inv_init: "pump_inv st (pump_init st)"
  by (simp add: pump_inv_def pump_init_def)

lemma pump_inv_run:
  assumes "(pump_step chs)\<^sup>*\<^sup>* (pump_init st) p"
  shows "pump_inv st p"
  using assms by induction (auto intro: pump_inv_init pump_inv_step)

lemma pump_done_silent:
  assumes "(pump_step chs)\<^sup>*\<^sup>* p p'" and "pp_pc p = PumpDone"
  shows "pp_pc p' = PumpDone \<and> pp_out p' = pp_out p"
  using assms
proof (induction rule: rtranclp_induct)
  case (step p' p'')
  from step(2,3) step(4) show ?case
    by (cases rule: pump_step.cases) auto
qed simp

text \<open>A member that is closed and drained, and the reason for the empty event.\<close>

definition member_drained :: "chan_id option list \<Rightarrow> Event store \<Rightarrow> bool" where
  "member_drained chs st \<longleftrightarrow> (\<exists>c. Some c \<in> set chs \<and> fst (recv c st) = Closed)"

lemma recv_Closed_iff: "fst (recv c st) = Closed \<longleftrightarrow> (\<exists>ch. st_chans st c = Some ch \<and> ch_buf ch = [] \<and> ch_closed ch)"
  by (auto simp: recv_def split: option.split list.split)

lemma Closed_frame:
  assumes "fst (recv c st) = Closed"
  shows "try_send d e st = Ret (True, st') \<Longrightarrow> fst (recv c st') = Closed"
    and "close_chan d st = Ret st' \<Longrightarrow> fst (recv c st') = Closed"
    and "recv d st = (Received e, st') \<Longrightarrow> fst (recv c st') = Closed"
proof -
  obtain ch where ch: "st_chans st c = Some ch" "ch_buf ch = []" "ch_closed ch"
    using assms by (auto simp: recv_Closed_iff)
  show "try_send d e st = Ret (True, st') \<Longrightarrow> fst (recv c st') = Closed"
    using ch by (cases "d = c") (auto simp: recv_Closed_iff try_send_def split: option.split_asm if_split_asm)
  show "close_chan d st = Ret st' \<Longrightarrow> fst (recv c st') = Closed"
    using ch by (cases "d = c") (auto simp: recv_Closed_iff close_chan_def split: option.split_asm if_split_asm)
  show "recv d st = (Received e, st') \<Longrightarrow> fst (recv c st') = Closed"
    unfolding recv_Closed_iff using ch by (cases "d = c") (auto simp: recv_def split: option.split_asm list.split_asm if_split_asm)
qed

lemma pump_select_cases:
  assumes "pump_select chs pick p = Some p'"
  obtains (received) c ev where "recv c (pp_store p) = (Received ev, pp_store p')" "pp_pc p' = PumpSend ev True"
  | (ended) c where "Some c \<in> set chs" "fst (recv c (pp_store p)) = Closed" "pp_store p' = pp_store p"
proof -
  obtain ev err st' where m: "Merge False chs pick (pp_store p) = Some ((ev, err), st')"
    and p': "pp_store p' = st'" "pp_pc p' = PumpSend ev (case err of None \<Rightarrow> True | Some e \<Rightarrow> e \<noteq> ErrChannelClosed)"
    using assms by (auto simp: pump_select_def split: option.splits)
  from m show thesis
  proof (cases rule: Merge_cases)
    case (received c)
    then show thesis
      using that(1) p' by simp
  next
    case (closed c)
    then have "Some c \<in> set chs"
      by (metis nth_mem)
    then show thesis
      using that(2) closed p' by simp
  qed
qed

lemma drained_step: "pump_step chs p p' \<Longrightarrow> member_drained chs (pp_store p) \<Longrightarrow> member_drained chs (pp_store p')"
proof (induction rule: pump_step.induct)
  case (select p pick p')
  from select(2) show ?case
  proof (cases rule: pump_select_cases)
    case (received c ev)
    then show ?thesis
      using select(3) unfolding member_drained_def by (blast intro: Closed_frame(3))
  next
    case (ended c)
    then show ?thesis
      unfolding member_drained_def by auto
  qed
qed (auto simp: member_drained_def dest: Closed_frame(1,2))

lemma terminator_drained:
  assumes "(pump_step chs)\<^sup>*\<^sup>* (pump_init st) p" and "terminator (pp_pc p) \<noteq> []"
  shows "member_drained chs (pp_store p)"
  using assms
proof (induction rule: rtranclp_induct)
  case base
  then show ?case
    by (simp add: pump_init_def)
next
  case (step p p')
  show ?case
  proof (cases "terminator (pp_pc p) = []")
    case False
    then show ?thesis
      using step.IH drained_step [OF step.hyps(2)] by simp
  next
    case True
    from step.hyps(2) show ?thesis
    proof (cases rule: pump_step.cases)
      case (select pick)
      from select(2) show ?thesis
      proof (cases rule: pump_select_cases)
        case (received c ev)
        then show ?thesis
          using step.prems by simp
      next
        case (ended c)
        then show ?thesis
          unfolding member_drained_def by auto
      qed
    next
      case (hand e ok)
      then show ?thesis
        using True step.prems by (cases ok) simp_all
    qed (use True step.prems in simp_all)
  qed
qed

text \<open>C30:
  What the goroutine of a merge takes it hands out exactly once and in order: in every run
  the messages handed out, followed by the one in its hands, are the messages taken from the
  members in the order they were taken, followed, if the merge is ending, by one empty event;
  and for every channel what was taken, followed by what is still buffered, is what was
  buffered at the start followed by what was sent. The merge ends only because a member is
  closed and drained, and once it has ended it hands out nothing more: what the other members
  still hold, or receive later, stays in their buffers.
\<close>

theorem merged_stream_exact:
  assumes "(pump_step chs)\<^sup>*\<^sup>* (pump_init st) p"
  shows "pp_out p @ in_flight (pp_pc p) = map snd (pp_taken p) @ terminator (pp_pc p) \<and>
    log_of c (pp_taken p) @ buf (pp_store p) c = buf st c @ log_of c (pp_sent p) \<and>
    (terminator (pp_pc p) \<noteq> [] \<longrightarrow> member_drained chs (pp_store p)) \<and>
    (pp_pc p = PumpDone \<longrightarrow> (\<forall>p'. (pump_step chs)\<^sup>*\<^sup>* p p' \<longrightarrow> pp_out p' = pp_out p))"
proof (intro conjI impI allI)
  fix p'
  assume "pp_pc p = PumpDone" and "(pump_step chs)\<^sup>*\<^sup>* p p'"
  then show "pp_out p' = pp_out p"
    by (simp add: pump_done_silent)
qed (use pump_inv_run [OF assms] terminator_drained [OF assms] in \<open>simp_all add: pump_inv_def\<close>)

definition demo_chans :: "Event store" where
  "demo_chans = \<lparr>st_chans = [0 \<mapsto> \<lparr>ch_buf = [], ch_cap = 10, ch_closed = True\<rparr>,
     1 \<mapsto> \<lparr>ch_buf = [sample_event], ch_cap = 10, ch_closed = False\<rparr>], st_next = 2\<rparr>"

theorem merged_stream_exact_witness:
  "\<exists>p. (pump_step [Some 0, Some 1])\<^sup>*\<^sup>* (pump_init demo_chans) p \<and> pp_taken p = [(1, sample_event)] \<and>
     pp_out p @ in_flight (pp_pc p) = [sample_event] @ terminator (pp_pc p)"
proof -
  let ?p = "the (pump_select [Some 0, Some 1] 1 (pump_init demo_chans))"
  have sel: "pump_select [Some 0, Some 1] 1 (pump_init demo_chans) = Some ?p" and tk: "pp_taken ?p = [(1, sample_event)]"
    by (simp_all add: pump_select_def Merge_def recv_def demo_chans_def pump_init_def)
  have "(pump_step [Some 0, Some 1])\<^sup>*\<^sup>* (pump_init demo_chans) ?p"
    using pump_step.select [OF _ sel] by (simp add: pump_init_def)
  then show ?thesis
    using tk merged_stream_exact [of "[Some 0, Some 1]" demo_chans ?p] by auto
qed

text \<open>
  One closed member ends the merge for all: as soon as some member's channel is closed and
  drained, the goroutine can hand out an empty event and stop for good, whatever the other
  members still hold or receive.
\<close>

theorem merge_ends_with_first_closed:
  assumes "pp_pc p = PumpSelect" and "Some c \<in> set chs" and "recv c (pp_store p) = (Closed, st)"
  shows "\<exists>p'. (pump_step chs)\<^sup>*\<^sup>* p p' \<and> pp_out p' = pp_out p @ [empty_event] \<and> pp_store p' = pp_store p \<and>
    (\<forall>p''. (pump_step chs)\<^sup>*\<^sup>* p' p'' \<longrightarrow> pp_out p'' = pp_out p')"
proof -
  obtain i where i: "i < length chs" "chs ! i = Some c"
    using assms(2) by (auto simp: in_set_conv_nth)
  let ?p1 = "p\<lparr>pp_pc := PumpSend empty_event False\<rparr>"
  let ?p2 = "?p1\<lparr>pp_out := pp_out p @ [empty_event], pp_pc := PumpDone\<rparr>"
  have "pump_select chs i p = Some ?p1"
    using i assms(3) recv_not_received [OF assms(3)] by (simp add: pump_select_def Merge_def)
  then have "pump_step chs p ?p1"
    by (rule pump_step.select [OF assms(1)])
  moreover have "pump_step chs ?p1 ?p2"
    using pump_step.hand [of ?p1 empty_event False chs] by simp
  ultimately have "(pump_step chs)\<^sup>*\<^sup>* p ?p2"
    by (meson converse_rtranclp_into_rtranclp r_into_rtranclp)
  then show ?thesis
    using pump_done_silent [of chs ?p2] by (intro exI [of _ ?p2]) auto
qed

theorem merge_ends_with_first_closed_witness:
  "buf demo_chans 1 = [sample_event] \<and>
   (\<exists>p'. (pump_step [Some 0, Some 1])\<^sup>*\<^sup>* (pump_init demo_chans) p' \<and> pp_out p' = [empty_event] \<and>
     (\<forall>p''. (pump_step [Some 0, Some 1])\<^sup>*\<^sup>* p' p'' \<longrightarrow> pp_out p'' = [empty_event]))"
proof -
  have closed: "recv 0 (pp_store (pump_init demo_chans)) = (Closed, demo_chans)"
    by (simp add: recv_def pump_init_def demo_chans_def)
  have init: "pp_pc (pump_init demo_chans) = PumpSelect" "pp_out (pump_init demo_chans) = []"
    by (simp_all add: pump_init_def)
  have mem: "Some 0 \<in> set [Some 0, Some 1]"
    by simp
  obtain p' where "(pump_step [Some 0, Some 1])\<^sup>*\<^sup>* (pump_init demo_chans) p'"
    and out: "pp_out p' = pp_out (pump_init demo_chans) @ [empty_event]"
    and "\<forall>p''. (pump_step [Some 0, Some 1])\<^sup>*\<^sup>* p' p'' \<longrightarrow> pp_out p'' = pp_out p'"
    using merge_ends_with_first_closed [OF init(1) mem closed] by blast
  moreover have "pp_out p' = [empty_event]"
    using out by (simp add: init(2))
  moreover have "buf demo_chans 1 = [sample_event]"
    by (simp add: buf_def demo_chans_def)
  ultimately show ?thesis by metis
qed

text \<open>The nil channels in front of a set's channels are never picked.\<close>

lemma OnEventSync_set_nil:
  "pick < length cs \<Longrightarrow> OnEventSync (EventConsumerSet cs m) ctx_done pick st = None"
  "OnEventSync (EventConsumerSet cs m) ctx_done (length cs + pick) st =
     map_option (\<lambda>((e, err), st'). (e, st')) (Merge ctx_done (map (Some \<circ> OnEvent) cs) pick st)"
  by (auto simp: Merge_def Let_def nth_append split: option.splits prod.splits)

end
