(* ===== verification/Bus_Provenance.thy ===== *)
theory Bus_Provenance
  imports Bus_Concurrency Consumers
begin

text \<open>
  Where the events in the channels of the bus come from: every event a channel holds was
  published on a topic that the channel's subscription covers, however workers, publishers,
  subscribers, consumers and the shutdown interleave.
\<close>

section \<open>What the queue may hand out\<close>

text \<open>The queue hands out only items that were added to it; \<open>pend\<close> are the items it has.\<close>

definition source_contract :: "'q workqueue_ops \<Rightarrow> ('q \<Rightarrow> item set) \<Rightarrow> bool" where
  "source_contract wq pend \<longleftrightarrow>
     (\<forall>i q. pend (wq_Add wq i q) \<subseteq> insert i (pend q)) \<and>
     (\<forall>i q. pend (wq_AddRateLimited wq i q) \<subseteq> insert i (pend q)) \<and>
     (\<forall>i q q'. wq_Get wq q = Some (Some i, q') \<longrightarrow> i \<in> pend q \<and> pend q' \<subseteq> pend q) \<and>
     (\<forall>i q. pend (wq_Done wq i q) \<subseteq> pend q \<and> pend (wq_Forget wq i q) \<subseteq> pend q) \<and>
     (\<forall>q. pend (wq_ShutDownWithDrain wq q) \<subseteq> pend q)"

lemma source_contractD:
  assumes "source_contract wq pend"
  shows "i \<in> pend (wq_Add wq j q) \<Longrightarrow> i = j \<or> i \<in> pend q"
    and "i \<in> pend (wq_AddRateLimited wq j q) \<Longrightarrow> i = j \<or> i \<in> pend q"
    and "wq_Get wq q = Some (Some i, q') \<Longrightarrow> i \<in> pend q"
    and "wq_Get wq q = Some (Some j, q') \<Longrightarrow> i \<in> pend q' \<Longrightarrow> i \<in> pend q"
    and "i \<in> pend (wq_Done wq j q) \<Longrightarrow> i \<in> pend q" and "i \<in> pend (wq_Forget wq j q) \<Longrightarrow> i \<in> pend q"
    and "i \<in> pend (wq_ShutDownWithDrain wq q) \<Longrightarrow> i \<in> pend q"
  using assms unfolding source_contract_def by blast+

lemma fifo_source: "source_contract fifo_ops (\<lambda>q. set (fst q))"
  by (auto simp: source_contract_def fifo_ops_def fifo_add_def split: list.splits if_splits)

section \<open>The invariant\<close>

text \<open>
  \<open>may t e\<close>: event \<open>e\<close> may be published on topic \<open>t\<close>; \<open>f c\<close>: the topic that channel \<open>c\<close> was made
  for.
\<close>

definition vouched :: "(string \<Rightarrow> Event \<Rightarrow> bool) \<Rightarrow> string \<Rightarrow> Event \<Rightarrow> bool" where
  "vouched may p ev \<longleftrightarrow> (\<exists>t. may t ev \<and> topic_covers p t)"

definition bus_prov :: "(string \<Rightarrow> Event \<Rightarrow> bool) \<Rightarrow> ('q \<Rightarrow> item set) \<Rightarrow> (chan_id \<Rightarrow> string) \<Rightarrow> 'q bus_sys \<Rightarrow> bool" where
  "bus_prov may pend f s \<longleftrightarrow>
     (\<forall>m. MessageItem m \<in> pend (eb_workqueue (bs_bus s)) \<longrightarrow> may (msg_topic m) (msg_event m)) \<and>
     (\<forall>w m. bs_worker s w = Fetched (MessageItem m) \<longrightarrow> may (msg_topic m) (msg_event m)) \<and>
     (\<forall>w m cs. bs_worker s w = Delivering m cs \<longrightarrow>
        may (msg_topic m) (msg_event m) \<and> (\<forall>c \<in> set cs. topic_covers (f c) (msg_topic m))) \<and>
     (\<forall>t c. c \<in> set (subs_at (eb_subscribers (bs_bus s)) t) \<longrightarrow> f c = t) \<and>
     (\<forall>c. \<forall>ev \<in> set (buf (eb_store (bs_bus s)) c). vouched may (f c) ev)"

lemma bus_provD:
  assumes "bus_prov may pend f s"
  shows "MessageItem m \<in> pend (eb_workqueue (bs_bus s)) \<Longrightarrow> may (msg_topic m) (msg_event m)"
    and "bs_worker s w = Fetched (MessageItem m) \<Longrightarrow> may (msg_topic m) (msg_event m)"
    and "bs_worker s w = Delivering m cs \<Longrightarrow> may (msg_topic m) (msg_event m)"
    and "bs_worker s w = Delivering m cs \<Longrightarrow> c \<in> set cs \<Longrightarrow> topic_covers (f c) (msg_topic m)"
    and "c \<in> set (subs_at (eb_subscribers (bs_bus s)) t) \<Longrightarrow> f c = t"
    and "ev \<in> set (buf (eb_store (bs_bus s)) c) \<Longrightarrow> vouched may (f c) ev"
  using assms unfolding bus_prov_def by blast+

text \<open>How the parts of the system may change.\<close>

lemma bus_prov_change:
  assumes "bus_prov may pend f s"
    and "\<And>m. MessageItem m \<in> pend (eb_workqueue (bs_bus s')) \<Longrightarrow>
      MessageItem m \<in> pend (eb_workqueue (bs_bus s)) \<or> may (msg_topic m) (msg_event m)"
    and "\<And>w m. bs_worker s' w = Fetched (MessageItem m) \<Longrightarrow>
      bs_worker s w = Fetched (MessageItem m) \<or> MessageItem m \<in> pend (eb_workqueue (bs_bus s))"
    and "\<And>w m cs. bs_worker s' w = Delivering m cs \<Longrightarrow> may (msg_topic m) (msg_event m) \<and>
      (\<forall>c \<in> set cs. topic_covers (f c) (msg_topic m))"
    and "\<And>t c. c \<in> set (subs_at (eb_subscribers (bs_bus s')) t) \<Longrightarrow> c \<in> set (subs_at (eb_subscribers (bs_bus s)) t)"
    and "\<And>c ev. ev \<in> set (buf (eb_store (bs_bus s')) c) \<Longrightarrow> ev \<in> set (buf (eb_store (bs_bus s)) c) \<or> vouched may (f c) ev"
  shows "bus_prov may pend f s'"
  unfolding bus_prov_def using assms(2-6) bus_provD [OF assms(1)] by (intro conjI allI impI ballI; meson)

lemma vouchedI: "may t ev \<Longrightarrow> topic_covers p t \<Longrightarrow> vouched may p ev"
  by (auto simp: vouched_def)

lemma try_send_events:
  "try_send c v st = Ret (ok, st') \<Longrightarrow> ev \<in> set (buf st' d) \<Longrightarrow> ev \<in> set (buf st d) \<or> (d = c \<and> ev = v)"
  by (auto simp: try_send_def buf_def split: option.split_asm if_split_asm)

lemma recv_events: "ev \<in> set (buf (snd (recv c st)) d) \<Longrightarrow> ev \<in> set (buf st d)"
  by (auto simp: recv_def buf_def split: option.splits list.split_asm if_split_asm)

lemma close_chan_buf: "close_chan c st = Ret st' \<Longrightarrow> buf st' d = buf st d"
  by (auto simp: close_chan_def buf_def split: option.splits if_split_asm)

lemma bus_prov_internal:
  assumes "source_contract wq pend" and "bus_internal wq finished s s'" and "bus_prov may pend f s"
  shows "bus_prov may pend f s'"
  using assms(2,3)
proof (induction rule: bus_internal.induct)
  case (match s w m)
  have "topic_covers (f c) (msg_topic m)" if "c \<in> set (matched m (bs_bus s))" for c
    using that bus_provD(5) [OF match(2)] by (auto simp: matched_def set_SubscriberMatch)
  then show ?case
    using match bus_provD [OF match(2)] by (intro bus_prov_change [OF match(2)]) (auto split: if_split_asm)
next
  case (send s w m c cs st)
  note prov = bus_provD [OF send(3)]
  have "vouched may (f c) (msg_event m)"
    using prov(3,4) [OF send(1)] by (auto intro: vouchedI)
  then show ?case
    using send prov by (intro bus_prov_change [OF send(3)]) (auto split: if_split_asm dest!: try_send_events [OF send(2)])
next
  case (send_full s w m c cs st)
  note prov = bus_provD [OF send_full(3)]
  have "vouched may (f c) (msg_event m)"
    using prov(3,4) [OF send_full(1)] by (auto intro: vouchedI)
  then show ?case
    using send_full prov by (intro bus_prov_change [OF send_full(3)])
      (auto simp: queue_done_def split: if_split_asm dest!: try_send_events [OF send_full(2)]
        source_contractD(2,5) [OF assms(1)])
next
  case (close s c cs st)
  then show ?case
    using bus_provD [OF close(3)] by (intro bus_prov_change [OF close(3)]) (auto simp: close_chan_buf [OF close(2)])
next
  case (fetch s w obj q)
  then show ?case
    using bus_provD [OF fetch(3)] source_contractD(3,4) [OF assms(1) fetch(2)]
    by (intro bus_prov_change [OF fetch(3)]) (auto split: if_split_asm)
next
  case (foreign s w x)
  then show ?case
    using bus_provD [OF foreign(2)] by (intro bus_prov_change [OF foreign(2)])
      (auto simp: queue_done_def split: if_split_asm dest!: source_contractD(5,6) [OF assms(1)])
next
  case (delivered s w m)
  then show ?case
    using bus_provD [OF delivered(2)] by (intro bus_prov_change [OF delivered(2)])
      (auto simp: queue_done_def split: if_split_asm dest!: source_contractD(5,6) [OF assms(1)])
next
  case (shutdown s)
  then show ?case
    using bus_provD [OF shutdown(2)] by (intro bus_prov_change [OF shutdown(2)])
      (auto dest!: source_contractD(7) [OF assms(1)])
next
  case (clear s)
  then show ?case
    using bus_provD [OF clear(2)] by (intro bus_prov_change [OF clear(2)]) (auto simp: subs_at_def)
qed (simp_all add: bus_prov_def crash_def)

lemma bus_prov_publish:
  assumes "source_contract wq pend" and "bus_prov may pend f s" and "may t e"
  shows "bus_prov may pend f (set_bus (snd (Publish wq t e (bs_bus s))) s)"
  using assms(3) bus_provD [OF assms(2)]
  by (intro bus_prov_change [OF assms(2)]) (auto simp: Publish_def dest!: source_contractD(1) [OF assms(1)])

lemma bus_prov_receive:
  assumes "bus_prov may pend f s"
  shows "bus_prov may pend f (set_bus ((bs_bus s)\<lparr>eb_store := snd (recv c (eb_store (bs_bus s)))\<rparr>) s)"
  using bus_provD [OF assms] by (intro bus_prov_change [OF assms]) (auto dest!: recv_events)

lemma bus_prov_released:
  assumes "bus_prov may pend f s" and "released L (bs_bus s) b"
  shows "bus_prov may pend f (set_bus b s)"
  using assms(2) bus_provD [OF assms(1)] by (intro bus_prov_change [OF assms(1)]) (auto simp: released_def)

text \<open>A subscription makes a new channel, which gets the topic of the subscription.\<close>

lemma subscribed_allocated: "bus_inv b \<Longrightarrow> c \<in> set (subs_at (eb_subscribers b) t) \<Longrightarrow> c < st_next (eb_store b)"
  using bus_invD(3,4) [of b] subs_at_subscribed [of c b t]
  by (fastforce simp: wf_store_def chan_open_def split: option.split_asm)

lemma buf_make_chan: "buf (snd (make_chan n st)) d = (if d = st_next st then [] else buf st d)"
  by (simp add: make_chan_def buf_def)

lemma bus_prov_subscribe:
  assumes "bus_prov may pend f s" and "bus_inv (bs_bus s)" and "no_reader s"
  shows "bus_prov may pend (f(st_next (eb_store (bs_bus s)) := t)) (set_bus (snd (Subscribe t (bs_bus s))) s)"
proof -
  have "st_next (eb_store (bs_bus s)) \<notin> set (subs_at (eb_subscribers (bs_bus s)) u)" for u
    using subscribed_allocated [OF assms(2)] by blast
  then show ?thesis
    using bus_provD [OF assms(1)] assms(3) unfolding bus_prov_def no_reader_def
    by (auto simp: Subscribe_def split_beta subs_at_put buf_make_chan split: if_split_asm)
qed

end
