(* ===== verification/Api_CounterMeasure.thy ===== *)
theory Api_CounterMeasure
  imports Manager_Base
begin

text \<open>
  \<open>apis/countermeasure/v1alpha1\<close>: the custom resource \<open>CounterMeasure\<close>, its validation and
  its admission webhook. A pointer field of a Go struct is an \<open>option\<close>.
\<close>

section \<open>The resource\<close>

record ObjectReference =
  or_Namespace :: string
  or_Name :: string
  or_Kind :: string
  or_ApiVersion :: string

record PodReference =
  pr_Namespace :: string
  pr_Name :: string
  pr_Container :: string

record DeploymentReference =
  dr_Namespace :: string
  dr_Name :: string

text \<open>Durations and times are nanoseconds.\<close>

record SuppressionPolicySpec =
  sp_Duration :: "int option"

text \<open>\<open>metav1.LabelSelector\<close>\<close>

record LabelSelector =
  ls_MatchLabels :: "(string, string) gomap"
  ls_MatchExpressions :: "(string \<times> string \<times> string list) list"

record OnEventSpec =
  oe_EventName :: string
  oe_SourceSelector :: "LabelSelector option"
  oe_SuppressionPolicy :: "SuppressionPolicySpec option"

record DebugSpec =
  db_Name :: string
  db_Command :: "string list"
  db_Args :: "string list"
  db_Image :: string
  db_PodRef :: PodReference
  db_StdIn :: bool
  db_TTY :: bool

record PatchSpec =
  pt_TargetObjectRef :: ObjectReference
  pt_PatchType :: string
  pt_YAMLTemplate :: string

record DeleteSpec =
  dl_TargetObjectRef :: ObjectReference

record RestartSpec =
  rs_DeploymentRef :: DeploymentReference

record Action =
  ac_Name :: string
  ac_RetryEnabled :: bool
  ac_Delete :: "DeleteSpec option"
  ac_Patch :: "PatchSpec option"
  ac_Debug :: "DebugSpec option"
  ac_Restart :: "RestartSpec option"

record CounterMeasureSpec =
  cs_OnEvent :: OnEventSpec
  cs_Actions :: "Action list"
  cs_DryRun :: bool

text \<open>\<open>metav1.Condition\<close>\<close>

record Condition =
  co_Type :: string
  co_Status :: string
  co_ObservedGeneration :: int
  co_LastTransitionTime :: int
  co_Reason :: string
  co_Message :: string

type_synonym StatusType = string

definition Monitoring :: StatusType where "Monitoring = ''Monitoring''"
definition Applying :: StatusType where "Applying = ''Applying''"
definition StatusError :: StatusType where "StatusError = ''Error''"
definition StatusUnknown :: StatusType where "StatusUnknown = ''Unknown''"

definition ReasonSucceeded :: string where "ReasonSucceeded = ''Succeeded''"
definition ReasonReconciling :: string where "ReasonReconciling = ''Reconciling''"
definition TypeMonitoring :: string where "TypeMonitoring = ''Monitoring''"

record CounterMeasureStatus =
  cx_LastStatus :: StatusType
  cx_LastStatusChangeTime :: "int option"
  cx_Conditions :: "Condition list"

record CounterMeasure =
  cm_ObjectMeta :: ObjectMeta
  cm_Spec :: CounterMeasureSpec
  cm_Status :: CounterMeasureStatus

text \<open>\<open>schema.GroupVersionKind\<close>\<close>

record GroupVersionKind =
  gvk_Group :: string
  gvk_Version :: string
  gvk_Kind :: string

text \<open>\<open>schema.ParseGroupVersion\<close> is a parameter: it gives the group and the version.\<close>

definition ToGroupVersionKind :: "(string \<Rightarrow> goerror + (string \<times> string)) \<Rightarrow> ObjectReference \<Rightarrow> goerror + GroupVersionKind" where
  "ToGroupVersionKind ParseGroupVersion r =
     (case ParseGroupVersion (or_ApiVersion r) of
        Inl err \<Rightarrow> Inl err
      | Inr (g, v) \<Rightarrow> Inr \<lparr>gvk_Group = g, gvk_Version = v, gvk_Kind = or_Kind r\<rparr>)"

section \<open>Validation\<close>

text \<open>
  \<open>errors.NewAggregate\<close> of apimachinery is a parameter; it is documented to return nil
  exactly for an empty list of (non-nil) errors.
\<close>

definition aggregate_contract :: "(goerror list \<Rightarrow> goerror option) \<Rightarrow> bool" where
  "aggregate_contract NewAggregate \<longleftrightarrow> (\<forall>es. NewAggregate es = None \<longleftrightarrow> es = [])"

definition ValidateOnEvent :: "OnEventSpec \<Rightarrow> goerror option" where
  "ValidateOnEvent e =
     (if length (oe_EventName e) = 0 then Some (Errorf ''event name is required'') else None)"

text \<open>The pointer fields of \<open>Action\<close> in the order of the struct: whether each is non-nil.\<close>

definition pointer_fields :: "Action \<Rightarrow> bool list" where
  "pointer_fields a = [ac_Delete a \<noteq> None, ac_Patch a \<noteq> None, ac_Debug a \<noteq> None, ac_Restart a \<noteq> None]"

fun count_set :: "bool list \<Rightarrow> nat" where
  "count_set [] = 0"
| "count_set (f # fs) = (if f then Suc (count_set fs) else count_set fs)"

definition action_errors :: "Action \<Rightarrow> goerror list" where
  "action_errors a =
     (case ac_Debug a of
        None \<Rightarrow> []
      | Some d \<Rightarrow>
          if length (db_Image d) = 0
          then [Errorf (''debug config for action '' @ quoted (ac_Name a) @ '' requires a image name'')]
          else []) @
     (let count = count_set (pointer_fields a)
      in (if count = 0 then [Errorf (''action '' @ quoted (ac_Name a) @ '' must define one action type'')] else []) @
         (if count > 1 then [Errorf ''each action should only have 1 defined action type''] else []))"

definition ValidateAction :: "(goerror list \<Rightarrow> goerror option) \<Rightarrow> Action \<Rightarrow> goerror option" where
  "ValidateAction NewAggregate a = NewAggregate (action_errors a)"

definition opt_list :: "'a option \<Rightarrow> 'a list" where
  "opt_list x = (case x of None \<Rightarrow> [] | Some y \<Rightarrow> [y])"

definition ValidateSpec :: "(goerror list \<Rightarrow> goerror option) \<Rightarrow> CounterMeasureSpec \<Rightarrow> goerror option" where
  "ValidateSpec NewAggregate spec =
     NewAggregate
       (opt_list (ValidateOnEvent (cs_OnEvent spec)) @
        (if length (cs_Actions spec) \<noteq> 0
         then concat (map (\<lambda>action. opt_list (ValidateAction NewAggregate action)) (cs_Actions spec))
         else [Errorf ''one or more actions are required'']))"

section \<open>The admission webhook\<close>

text \<open>
  \<open>Default\<close>: the loop variable of \<open>range\<close> is a copy of the element, so the assignment
  writes the copy. The loop state is the slice and the variable.
\<close>

fun default_loop :: "nat \<Rightarrow> nat \<Rightarrow> Action list \<Rightarrow> Action option \<Rightarrow> Action list \<times> Action option" where
  "default_loop i 0 actions var = (actions, var)"
| "default_loop i (Suc n) actions var =
     (let var' = (actions ! i)\<lparr>ac_RetryEnabled := True\<rparr>
      in default_loop (Suc i) n actions (Some var'))"

definition CounterMeasure_Default :: "CounterMeasure \<Rightarrow> CounterMeasure" where
  "CounterMeasure_Default r =
     (let actions = cs_Actions (cm_Spec r);
          (actions', var) = default_loop 0 (length actions) actions None
      in r\<lparr>cm_Spec := (cm_Spec r)\<lparr>cs_Actions := actions'\<rparr>\<rparr>)"

definition ValidateCreate :: "(goerror list \<Rightarrow> goerror option) \<Rightarrow> CounterMeasure \<Rightarrow> goerror option" where
  "ValidateCreate NewAggregate r = ValidateSpec NewAggregate (cm_Spec r)"

definition ValidateUpdate :: "(goerror list \<Rightarrow> goerror option) \<Rightarrow> CounterMeasure \<Rightarrow> CounterMeasure \<Rightarrow> goerror option" where
  "ValidateUpdate NewAggregate r old = ValidateSpec NewAggregate (cm_Spec r)"

definition ValidateDelete :: "CounterMeasure \<Rightarrow> goerror option" where
  "ValidateDelete r = None"

section \<open>What validation accepts\<close>

text \<open>The action types an action defines, as a set of names.\<close>

definition action_types :: "Action \<Rightarrow> string set" where
  "action_types a =
     {t. t = ''delete'' \<and> ac_Delete a \<noteq> None \<or> t = ''patch'' \<and> ac_Patch a \<noteq> None \<or>
         t = ''debug'' \<and> ac_Debug a \<noteq> None \<or> t = ''restart'' \<and> ac_Restart a \<noteq> None}"

definition valid_action :: "Action \<Rightarrow> bool" where
  "valid_action a \<longleftrightarrow> (\<exists>t. action_types a = {t}) \<and>
     (\<forall>d. ac_Debug a = Some d \<longrightarrow> db_Image d \<noteq> [])"

definition valid_spec :: "CounterMeasureSpec \<Rightarrow> bool" where
  "valid_spec spec \<longleftrightarrow>
     oe_EventName (cs_OnEvent spec) \<noteq> [] \<and> cs_Actions spec \<noteq> [] \<and> (\<forall>a \<in> set (cs_Actions spec). valid_action a)"

lemma action_types_insert:
  "action_types a =
     (if ac_Delete a \<noteq> None then {''delete''} else {}) \<union> (if ac_Patch a \<noteq> None then {''patch''} else {}) \<union>
     (if ac_Debug a \<noteq> None then {''debug''} else {}) \<union> (if ac_Restart a \<noteq> None then {''restart''} else {})"
  by (auto simp: action_types_def)

lemma card_action_types: "card (action_types a) = count_set (pointer_fields a)"
  by (auto simp: action_types_insert pointer_fields_def)

lemma count_set_one: "count_set (pointer_fields a) = Suc 0 \<longleftrightarrow> (\<exists>t. action_types a = {t})"
  by (metis card_action_types card_1_singleton_iff One_nat_def)

lemma action_errors_empty: "action_errors a = [] \<longleftrightarrow> valid_action a"
proof -
  have "action_errors a = [] \<longleftrightarrow>
      count_set (pointer_fields a) = Suc 0 \<and> (\<forall>d. ac_Debug a = Some d \<longrightarrow> db_Image d \<noteq> [])"
    by (auto simp: action_errors_def Let_def split: option.splits)
  then show ?thesis
    by (simp add: valid_action_def count_set_one)
qed

lemma aggregate_None: "aggregate_contract A \<Longrightarrow> A es = None \<longleftrightarrow> es = []"
  by (simp add: aggregate_contract_def)

lemma ValidateAction_None: "aggregate_contract A \<Longrightarrow> ValidateAction A a = None \<longleftrightarrow> valid_action a"
  by (simp add: ValidateAction_def aggregate_None action_errors_empty)

lemma opt_list_Nil [simp]: "opt_list x = [] \<longleftrightarrow> x = None"
  by (cases x) (simp_all add: opt_list_def)

lemma ValidateSpec_actions:
  assumes "aggregate_contract A" and "ValidateSpec A spec = None"
  shows "\<forall>a \<in> set (cs_Actions spec). valid_action a"
  using assms ValidateAction_None [OF assms(1)]
  by (auto simp: ValidateSpec_def aggregate_None split: if_split_asm)

lemma ValidateSpec_None: "aggregate_contract A \<Longrightarrow> ValidateSpec A spec = None \<longleftrightarrow> valid_spec spec"
  using ValidateAction_None [of A]
  by (auto simp: ValidateSpec_def aggregate_None [of A] valid_spec_def ValidateOnEvent_def)

text \<open>C27:
  Validation is exact: a spec is accepted if and only if it names an event and has at least
  one action, and every action sets exactly one of delete, patch, debug and restart, with an
  image when it is debug.
\<close>

theorem ValidateSpec_exact:
  assumes "aggregate_contract NewAggregate"
  shows "ValidateSpec NewAggregate spec = None \<longleftrightarrow> valid_spec spec"
  by (rule ValidateSpec_None [OF assms])

definition plain_aggregate :: "goerror list \<Rightarrow> goerror option" where
  "plain_aggregate es = (if es = [] then None else Some (Aggregate es))"

lemma plain_aggregate_contract: "aggregate_contract plain_aggregate"
  by (simp add: aggregate_contract_def plain_aggregate_def)

definition sample_delete :: Action where
  "sample_delete = \<lparr>ac_Name = ''delete-pod'', ac_RetryEnabled = False,
     ac_Delete = Some \<lparr>dl_TargetObjectRef = \<lparr>or_Namespace = ''ns'', or_Name = ''pod-0'', or_Kind = ''Pod'', or_ApiVersion = ''v1''\<rparr>\<rparr>,
     ac_Patch = None, ac_Debug = None, ac_Restart = None\<rparr>"

definition sample_spec :: CounterMeasureSpec where
  "sample_spec =
     \<lparr>cs_OnEvent = \<lparr>oe_EventName = ''HighCpu'', oe_SourceSelector = None,
        oe_SuppressionPolicy = Some \<lparr>sp_Duration = Some 120\<rparr>\<rparr>,
      cs_Actions = [sample_delete], cs_DryRun = False\<rparr>"

definition sample_cm :: CounterMeasure where
  "sample_cm =
     \<lparr>cm_ObjectMeta = \<lparr>om_Namespace = ''ns'', om_Name = ''cm'', om_Generation = 1\<rparr>, cm_Spec = sample_spec,
      cm_Status = \<lparr>cx_LastStatus = '''', cx_LastStatusChangeTime = None, cx_Conditions = []\<rparr>\<rparr>"

theorem ValidateSpec_exact_witness:
  "aggregate_contract plain_aggregate \<and> ValidateSpec plain_aggregate sample_spec = None \<and> valid_spec sample_spec"
proof -
  have "ValidateSpec plain_aggregate sample_spec = None"
    by code_simp
  then show ?thesis
    using plain_aggregate_contract ValidateSpec_exact [OF plain_aggregate_contract, of sample_spec] by simp
qed

lemma default_loop_frame: "fst (default_loop i n actions var) = actions"
  by (induction i n actions var rule: default_loop.induct) (simp_all add: Let_def)

text \<open>
  The defaulting webhook changes nothing: in particular an action that was admitted with
  retries disabled still has them disabled, although the loop means to enable them.
\<close>

theorem CounterMeasure_Default_no_effect:
  "CounterMeasure_Default r = r"
  using default_loop_frame [of 0 "length (cs_Actions (cm_Spec r))" "cs_Actions (cm_Spec r)" None]
  by (simp add: CounterMeasure_Default_def Let_def split_beta)

end
