(* ===== verification/Action_State.thy ===== *)
theory Action_State
  imports Events Api_CounterMeasure
begin

text \<open>
  \<open>pkg/actions/state/state.go\<close>: which countermeasures are deployed, which of them run, and
  until when repeated events are suppressed. Entries are shared by pointer between the map
  and the goroutines that handle events, so they live in a store of their own and the map
  holds addresses. Times are nanoseconds; every reading of the clock is an argument.
\<close>

section \<open>State\<close>

record Entry =
  en_Name :: string
  en_Countermeasure :: CounterMeasure
  en_running :: bool
  en_lastRuns :: "(string, int) gomap"

record ActionState =
  as_counterMeasures :: "(ObjectKey, nat) gomap"
  as_entries :: "nat \<Rightarrow> Entry option"
  as_next :: nat

section \<open>Operations\<close>

definition NewState :: ActionState where
  "NewState = \<lparr>as_counterMeasures = [], as_entries = (\<lambda>_. None), as_next = 0\<rparr>"

text \<open>The entry a key leads to.\<close>

definition entry_at :: "ActionState \<Rightarrow> ObjectKey \<Rightarrow> (nat \<times> Entry) option" where
  "entry_at s key =
     (case map_of (as_counterMeasures s) key of
        None \<Rightarrow> None
      | Some a \<Rightarrow> (case as_entries s a of None \<Rightarrow> None | Some e \<Rightarrow> Some (a, e)))"

definition set_entry :: "nat \<Rightarrow> Entry \<Rightarrow> ActionState \<Rightarrow> ActionState" where
  "set_entry a e s = s\<lparr>as_entries := (as_entries s)(a \<mapsto> e)\<rparr>"

definition IsRunning :: "ObjectKey \<Rightarrow> ActionState \<Rightarrow> bool" where
  "IsRunning key s = (case entry_at s key of None \<Rightarrow> False | Some (a, e) \<Rightarrow> en_running e)"

text \<open>
  A missing key reads as the nil pointer, and locking the mutex of a nil entry is a nil
  dereference.
\<close>

definition CounterMeasureStart :: "int \<Rightarrow> Event \<Rightarrow> ObjectKey \<Rightarrow> ActionState \<Rightarrow> ActionState go" where
  "CounterMeasureStart now event key s =
     (case entry_at s key of
        None \<Rightarrow> Panics ''nil pointer dereference''
      | Some (a, e) \<Rightarrow>
          (let e1 = e\<lparr>en_running := True\<rparr>;
               policy = oe_SuppressionPolicy (cs_OnEvent (cm_Spec (en_Countermeasure e)))
           in Ret (set_entry a
                (case policy of
                   None \<Rightarrow> e1
                 | Some p \<Rightarrow>
                     (case sp_Duration p of
                        None \<Rightarrow> e1
                      | Some d \<Rightarrow> e1\<lparr>en_lastRuns := map_put (event_Key event) (now + d) (en_lastRuns e1)\<rparr>)) s)))"

definition CounterMeasureEnd :: "Event \<Rightarrow> ObjectKey \<Rightarrow> ActionState \<Rightarrow> ActionState go" where
  "CounterMeasureEnd event key s =
     (case entry_at s key of
        None \<Rightarrow> Panics ''nil pointer dereference''
      | Some (a, e) \<Rightarrow> Ret (set_entry a (e\<lparr>en_running := False\<rparr>) s))"

definition IsDeployed :: "ObjectKey \<Rightarrow> ActionState \<Rightarrow> bool" where
  "IsDeployed key s = (map_of (as_counterMeasures s) key \<noteq> None)"

definition state_Remove :: "NamespacedName \<Rightarrow> ActionState \<Rightarrow> ActionState" where
  "state_Remove name s = s\<lparr>as_counterMeasures := remove_name name (as_counterMeasures s)\<rparr>"

definition new_entry :: "CounterMeasure \<Rightarrow> Entry" where
  "new_entry cm =
     \<lparr>en_Name = oe_EventName (cs_OnEvent (cm_Spec cm)), en_Countermeasure = cm, en_running = False, en_lastRuns = []\<rparr>"

definition state_Add :: "CounterMeasure \<Rightarrow> ActionState \<Rightarrow> ActionState" where
  "state_Add cm s =
     (let key = ToKey (cm_ObjectMeta cm);
          s1 = state_Remove (ok_NamespacedName key) s
      in s1\<lparr>as_counterMeasures := map_put key (as_next s1) (as_counterMeasures s1),
            as_entries := (as_entries s1)(as_next s1 \<mapsto> new_entry cm),
            as_next := Suc (as_next s1)\<rparr>)"

definition clearExpiredLastRuns :: "int \<Rightarrow> Entry \<Rightarrow> Entry" where
  "clearExpiredLastRuns now e =
     e\<lparr>en_lastRuns :=
        map_del_if (\<lambda>k. case map_of (en_lastRuns e) k of None \<Rightarrow> False | Some t \<Rightarrow> t < now) (en_lastRuns e)\<rparr>"

text \<open>\<open>GetCounterMeasure\<close> returns the entry's address; the housekeeping writes the entry.\<close>

definition GetCounterMeasure :: "int \<Rightarrow> ObjectKey \<Rightarrow> ActionState \<Rightarrow> nat option \<times> ActionState" where
  "GetCounterMeasure now key s =
     (case entry_at s key of
        None \<Rightarrow> (None, s)
      | Some (a, e) \<Rightarrow> (Some a, set_entry a (clearExpiredLastRuns now e) s))"

definition IsSuppressed :: "int \<Rightarrow> Event \<Rightarrow> Entry \<Rightarrow> bool" where
  "IsSuppressed now event e =
     (let suppressed =
        (case map_of (en_lastRuns e) (event_Key event) of None \<Rightarrow> False | Some t \<Rightarrow> t > now)
      in en_running e \<or> suppressed)"

section \<open>Invariant\<close>

text \<open>
  One generation per name; every key leads to a live entry whose countermeasure has that
  key; no entry is shared by two keys; and a fresh address is really fresh.
\<close>

definition state_inv :: "ActionState \<Rightarrow> bool" where
  "state_inv s \<longleftrightarrow>
     wf_map (as_counterMeasures s) \<and>
     (\<forall>k a. map_of (as_counterMeasures s) k = Some a \<longrightarrow>
        (\<exists>e. as_entries s a = Some e \<and> ToKey (cm_ObjectMeta (en_Countermeasure e)) = k)) \<and>
     (\<forall>k k' a a'. map_of (as_counterMeasures s) k = Some a \<longrightarrow> map_of (as_counterMeasures s) k' = Some a' \<longrightarrow>
        ok_NamespacedName k = ok_NamespacedName k' \<longrightarrow> k = k') \<and>
     (\<forall>a. as_next s \<le> a \<longrightarrow> as_entries s a = None)"

lemma state_invD:
  assumes "state_inv s"
  shows "wf_map (as_counterMeasures s)"
    "map_of (as_counterMeasures s) k = Some a \<Longrightarrow>
      \<exists>e. as_entries s a = Some e \<and> ToKey (cm_ObjectMeta (en_Countermeasure e)) = k"
    "\<lbrakk>map_of (as_counterMeasures s) k = Some a; map_of (as_counterMeasures s) k' = Some a';
      ok_NamespacedName k = ok_NamespacedName k'\<rbrakk> \<Longrightarrow> k = k'"
    "as_next s \<le> a \<Longrightarrow> as_entries s a = None"
  using assms unfolding state_inv_def by blast+

lemma entry_at_Some:
  "entry_at s k = Some (a, e) \<longleftrightarrow> map_of (as_counterMeasures s) k = Some a \<and> as_entries s a = Some e"
  by (auto simp: entry_at_def split: option.splits)

lemma entry_at_deployed: "state_inv s \<Longrightarrow> entry_at s k \<noteq> None \<longleftrightarrow> IsDeployed k s"
  by (auto simp: entry_at_def IsDeployed_def split: option.splits dest: state_invD(2))

lemma state_inv_New [inv_intros]: "state_inv NewState"
  by (simp add: state_inv_def NewState_def)

lemma state_inv_Remove [inv_intros]: "state_inv s \<Longrightarrow> state_inv (state_Remove n s)"
  unfolding state_inv_def state_Remove_def by (simp add: go_map_simps wf_remove_name)

lemma map_of_Add:
  "map_of (as_counterMeasures (state_Add cm s)) k =
     (if k = ToKey (cm_ObjectMeta cm) then Some (as_next s)
      else if ok_NamespacedName k = meta_name (cm_ObjectMeta cm) then None
      else map_of (as_counterMeasures s) k)"
  by (simp add: state_Add_def state_Remove_def Let_def go_map_simps)

lemma state_Add_frame:
  "as_entries (state_Add cm s) = (as_entries s)(as_next s \<mapsto> new_entry cm)"
  "as_next (state_Add cm s) = Suc (as_next s)"
  by (simp_all add: state_Add_def state_Remove_def Let_def)

lemma state_inv_Add [inv_intros]:
  assumes "state_inv s"
  shows "state_inv (state_Add cm s)"
proof -
  note inv = state_invD [OF assms]
  have "wf_map (as_counterMeasures (state_Add cm s))"
    using inv(1) by (simp add: state_Add_def state_Remove_def Let_def wf_put wf_remove_name)
  moreover have "\<exists>e. as_entries (state_Add cm s) a = Some e \<and> ToKey (cm_ObjectMeta (en_Countermeasure e)) = k"
    if "map_of (as_counterMeasures (state_Add cm s)) k = Some a" for k a
    using that inv(2) [of k a] inv(4) [of a]
    by (auto simp: map_of_Add state_Add_frame new_entry_def split: if_splits)
  moreover have "k = k'" if "map_of (as_counterMeasures (state_Add cm s)) k = Some a"
    "map_of (as_counterMeasures (state_Add cm s)) k' = Some a'" "ok_NamespacedName k = ok_NamespacedName k'" for k k' a a'
    using that inv(3) [of k a k' a'] by (auto simp: map_of_Add split: if_splits)
  moreover have "as_entries (state_Add cm s) a = None" if "as_next (state_Add cm s) \<le> a" for a
    using that inv(4) [of a] by (auto simp: state_Add_frame)
  ultimately show ?thesis
    unfolding state_inv_def by blast
qed

text \<open>Writing an entry without changing which countermeasure it is for.\<close>

lemma state_inv_set_entry:
  assumes "state_inv s" and "as_entries s a = Some e" and "en_Countermeasure e' = en_Countermeasure e"
  shows "state_inv (set_entry a e' s)"
proof -
  have "a < as_next s"
    using state_invD(4) [OF assms(1), of a] assms(2) by (cases "as_next s \<le> a") auto
  then show ?thesis
    using assms unfolding state_inv_def set_entry_def by fastforce
qed

lemma set_entry_simps [simp]:
  "as_counterMeasures (set_entry a e s) = as_counterMeasures s"
  "as_entries (set_entry a e s) = (as_entries s)(a \<mapsto> e)"
  "as_next (set_entry a e s) = as_next s"
  by (simp_all add: set_entry_def)

lemma clearExpired_frame [simp]:
  "en_Countermeasure (clearExpiredLastRuns now e) = en_Countermeasure e"
  "en_running (clearExpiredLastRuns now e) = en_running e"
  "en_Name (clearExpiredLastRuns now e) = en_Name e"
  by (simp_all add: clearExpiredLastRuns_def)

lemma state_inv_Get [inv_intros]: "state_inv s \<Longrightarrow> state_inv (snd (GetCounterMeasure now k s))"
  by (auto simp: GetCounterMeasure_def entry_at_Some split: option.splits intro: state_inv_set_entry)

lemma CounterMeasureStart_returns:
  "state_inv s \<Longrightarrow> IsDeployed k s \<Longrightarrow> \<exists>s'. CounterMeasureStart now ev k s = Ret s' \<and> state_inv s'"
  using entry_at_deployed [of s k]
  by (fastforce simp: CounterMeasureStart_def Let_def entry_at_Some split: option.splits
      intro: state_inv_set_entry)

lemma CounterMeasureEnd_returns:
  "state_inv s \<Longrightarrow> IsDeployed k s \<Longrightarrow> \<exists>s'. CounterMeasureEnd ev k s = Ret s' \<and> state_inv s'"
  using entry_at_deployed [of s k]
  by (fastforce simp: CounterMeasureEnd_def entry_at_Some split: option.splits intro: state_inv_set_entry)

section \<open>The abstract store of deployed countermeasures\<close>

text \<open>
  What the state promises to the action manager: a finite map from names to
  countermeasures, whatever the generations, entries and run times are.
\<close>

definition deployed :: "ActionState \<Rightarrow> NamespacedName \<Rightarrow> CounterMeasure option" where
  "deployed s n =
     (case find (\<lambda>(k, a). ok_NamespacedName k = n) (as_counterMeasures s) of
        None \<Rightarrow> None
      | Some (k, a) \<Rightarrow> map_option en_Countermeasure (as_entries s a))"

text \<open>The countermeasure a key leads to.\<close>

definition cm_at :: "ActionState \<Rightarrow> ObjectKey \<Rightarrow> CounterMeasure option" where
  "cm_at s k = map_option (\<lambda>(a, e). en_Countermeasure e) (entry_at s k)"

lemma deployed_Some:
  assumes "state_inv s"
  shows "deployed s n = Some cm \<longleftrightarrow> (\<exists>k. ok_NamespacedName k = n \<and> cm_at s k = Some cm)"
proof
  assume "deployed s n = Some cm"
  then obtain k a where "(k, a) \<in> set (as_counterMeasures s)" "ok_NamespacedName k = n"
    "map_option en_Countermeasure (as_entries s a) = Some cm"
    by (auto simp: deployed_def find_Some_iff split: option.splits) (metis nth_mem)
  then show "\<exists>k. ok_NamespacedName k = n \<and> cm_at s k = Some cm"
    using state_invD(1) [OF assms] by (auto simp: cm_at_def entry_at_def intro!: exI [of _ k])
next
  assume "\<exists>k. ok_NamespacedName k = n \<and> cm_at s k = Some cm"
  then obtain k a e where e: "entry_at s k = Some (a, e)" "ok_NamespacedName k = n" "en_Countermeasure e = cm"
    by (auto simp: cm_at_def)
  then have ka: "map_of (as_counterMeasures s) k = Some a"
    by (simp add: entry_at_Some)
  obtain x where x: "find (\<lambda>(k, a). ok_NamespacedName k = n) (as_counterMeasures s) = Some x"
    using map_of_SomeD [OF ka] e(2)
    by (cases "find (\<lambda>(k, a). ok_NamespacedName k = n) (as_counterMeasures s)") (auto simp: find_None_iff)
  then have "x \<in> set (as_counterMeasures s)" "ok_NamespacedName (fst x) = n"
    by (auto simp: find_Some_iff split_beta)
  then have "x = (k, a)"
    using state_invD(1,3) [OF assms] ka e(2) by (metis map_of_eq_Some_iff option.inject prod.collapse)
  with x e show "deployed s n = Some cm"
    by (simp add: deployed_def entry_at_Some)
qed

lemma deployed_cong:
  assumes "state_inv s" "state_inv s'" and "\<And>k. ok_NamespacedName k = n \<Longrightarrow> cm_at s k = cm_at s' k"
  shows "deployed s n = deployed s' n"
  by (rule option_eqI) (use assms in \<open>auto simp: deployed_Some\<close>)

lemma entry_at_Add:
  assumes "state_inv s"
  shows "entry_at (state_Add cm s) k =
    (if k = ToKey (cm_ObjectMeta cm) then Some (as_next s, new_entry cm)
     else if ok_NamespacedName k = meta_name (cm_ObjectMeta cm) then None else entry_at s k)"
proof -
  have "map_of (as_counterMeasures s) k \<noteq> Some (as_next s)"
    using state_invD(2) [OF assms, of k "as_next s"] state_invD(4) [OF assms, of "as_next s"] by auto
  then show ?thesis
    by (auto simp: entry_at_def map_of_Add state_Add_frame split: option.splits)
qed

lemma entry_at_Remove: "entry_at (state_Remove n s) k = (if ok_NamespacedName k = n then None else entry_at s k)"
  by (auto simp: entry_at_def state_Remove_def go_map_simps split: option.splits)

lemma deployed_Add:
  assumes "state_inv s"
  shows "deployed (state_Add cm s) = (deployed s)(meta_name (cm_ObjectMeta cm) \<mapsto> cm)"
proof
  fix n
  let ?n = "meta_name (cm_ObjectMeta cm)"
  show "deployed (state_Add cm s) n = ((deployed s)(?n \<mapsto> cm)) n"
  proof (cases "n = ?n")
    case True
    have "cm_at (state_Add cm s) (ToKey (cm_ObjectMeta cm)) = Some cm"
      by (simp add: cm_at_def entry_at_Add [OF assms] new_entry_def)
    with True show ?thesis
      using deployed_Some [OF state_inv_Add [OF assms], of cm n cm] by auto
  next
    case False
    then show ?thesis
      by (auto intro!: deployed_cong state_inv_Add assms simp: cm_at_def entry_at_Add [OF assms])
  qed
qed

lemma deployed_Remove:
  assumes "state_inv s"
  shows "deployed (state_Remove n s) = (deployed s)(n := None)"
proof
  fix m
  show "deployed (state_Remove n s) m = ((deployed s)(n := None)) m"
  proof (cases "m = n")
    case True
    then have "\<not> deployed (state_Remove n s) n = Some cm" for cm
      using deployed_Some [OF state_inv_Remove [OF assms]] by (auto simp: cm_at_def entry_at_Remove)
    with True show ?thesis
      by (cases "deployed (state_Remove n s) n") auto
  next
    case False
    then show ?thesis
      by (auto intro!: deployed_cong state_inv_Remove assms simp: cm_at_def entry_at_Remove)
  qed
qed

text \<open>
  The interface the action manager relies on: deploying and removing countermeasures by
  name.
\<close>

locale deployment_store =
  fixes add :: "CounterMeasure \<Rightarrow> 's \<Rightarrow> 's"
    and remove :: "NamespacedName \<Rightarrow> 's \<Rightarrow> 's"
    and view :: "'s \<Rightarrow> NamespacedName \<Rightarrow> CounterMeasure option"
    and invar :: "'s \<Rightarrow> bool"
  assumes view_add: "invar s \<Longrightarrow> view (add cm s) = (view s)(meta_name (cm_ObjectMeta cm) \<mapsto> cm)"
    and view_remove: "invar s \<Longrightarrow> view (remove n s) = (view s)(n := None)"
    and invar_add: "invar s \<Longrightarrow> invar (add cm s)"
    and invar_remove: "invar s \<Longrightarrow> invar (remove n s)"
begin

lemma invar_deploy_all: "invar s \<Longrightarrow> invar (fold add cms s)"
  by (induction cms arbitrary: s) (simp_all add: invar_add)

lemma view_deploy_all:
  "invar s \<Longrightarrow> view (fold add cms s) =
     view s ++ map_of (rev (map (\<lambda>cm. (meta_name (cm_ObjectMeta cm), cm)) cms))"
  by (induction cms arbitrary: s) (auto simp: invar_add view_add map_add_def fun_eq_iff split: option.split)

lemma replace:
  "invar s \<Longrightarrow> view (add cm (remove (meta_name (cm_ObjectMeta cm)) s)) = view (add cm s)"
  by (simp add: view_add view_remove invar_remove)

lemma add_remove_commute:
  "invar s \<Longrightarrow> n \<noteq> meta_name (cm_ObjectMeta cm) \<Longrightarrow> view (remove n (add cm s)) = view (add cm (remove n s))"
  by (simp add: view_add view_remove invar_add invar_remove fun_upd_twist)

end

interpretation action_state: deployment_store state_Add state_Remove deployed state_inv
  by unfold_locales (auto intro: deployed_Add deployed_Remove state_inv_Add state_inv_Remove)

text \<open>
  The state implements a map from names to countermeasures: after any sequence of
  deployments the countermeasure found under a name is the last one deployed with it,
  whatever its generation, removing a name removes every generation of it, and no other
  name is affected.
\<close>

lemma ActionState_refines_map:
  assumes "state_inv s"
  shows "deployed (fold state_Add cms s) n =
      (case find (\<lambda>cm. meta_name (cm_ObjectMeta cm) = n) (rev cms) of None \<Rightarrow> deployed s n | Some cm \<Rightarrow> Some cm) \<and>
    deployed (state_Remove m s) n = (if n = m then None else deployed s n)"
proof -
  have "map_of (map (\<lambda>cm. (meta_name (cm_ObjectMeta cm), cm)) xs) n = find (\<lambda>cm. meta_name (cm_ObjectMeta cm) = n) xs"
    for xs :: "CounterMeasure list"
    by (induction xs) auto
  then have "deployed (fold state_Add cms s) n =
      (case find (\<lambda>cm. meta_name (cm_ObjectMeta cm) = n) (rev cms) of None \<Rightarrow> deployed s n | Some cm \<Rightarrow> Some cm)"
    using action_state.view_deploy_all [OF assms, of cms] by (simp add: map_add_def rev_map)
  then show ?thesis
    using action_state.view_remove [OF assms, of m] by simp
qed

section \<open>Suppression\<close>

definition suppression :: "CounterMeasure \<Rightarrow> int option" where
  "suppression cm = Option.bind (oe_SuppressionPolicy (cs_OnEvent (cm_Spec cm))) sp_Duration"

text \<open>The entry after \<open>CounterMeasureStart\<close>.\<close>

definition started :: "int \<Rightarrow> Event \<Rightarrow> Entry \<Rightarrow> Entry" where
  "started now ev e =
     e\<lparr>en_running := True,
       en_lastRuns := (case suppression (en_Countermeasure e) of
           None \<Rightarrow> en_lastRuns e | Some d \<Rightarrow> map_put (event_Key ev) (now + d) (en_lastRuns e))\<rparr>"

lemma CounterMeasureStart_entry:
  "entry_at s k = Some (a, e) \<Longrightarrow> CounterMeasureStart now ev k s = Ret (set_entry a (started now ev e) s)"
  by (auto simp: CounterMeasureStart_def started_def suppression_def Let_def split: option.splits)

lemma CounterMeasureEnd_entry:
  "entry_at s k = Some (a, e) \<Longrightarrow> CounterMeasureEnd ev k s = Ret (set_entry a (e\<lparr>en_running := False\<rparr>) s)"
  by (simp add: CounterMeasureEnd_def)

lemma entry_at_set_entry:
  assumes "entry_at s k = Some (a, e)"
  shows "entry_at (set_entry a e' s) k = Some (a, e')"
  using assms by (simp add: entry_at_Some)

lemma lastRuns_clearExpired:
  "map_of (en_lastRuns (clearExpiredLastRuns now e)) k =
     (case map_of (en_lastRuns e) k of None \<Rightarrow> None | Some t \<Rightarrow> if t < now then None else Some t)"
  by (simp add: clearExpiredLastRuns_def go_map_simps split: option.splits)

text \<open>
  The housekeeping is invisible: dropping the entries that had expired at an earlier
  reading of the clock never changes whether an event is suppressed.
\<close>

lemma clearExpired_IsSuppressed:
  "now \<le> now' \<Longrightarrow> IsSuppressed now' ev (clearExpiredLastRuns now e) = IsSuppressed now' ev e"
  by (auto simp: IsSuppressed_def lastRuns_clearExpired split: option.splits)

lemma IsSuppressed_started:
  "IsSuppressed now' ev' ((started now ev e)\<lparr>en_running := False\<rparr>) \<longleftrightarrow>
     (case suppression (en_Countermeasure e) of
        Some d \<Rightarrow> if event_Key ev' = event_Key ev then now' < now + d
                  else IsSuppressed now' ev' (e\<lparr>en_running := False\<rparr>)
      | None \<Rightarrow> IsSuppressed now' ev' (e\<lparr>en_running := False\<rparr>))"
  by (auto simp: started_def IsSuppressed_def go_map_simps split: option.splits)

text \<open>C18:
  The suppression window. Let a deployed countermeasure with suppression duration \<open>d\<close> run
  for an event at time \<open>t\<close> and finish. When a later event is looked up at \<open>t1\<close> and checked
  at \<open>t2\<close>, it is suppressed if it has the same key and \<open>t2 < t + d\<close>, it is not suppressed
  with the same key from \<open>t + d\<close> on, and with another key it is suppressed exactly when it
  would have been without the run.
\<close>

theorem suppression_window:
  assumes "entry_at s k = Some (a, e)" and "\<not> en_running e"
    and "suppression (en_Countermeasure e) = Some d" and "t1 \<le> t2"
  shows "\<exists>s1 s2 s3 e3. CounterMeasureStart t ev k s = Ret s1 \<and> IsRunning k s1 \<and>
    CounterMeasureEnd ev k s1 = Ret s2 \<and> \<not> IsRunning k s2 \<and>
    GetCounterMeasure t1 k s2 = (Some a, s3) \<and> as_entries s3 a = Some e3 \<and>
    (IsSuppressed t2 ev' e3 \<longleftrightarrow>
       (if event_Key ev' = event_Key ev then t2 < t + d else IsSuppressed t2 ev' e))"
proof -
  let ?e1 = "started t ev e"
  let ?e2 = "?e1\<lparr>en_running := False\<rparr>"
  let ?s1 = "set_entry a ?e1 s"
  let ?s2 = "set_entry a ?e2 ?s1"
  have idle: "e\<lparr>en_running := False\<rparr> = e"
    using assms(2) by simp
  have at1: "entry_at ?s1 k = Some (a, ?e1)"
    using assms(1) by (rule entry_at_set_entry)
  have at2: "entry_at ?s2 k = Some (a, ?e2)"
    using at1 by (rule entry_at_set_entry)
  have "CounterMeasureStart t ev k s = Ret ?s1"
    using assms(1) by (rule CounterMeasureStart_entry)
  moreover have "CounterMeasureEnd ev k ?s1 = Ret ?s2"
    using at1 by (rule CounterMeasureEnd_entry)
  moreover have "IsRunning k ?s1" and "\<not> IsRunning k ?s2"
    using at1 at2 by (simp_all add: IsRunning_def started_def)
  moreover have "GetCounterMeasure t1 k ?s2 = (Some a, set_entry a (clearExpiredLastRuns t1 ?e2) ?s2)"
    using at2 by (simp add: GetCounterMeasure_def)
  moreover have "IsSuppressed t2 ev' (clearExpiredLastRuns t1 ?e2) \<longleftrightarrow>
      (if event_Key ev' = event_Key ev then t2 < t + d else IsSuppressed t2 ev' e)"
    using assms(2,3) by (simp add: clearExpired_IsSuppressed [OF assms(4)] IsSuppressed_started idle)
  ultimately show ?thesis
    by (auto simp del: fun_upd_apply simp: fun_upd_same)
qed

definition sample_key :: ObjectKey where
  "sample_key = ToKey (cm_ObjectMeta sample_cm)"

lemma sample_entry: "entry_at (state_Add sample_cm NewState) sample_key = Some (0, new_entry sample_cm)"
  by (simp add: entry_at_Add [OF state_inv_New] sample_key_def) (simp add: NewState_def)

theorem suppression_window_witness:
  "\<exists>s1 s2 s3 e3. CounterMeasureStart 0 sample_event sample_key (state_Add sample_cm NewState) = Ret s1 \<and>
    CounterMeasureEnd sample_event sample_key s1 = Ret s2 \<and>
    GetCounterMeasure 50 sample_key s2 = (Some 0, s3) \<and> as_entries s3 0 = Some e3 \<and>
    IsSuppressed 60 sample_event e3"
proof -
  have run: "\<not> en_running (new_entry sample_cm)"
    and d: "suppression (en_Countermeasure (new_entry sample_cm)) = Some 120"
    by (simp_all add: new_entry_def suppression_def sample_cm_def sample_spec_def)
  show ?thesis
    using suppression_window [OF sample_entry run d, of 50 60 0 sample_event sample_event] by auto
qed

text \<open>
  The run flag and the clean-up cannot be applied to a countermeasure that has been
  removed: from any consistent state, starting or ending a run panics exactly when the key
  is not deployed. A countermeasure that is deleted, or replaced by another generation,
  while its actions run makes the end of that run a nil dereference.
\<close>

theorem run_bookkeeping_panics_iff_removed:
  assumes "state_inv s"
  shows "(\<not> returns (CounterMeasureStart now ev k s) \<longleftrightarrow> \<not> IsDeployed k s) \<and>
    (\<not> returns (CounterMeasureEnd ev k s) \<longleftrightarrow> \<not> IsDeployed k s) \<and>
    \<not> returns (CounterMeasureEnd ev k (state_Remove (ok_NamespacedName k) s)) \<and>
    (om_Generation (cm_ObjectMeta cm) \<noteq> ok_Generation k \<longrightarrow> meta_name (cm_ObjectMeta cm) = ok_NamespacedName k \<longrightarrow>
       \<not> returns (CounterMeasureEnd ev k (state_Add cm s)))"
proof -
  have iff: "\<not> returns (CounterMeasureEnd ev k s) \<longleftrightarrow> entry_at s k = None" for s
    by (auto simp: CounterMeasureEnd_def split: option.splits)
  have "\<not> returns (CounterMeasureStart now ev k s) \<longleftrightarrow> entry_at s k = None"
    by (auto simp: CounterMeasureStart_def Let_def split: option.splits)
  then show ?thesis
    using entry_at_deployed [OF assms, of k]
    by (auto simp: iff entry_at_Remove entry_at_Add [OF assms] ToKey_def)
qed

theorem run_bookkeeping_panics_iff_removed_witness:
  "IsDeployed sample_key (state_Add sample_cm NewState) \<and>
   returns (CounterMeasureEnd sample_event sample_key (state_Add sample_cm NewState)) \<and>
   \<not> returns (CounterMeasureEnd sample_event sample_key
        (state_Remove (ok_NamespacedName sample_key) (state_Add sample_cm NewState)))"
proof -
  have "IsDeployed sample_key (state_Add sample_cm NewState)"
    using sample_entry by (simp add: IsDeployed_def entry_at_Some)
  with run_bookkeeping_panics_iff_removed [OF state_inv_Add [OF state_inv_New], of 0 sample_event sample_key sample_cm sample_cm]
  show ?thesis by simp
qed

end
