(* ===== verification/Actions.thy ===== *)
theory Actions
  imports Events Api_CounterMeasure
begin

text \<open>
  \<open>pkg/actions/delete.go\<close>, \<open>patch.go\<close>, \<open>restart.go\<close>, \<open>debug.go\<close>, the template helpers of
  \<open>action.go\<close> and \<open>assets/assets.go\<close>: what each action asks of the API server. The server,
  the template engine, the YAML converter and the parser of API versions are not part of
  the repository: they are the fields of \<open>env\<close>. Every request the operator makes is also
  written to a log, so that theorems can speak about requests whatever the server answers.
\<close>

section \<open>The world outside\<close>

record Unstructured =
  un_GVK :: GroupVersionKind
  un_Key :: NamespacedName
  un_Body :: string

record EphemeralContainer =
  ec_Name :: string
  ec_Image :: string
  ec_ImagePullPolicy :: string
  ec_Command :: "string list"
  ec_Args :: "string list"
  ec_Stdin :: bool
  ec_TTY :: bool
  ec_TerminationMessagePolicy :: string
  ec_TargetContainerName :: string

record Pod =
  pod_Key :: NamespacedName
  pod_EphemeralContainers :: "EphemeralContainer list"

text \<open>\<open>client.RawPatch\<close>\<close>

record RawPatch =
  rp_Type :: string
  rp_Data :: string

text \<open>The requests of the actions; the flag is the dry-run option.\<close>

datatype request =
    GetReq GroupVersionKind NamespacedName
  | DeleteReq Unstructured bool
  | PatchReq Unstructured RawPatch bool
  | GetPodReq NamespacedName
  | UpdateEphemeralReq NamespacedName Pod bool

record 'w cluster =
  cl_world :: 'w
  cl_log :: "request list"

text \<open>
  \<open>env_Template\<close> is \<open>template.New("").Parse\<close>: an error, or the compiled template, which
  executed on an event writes some output and may then fail. \<open>env_PatchTemplate\<close> is the same
  for the data of a patch. \<open>env_NewForConfig\<close> is the error of \<open>kubernetes.NewForConfig\<close>,
  \<open>env_rand\<close> is \<open>rand.String(5)\<close> and \<open>env_now\<close> the formatted current time.
\<close>

record 'w env =
  env_Get :: "GroupVersionKind \<Rightarrow> NamespacedName \<Rightarrow> 'w \<Rightarrow> (goerror + Unstructured) \<times> 'w"
  env_Delete :: "Unstructured \<Rightarrow> bool \<Rightarrow> 'w \<Rightarrow> goerror option \<times> 'w"
  env_Patch :: "Unstructured \<Rightarrow> RawPatch \<Rightarrow> bool \<Rightarrow> 'w \<Rightarrow> goerror option \<times> 'w"
  env_GetPod :: "NamespacedName \<Rightarrow> 'w \<Rightarrow> (goerror + Pod) \<times> 'w"
  env_UpdateEphemeral :: "NamespacedName \<Rightarrow> Pod \<Rightarrow> bool \<Rightarrow> 'w \<Rightarrow> goerror option \<times> 'w"
  env_rand :: "'w \<Rightarrow> string \<times> 'w"
  env_now :: "'w \<Rightarrow> string \<times> 'w"
  env_Template :: "string \<Rightarrow> goerror + (Event \<Rightarrow> string \<times> goerror option)"
  env_PatchTemplate :: "string \<Rightarrow> goerror + (EventData \<Rightarrow> Unstructured \<Rightarrow> string \<times> goerror option)"
  env_YAMLToJSON :: "string \<Rightarrow> goerror + string"
  env_ParseGroupVersion :: "string \<Rightarrow> goerror + (string \<times> string)"
  env_NewForConfig :: "goerror option"

text \<open>A call of the server: the answer, the world after it, the request in the log.\<close>

definition ask :: "request \<Rightarrow> ('w \<Rightarrow> 'r \<times> 'w) \<Rightarrow> 'w cluster \<Rightarrow> 'r \<times> 'w cluster" where
  "ask req f cl =
     (let (r, w) = f (cl_world cl) in (r, \<lparr>cl_world = w, cl_log = cl_log cl @ [req]\<rparr>))"

text \<open>Reading the clock or drawing a random name is no request.\<close>

definition draw :: "('w \<Rightarrow> 'r \<times> 'w) \<Rightarrow> 'w cluster \<Rightarrow> 'r \<times> 'w cluster" where
  "draw f cl = (let (r, w) = f (cl_world cl) in (r, cl\<lparr>cl_world := w\<rparr>))"

section \<open>Templates and names\<close>

text \<open>\<open>template.Must\<close> panics on a template that does not parse; an execution error is ignored.\<close>

definition evaluateTemplate :: "'w env \<Rightarrow> string \<Rightarrow> Event \<Rightarrow> string go" where
  "evaluateTemplate env t event =
     (case env_Template env t of
        Inl err \<Rightarrow> Panics ''template: parse error''
      | Inr exec \<Rightarrow> Ret (fst (exec event)))"

definition ObjectKeyFromTemplate :: "'w env \<Rightarrow> string \<Rightarrow> string \<Rightarrow> Event \<Rightarrow> NamespacedName go" where
  "ObjectKeyFromTemplate env namespaceTemplate nameTemplate event =
     go_bind (evaluateTemplate env namespaceTemplate event) (\<lambda>ns.
     go_bind (evaluateTemplate env nameTemplate event) (\<lambda>n.
       Ret \<lparr>nn_Namespace = ns, nn_Name = n\<rparr>))"

text \<open>\<open>strings.ToLower\<close> on ASCII.\<close>

definition to_lower_char :: "char \<Rightarrow> char" where
  "to_lower_char c =
     (if 65 \<le> (of_char c :: nat) \<and> (of_char c :: nat) \<le> 90 then char_of ((of_char c :: nat) + 32) else c)"

definition createObjectName :: "'w env \<Rightarrow> string \<Rightarrow> string \<Rightarrow> string \<Rightarrow> Event \<Rightarrow> string go" where
  "createObjectName env kind namespace name event =
     go_bind (evaluateTemplate env namespace event) (\<lambda>ns.
     go_bind (evaluateTemplate env name event) (\<lambda>n.
       Ret (map to_lower_char kind @ '': '' @ quoted (ns @ ''/'' @ n))))"

section \<open>The four actions\<close>

record BaseAction =
  ba_DryRun :: bool
  ba_RetryEnabled :: bool
  ba_Name :: string

definition NewBase :: "Action \<Rightarrow> bool \<Rightarrow> BaseAction" where
  "NewBase spec dryRun =
     \<lparr>ba_DryRun = dryRun, ba_RetryEnabled = ac_RetryEnabled spec, ba_Name = ac_Name spec\<rparr>"

datatype ActionImpl =
    Delete BaseAction DeleteSpec
  | Debug BaseAction DebugSpec
  | Patch BaseAction PatchSpec
  | Restart BaseAction RestartSpec

fun base_of :: "ActionImpl \<Rightarrow> BaseAction" where
  "base_of (Delete b s) = b"
| "base_of (Debug b s) = b"
| "base_of (Patch b s) = b"
| "base_of (Restart b s) = b"

definition action_GetName :: "ActionImpl \<Rightarrow> string" where
  "action_GetName a = ba_Name (base_of a)"

definition SupportsRetry :: "ActionImpl \<Rightarrow> bool" where
  "SupportsRetry a = ba_RetryEnabled (base_of a)"

text \<open>
  The constructors of the four types; the core client of the debug action is part of \<open>env\<close>.
  The \<open>New...Action\<close> functions start from the zero value of \<open>BaseAction\<close>.
\<close>

definition zero_base :: BaseAction where
  "zero_base = \<lparr>ba_DryRun = False, ba_RetryEnabled = False, ba_Name = []\<rparr>"

definition NewDeleteFromBase :: "BaseAction \<Rightarrow> DeleteSpec \<Rightarrow> ActionImpl" where
  "NewDeleteFromBase base spec = Delete base spec"

definition NewDeleteAction :: "DeleteSpec \<Rightarrow> ActionImpl" where
  "NewDeleteAction spec = NewDeleteFromBase zero_base spec"

definition NewPatchFromBase :: "BaseAction \<Rightarrow> PatchSpec \<Rightarrow> ActionImpl" where
  "NewPatchFromBase base spec = Patch base spec"

definition NewPatchAction :: "PatchSpec \<Rightarrow> ActionImpl" where
  "NewPatchAction spec = NewPatchFromBase zero_base spec"

definition NewRestartFromBase :: "BaseAction \<Rightarrow> RestartSpec \<Rightarrow> ActionImpl" where
  "NewRestartFromBase base spec = Restart base spec"

definition NewRestartAction :: "RestartSpec \<Rightarrow> ActionImpl" where
  "NewRestartAction spec = NewRestartFromBase zero_base spec"

definition NewDebugFromBase :: "BaseAction \<Rightarrow> DebugSpec \<Rightarrow> ActionImpl" where
  "NewDebugFromBase base spec = Debug base spec"

definition NewDebugAction :: "DebugSpec \<Rightarrow> ActionImpl" where
  "NewDebugAction spec = NewDebugFromBase zero_base spec"

lemmas constructor_defs = NewDeleteFromBase_def NewPatchFromBase_def NewRestartFromBase_def NewDebugFromBase_def

definition Delete_GetTargetObjectName :: "'w env \<Rightarrow> DeleteSpec \<Rightarrow> Event \<Rightarrow> string go" where
  "Delete_GetTargetObjectName env spec event =
     (let target = dl_TargetObjectRef spec
      in createObjectName env (or_Kind target) (or_Namespace target) (or_Name target) event)"

definition Patch_GetTargetObjectName :: "'w env \<Rightarrow> PatchSpec \<Rightarrow> Event \<Rightarrow> string go" where
  "Patch_GetTargetObjectName env spec event =
     (let target = pt_TargetObjectRef spec
      in createObjectName env (or_Kind target) (or_Namespace target) (or_Name target) event)"

definition Restart_GetTargetObjectName :: "'w env \<Rightarrow> RestartSpec \<Rightarrow> Event \<Rightarrow> string go" where
  "Restart_GetTargetObjectName env spec event =
     createObjectName env ''deployment'' (dr_Namespace (rs_DeploymentRef spec)) (dr_Name (rs_DeploymentRef spec)) event"

definition Debug_GetTargetObjectName :: "'w env \<Rightarrow> DebugSpec \<Rightarrow> Event \<Rightarrow> string go" where
  "Debug_GetTargetObjectName env spec event =
     createObjectName env ''pod'' (pr_Namespace (db_PodRef spec)) (pr_Name (db_PodRef spec)) event"

text \<open>The methods of the interface, by the type of the receiver.\<close>

definition Delete_GetType :: string where "Delete_GetType = ''delete''"
definition Debug_GetType :: string where "Debug_GetType = ''debug''"
definition Patch_GetType :: string where "Patch_GetType = ''patch''"
definition Restart_GetType :: string where "Restart_GetType = ''restart''"

lemmas type_names [simp] = Delete_GetType_def Debug_GetType_def Patch_GetType_def Restart_GetType_def

fun GetType :: "ActionImpl \<Rightarrow> string" where
  "GetType (Delete b s) = Delete_GetType"
| "GetType (Debug b s) = Debug_GetType"
| "GetType (Patch b s) = Patch_GetType"
| "GetType (Restart b s) = Restart_GetType"

fun GetTargetObjectName :: "'w env \<Rightarrow> ActionImpl \<Rightarrow> Event \<Rightarrow> string go" where
  "GetTargetObjectName env (Delete b s) event = Delete_GetTargetObjectName env s event"
| "GetTargetObjectName env (Debug b s) event = Debug_GetTargetObjectName env s event"
| "GetTargetObjectName env (Patch b s) event = Patch_GetTargetObjectName env s event"
| "GetTargetObjectName env (Restart b s) event = Restart_GetTargetObjectName env s event"

subsection \<open>delete\<close>

definition Delete_Perform :: "'w env \<Rightarrow> BaseAction \<Rightarrow> DeleteSpec \<Rightarrow> Event \<Rightarrow> 'w cluster \<Rightarrow> (goerror option \<times> 'w cluster) go" where
  "Delete_Perform env b spec event cl =
     (let target = dl_TargetObjectRef spec
      in case ToGroupVersionKind (env_ParseGroupVersion env) target of
           Inl err \<Rightarrow> Ret (Some err, cl)
         | Inr gvk \<Rightarrow>
             go_bind (ObjectKeyFromTemplate env (or_Namespace target) (or_Name target) event) (\<lambda>objectName.
               (case ask (GetReq gvk objectName) (env_Get env gvk objectName) cl of
                  (Inl err, cl1) \<Rightarrow> if IsNotFound err then Ret (None, cl1) else Ret (Some err, cl1)
                | (Inr object, cl1) \<Rightarrow>
                    Ret (ask (DeleteReq object (ba_DryRun b)) (env_Delete env object (ba_DryRun b)) cl1))))"

subsection \<open>patch\<close>

definition createPatch :: "'w env \<Rightarrow> PatchSpec \<Rightarrow> EventData \<Rightarrow> Unstructured \<Rightarrow> goerror + RawPatch" where
  "createPatch env spec data object =
     (case env_PatchTemplate env (pt_YAMLTemplate spec) of
        Inl err \<Rightarrow> Inl err
      | Inr exec \<Rightarrow>
          (case exec data object of
             (out, Some err) \<Rightarrow> Inl err
           | (out, None) \<Rightarrow>
               (case env_YAMLToJSON env out of
                  Inl err \<Rightarrow> Inl err
                | Inr json \<Rightarrow> Inr \<lparr>rp_Type = pt_PatchType spec, rp_Data = json\<rparr>)))"

definition Patch_Perform :: "'w env \<Rightarrow> BaseAction \<Rightarrow> PatchSpec \<Rightarrow> Event \<Rightarrow> 'w cluster \<Rightarrow> (goerror option \<times> 'w cluster) go" where
  "Patch_Perform env b spec event cl =
     (let target = pt_TargetObjectRef spec
      in case ToGroupVersionKind (env_ParseGroupVersion env) target of
           Inl err \<Rightarrow> Ret (Some err, cl)
         | Inr gvk \<Rightarrow>
             go_bind (ObjectKeyFromTemplate env (or_Namespace target) (or_Name target) event) (\<lambda>objectName.
               (case ask (GetReq gvk objectName) (env_Get env gvk objectName) cl of
                  (Inl err, cl1) \<Rightarrow> Ret (Some err, cl1)
                | (Inr object, cl1) \<Rightarrow>
                    (case ev_Data event of
                       None \<Rightarrow> Panics ''nil pointer dereference''
                     | Some p \<Rightarrow>
                         (case createPatch env spec (deref p) object of
                            Inl err \<Rightarrow> Ret (Some err, cl1)
                          | Inr patch \<Rightarrow>
                              Ret (ask (PatchReq object patch (ba_DryRun b)) (env_Patch env object patch (ba_DryRun b)) cl1))))))"

subsection \<open>restart\<close>

text \<open>The manifest \<open>assets/manifests/restart-patch.yaml\<close>, with \<open>{{ now }}\<close> filled in.\<close>

definition restart_patch_yaml :: "string \<Rightarrow> string" where
  "restart_patch_yaml now =
     ''spec:'' @ [CHR 0x0A] @ ''  template:'' @ [CHR 0x0A] @ ''    metadata:'' @ [CHR 0x0A] @
     ''      annotations:'' @ [CHR 0x0A] @
     ''        countermeasure.vilaverde.rocks/restarted: '' @ now"

text \<open>The package's \<open>init\<close>; \<open>AddToScheme\<close> is the outcome of the call for the batch kinds.\<close>

definition assets_init :: "goerror option \<Rightarrow> unit go" where
  "assets_init AddToScheme = (case AddToScheme of None \<Rightarrow> Ret () | Some err \<Rightarrow> Panics ''init'')"

definition GetPatch :: "'w env \<Rightarrow> 'w cluster \<Rightarrow> (RawPatch \<times> 'w cluster) go" where
  "GetPatch env cl =
     (let (now, cl1) = draw (env_now env) cl
      in case env_YAMLToJSON env (restart_patch_yaml now) of
           Inl err \<Rightarrow> Panics ''yaml''
         | Inr json \<Rightarrow> Ret (\<lparr>rp_Type = ''application/merge-patch+json'', rp_Data = json\<rparr>, cl1))"

definition deployment_gvk :: GroupVersionKind where
  "deployment_gvk = \<lparr>gvk_Group = ''apps'', gvk_Version = ''v1'', gvk_Kind = ''Deployment''\<rparr>"

definition Restart_Perform :: "'w env \<Rightarrow> BaseAction \<Rightarrow> RestartSpec \<Rightarrow> Event \<Rightarrow> 'w cluster \<Rightarrow> (goerror option \<times> 'w cluster) go" where
  "Restart_Perform env b spec event cl =
     (let target = rs_DeploymentRef spec
      in go_bind (ObjectKeyFromTemplate env (dr_Namespace target) (dr_Name target) event) (\<lambda>objectName.
         go_bind (GetPatch env cl) (\<lambda>(patch, cl1).
           (case ask (GetReq deployment_gvk objectName) (env_Get env deployment_gvk objectName) cl1 of
              (Inl err, cl2) \<Rightarrow> Ret (Some err, cl2)
            | (Inr object, cl2) \<Rightarrow>
                Ret (ask (PatchReq object patch (ba_DryRun b)) (env_Patch env object patch (ba_DryRun b)) cl2)))))"

subsection \<open>debug\<close>

definition debug_container :: "DebugSpec \<Rightarrow> string \<Rightarrow> string \<Rightarrow> EphemeralContainer" where
  "debug_container spec name targetContainerName =
     \<lparr>ec_Name = name, ec_Image = db_Image spec, ec_ImagePullPolicy = ''Always'', ec_Command = db_Command spec,
      ec_Args = db_Args spec, ec_Stdin = db_StdIn spec, ec_TTY = db_TTY spec,
      ec_TerminationMessagePolicy = ''File'', ec_TargetContainerName = targetContainerName\<rparr>"

definition debug_name :: "'w env \<Rightarrow> DebugSpec \<Rightarrow> 'w cluster \<Rightarrow> string \<times> 'w cluster" where
  "debug_name env spec cl =
     (if length (db_Name spec) = 0
      then (let (r, cl1) = draw (env_rand env) cl in (''debug-'' @ r, cl1))
      else (db_Name spec, cl))"

text \<open>The loop over the ephemeral containers: whether a container is still to be added.\<close>

fun add_debug_loop :: "string \<Rightarrow> EphemeralContainer list \<Rightarrow> bool \<Rightarrow> bool" where
  "add_debug_loop name [] addDebugContainer = addDebugContainer"
| "add_debug_loop name (ec # ecs) addDebugContainer =
     add_debug_loop name ecs (if ec_Name ec = name then False else addDebugContainer)"

definition Debug_Perform :: "'w env \<Rightarrow> BaseAction \<Rightarrow> DebugSpec \<Rightarrow> Event \<Rightarrow> 'w cluster \<Rightarrow> (goerror option \<times> 'w cluster) go" where
  "Debug_Perform env b spec event cl =
     (let targetPod = db_PodRef spec
      in go_bind (ObjectKeyFromTemplate env (pr_Namespace targetPod) (pr_Name targetPod) event) (\<lambda>podName.
         go_bind (evaluateTemplate env (pr_Container targetPod) event) (\<lambda>targetContainerName.
           (case ask (GetPodReq podName) (env_GetPod env podName) cl of
              (Inl err, cl1) \<Rightarrow> Ret (Some err, cl1)
            | (Inr pod, cl1) \<Rightarrow>
                (if add_debug_loop (db_Name spec) (pod_EphemeralContainers pod) True
                 then (let (name, cl2) = debug_name env spec cl1;
                           pod' = pod\<lparr>pod_EphemeralContainers :=
                             pod_EphemeralContainers pod @ [debug_container spec name targetContainerName]\<rparr>
                       in Ret (ask (UpdateEphemeralReq podName pod' (ba_DryRun b))
                                 (env_UpdateEphemeral env podName pod' (ba_DryRun b)) cl2))
                 else Ret (None, cl1))))))"

text \<open>The method \<open>Perform\<close> of the interface \<open>Action\<close>.\<close>

fun Perform :: "'w env \<Rightarrow> ActionImpl \<Rightarrow> Event \<Rightarrow> 'w cluster \<Rightarrow> (goerror option \<times> 'w cluster) go" where
  "Perform env (Delete b s) = Delete_Perform env b s"
| "Perform env (Debug b s) = Debug_Perform env b s"
| "Perform env (Patch b s) = Patch_Perform env b s"
| "Perform env (Restart b s) = Restart_Perform env b s"

section \<open>What an action asks of the server\<close>

fun is_write :: "request \<Rightarrow> bool" where
  "is_write (GetReq g k) = False"
| "is_write (GetPodReq k) = False"
| "is_write (DeleteReq u d) = True"
| "is_write (PatchReq u p d) = True"
| "is_write (UpdateEphemeralReq k p d) = True"

fun is_dry :: "request \<Rightarrow> bool" where
  "is_dry (GetReq g k) = False"
| "is_dry (GetPodReq k) = False"
| "is_dry (DeleteReq u d) = d"
| "is_dry (PatchReq u p d) = d"
| "is_dry (UpdateEphemeralReq k p d) = d"

lemma ask_log: "ask req f cl = (r, cl') \<Longrightarrow> cl_log cl' = cl_log cl @ [req]"
  by (auto simp: ask_def split: prod.splits)

lemma draw_log: "draw f cl = (r, cl') \<Longrightarrow> cl_log cl' = cl_log cl"
  by (auto simp: draw_def split: prod.splits)

lemma ask_pair: "ask req f cl = (fst (f (cl_world cl)), \<lparr>cl_world = snd (f (cl_world cl)), cl_log = cl_log cl @ [req]\<rparr>)"
  by (simp add: ask_def split_beta)

text \<open>
  The requests between two clusters: the log has grown by requests of which at most \<open>n\<close> are
  writes, and every write carries the dry-run flag \<open>dry\<close>.
\<close>

definition sends :: "bool \<Rightarrow> nat \<Rightarrow> 'w cluster \<Rightarrow> 'w cluster \<Rightarrow> bool" where
  "sends dry n cl cl' \<longleftrightarrow>
     (\<exists>reqs. cl_log cl' = cl_log cl @ reqs \<and> length (filter is_write reqs) \<le> n \<and>
        (\<forall>req \<in> set reqs. is_write req \<longrightarrow> is_dry req = dry))"

lemma sends_none: "cl_log cl' = cl_log cl \<Longrightarrow> sends dry n cl cl'"
  by (simp add: sends_def)

lemma sends_trans:
  assumes "sends dry n cl cl1" and "sends dry m cl1 cl2"
  shows "sends dry (n + m) cl cl2"
proof -
  from assms(1) obtain reqs1 where r1: "cl_log cl1 = cl_log cl @ reqs1" "length (filter is_write reqs1) \<le> n"
    "\<forall>req \<in> set reqs1. is_write req \<longrightarrow> is_dry req = dry"
    unfolding sends_def by blast
  from assms(2) obtain reqs2 where r2: "cl_log cl2 = cl_log cl1 @ reqs2" "length (filter is_write reqs2) \<le> m"
    "\<forall>req \<in> set reqs2. is_write req \<longrightarrow> is_dry req = dry"
    unfolding sends_def by blast
  show ?thesis
    unfolding sends_def by (rule exI [of _ "reqs1 @ reqs2"]) (use r1 r2 in auto)
qed

lemma sends_mono: "sends dry n cl cl' \<Longrightarrow> n \<le> m \<Longrightarrow> sends dry m cl cl'"
  unfolding sends_def by (meson le_trans)

text \<open>
  The contract of the interface \<open>Action\<close> that the runner relies on: one attempt appends to
  the log, at most one of the new requests is a write, and a write carries the dry-run flag
  of the action. The client lemma lifts the contract to repeated attempts.
\<close>

locale api_action =
  fixes perform :: "Event \<Rightarrow> 'w cluster \<Rightarrow> (goerror option \<times> 'w cluster) go"
    and dry :: bool
  assumes perform_sends: "perform event cl = Ret (r, cl') \<Longrightarrow> sends dry 1 cl cl'"
begin

text \<open>Attempts one after the other, as a retry makes them.\<close>

inductive attempts :: "Event \<Rightarrow> nat \<Rightarrow> 'w cluster \<Rightarrow> 'w cluster \<Rightarrow> bool" for event where
  none: "attempts event 0 cl cl"
| more: "perform event cl = Ret (r, cl1) \<Longrightarrow> attempts event n cl1 cl2 \<Longrightarrow> attempts event (Suc n) cl cl2"

lemma attempts_sends: "attempts event n cl cl' \<Longrightarrow> sends dry n cl cl'"
proof (induction rule: attempts.induct)
  case (none cl)
  show ?case by (rule sends_none) simp
next
  case (more cl r cl1 n cl2)
  show ?case
    using sends_trans [OF perform_sends [OF more.hyps(1)] more.IH] by simp
qed

end

lemma Delete_Perform_sends:
  assumes "Delete_Perform env b spec event cl = Ret (r, cl')"
  shows "sends (ba_DryRun b) 1 cl cl'"
  using assms
  by (auto simp: sends_def Delete_Perform_def Let_def ask_pair elim!: go_bind_RetE
      split: sum.split_asm if_split_asm)

lemma Patch_Perform_sends:
  assumes "Patch_Perform env b spec event cl = Ret (r, cl')"
  shows "sends (ba_DryRun b) 1 cl cl'"
  using assms
  by (auto simp: sends_def Patch_Perform_def Let_def ask_pair elim!: go_bind_RetE
      split: sum.split_asm option.split_asm)

lemma Restart_Perform_sends:
  assumes "Restart_Perform env b spec event cl = Ret (r, cl')"
  shows "sends (ba_DryRun b) 1 cl cl'"
  using assms
  by (auto simp: sends_def Restart_Perform_def GetPatch_def draw_def Let_def ask_pair split_beta
      elim!: go_bind_RetE split: sum.split_asm)

lemma Debug_Perform_sends:
  assumes "Debug_Perform env b spec event cl = Ret (r, cl')"
  shows "sends (ba_DryRun b) 1 cl cl'"
  using assms
  by (auto simp: sends_def Debug_Perform_def debug_name_def draw_def Let_def ask_pair split_beta
      elim!: go_bind_RetE split: sum.split_asm if_split_asm)

interpretation delete_action: api_action "Delete_Perform env b spec" "ba_DryRun b" for env b spec
  by unfold_locales (rule Delete_Perform_sends)

interpretation patch_action: api_action "Patch_Perform env b spec" "ba_DryRun b" for env b spec
  by unfold_locales (rule Patch_Perform_sends)

interpretation restart_action: api_action "Restart_Perform env b spec" "ba_DryRun b" for env b spec
  by unfold_locales (rule Restart_Perform_sends)

interpretation debug_action: api_action "Debug_Perform env b spec" "ba_DryRun b" for env b spec
  by unfold_locales (rule Debug_Perform_sends)

interpretation any_action: api_action "Perform env a" "ba_DryRun (base_of a)" for env a
proof unfold_locales
  show "sends (ba_DryRun (base_of a)) 1 cl cl'" if "Perform env a event cl = Ret (r, cl')" for event cl r cl'
    using that
    by (cases a) (auto dest: delete_action.perform_sends patch_action.perform_sends
        restart_action.perform_sends debug_action.perform_sends)
qed

section \<open>A concrete world for the witnesses\<close>

text \<open>
  The world is the list of existing objects. A template is a literal without braces or the
  expression \<open>{{ .Data.pod }}\<close>; anything else does not parse.
\<close>

definition demo_template :: "string \<Rightarrow> goerror + (Event \<Rightarrow> string \<times> goerror option)" where
  "demo_template t =
     (if t = ''{{ .Data.pod }}''
      then Inr (\<lambda>e. (case ev_Data e of None \<Rightarrow> ([], Some (Errorf ''nil data'')) | Some p \<Rightarrow> (EventData_Get (deref p) ''pod'', None)))
      else if CHR ''{'' \<in> set t then Inl (Errorf ''unclosed action'')
      else Inr (\<lambda>e. (t, None)))"

definition demo_env :: "NamespacedName list env" where
  "demo_env =
     \<lparr>env_Get = (\<lambda>gvk k w. (if k \<in> set w then Inr \<lparr>un_GVK = gvk, un_Key = k, un_Body = []\<rparr> else Inl (NotFound ''object''), w)),
      env_Delete = (\<lambda>u dry w. (None, if dry then w else removeAll (un_Key u) w)),
      env_Patch = (\<lambda>u p dry w. (None, w)),
      env_GetPod = (\<lambda>k w. (if k \<in> set w then Inr \<lparr>pod_Key = k, pod_EphemeralContainers = []\<rparr> else Inl (NotFound ''pod''), w)),
      env_UpdateEphemeral = (\<lambda>k pod dry w. (None, w)),
      env_rand = (\<lambda>w. (''x7k2p'', w)),
      env_now = (\<lambda>w. (''2023-01-01T00:00:00Z'', w)),
      env_Template = demo_template,
      env_PatchTemplate = (\<lambda>t. Inr (\<lambda>d u. (t, None))),
      env_YAMLToJSON = Inr,
      env_ParseGroupVersion = (\<lambda>s. Inr ([], s)),
      env_NewForConfig = None\<rparr>"

definition demo_pod :: NamespacedName where
  "demo_pod = \<lparr>nn_Namespace = ''ns'', nn_Name = ''pod-0''\<rparr>"

definition demo_cluster :: "NamespacedName list cluster" where
  "demo_cluster = \<lparr>cl_world = [demo_pod], cl_log = []\<rparr>"

definition demo_event :: Event where
  "demo_event = \<lparr>ev_Name = ''HighCpu'', ev_ActiveTime = 7, ev_Data = Some (Ptr 1 [(''pod'', ''pod-0'')])\<rparr>"

definition demo_delete :: DeleteSpec where
  "demo_delete = \<lparr>dl_TargetObjectRef = \<lparr>or_Namespace = ''ns'', or_Name = ''{{ .Data.pod }}'', or_Kind = ''Pod'', or_ApiVersion = ''v1''\<rparr>\<rparr>"

definition demo_gvk :: GroupVersionKind where
  "demo_gvk = \<lparr>gvk_Group = [], gvk_Version = ''v1'', gvk_Kind = ''Pod''\<rparr>"

definition demo_debug :: DebugSpec where
  "demo_debug = \<lparr>db_Name = [], db_Command = [], db_Args = [], db_Image = ''busybox'',
     db_PodRef = \<lparr>pr_Namespace = ''ns'', pr_Name = ''{{ .Data.pod }}'', pr_Container = ''app''\<rparr>, db_StdIn = False, db_TTY = False\<rparr>"

definition demo_base :: BaseAction where
  "demo_base = \<lparr>ba_DryRun = True, ba_RetryEnabled = False, ba_Name = ''demo''\<rparr>"

lemmas demo_defs = demo_template_def demo_env_def demo_pod_def demo_cluster_def demo_event_def demo_delete_def
  demo_gvk_def demo_debug_def demo_base_def

section \<open>Deleting\<close>

lemma ObjectKeyFromTemplate_Ret:
  "ObjectKeyFromTemplate env ns n ev = Ret k \<longleftrightarrow>
     evaluateTemplate env ns ev = Ret (nn_Namespace k) \<and> evaluateTemplate env n ev = Ret (nn_Name k)"
  by (auto simp: ObjectKeyFromTemplate_def go_bind_Ret_iff)

text \<open>C31:
  The delete action is idempotent towards a missing object: it reads the object named by
  the templates once; when the server says it does not exist the action succeeds without a
  write, on any other error it fails without a write, and otherwise it deletes exactly the
  object it has read, with the dry-run flag of the countermeasure.
\<close>

theorem Delete_Perform_outcome:
  assumes "ToGroupVersionKind (env_ParseGroupVersion env) (dl_TargetObjectRef spec) = Inr gvk"
    and "ObjectKeyFromTemplate env (or_Namespace (dl_TargetObjectRef spec)) (or_Name (dl_TargetObjectRef spec)) ev = Ret k"
    and "env_Get env gvk k (cl_world cl) = (answer, w)"
  shows "\<exists>r cl'. Delete_Perform env b spec ev cl = Ret (r, cl') \<and>
    (case answer of
       Inl err \<Rightarrow> r = (if IsNotFound err then None else Some err) \<and> cl_log cl' = cl_log cl @ [GetReq gvk k]
     | Inr object \<Rightarrow> r = fst (env_Delete env object (ba_DryRun b) w) \<and>
         cl_log cl' = cl_log cl @ [GetReq gvk k, DeleteReq object (ba_DryRun b)])"
  using assms by (auto simp: Delete_Perform_def Let_def ask_pair split: sum.splits)

theorem Delete_Perform_outcome_witness:
  "\<exists>r cl'. Delete_Perform demo_env demo_base demo_delete demo_event demo_cluster = Ret (r, cl') \<and>
     r = None \<and> cl_log cl' = [GetReq demo_gvk demo_pod, DeleteReq \<lparr>un_GVK = demo_gvk, un_Key = demo_pod, un_Body = []\<rparr> True]"
proof -
  have gvk: "ToGroupVersionKind (env_ParseGroupVersion demo_env) (dl_TargetObjectRef demo_delete) = Inr demo_gvk"
    by (simp add: ToGroupVersionKind_def demo_defs)
  have key: "ObjectKeyFromTemplate demo_env (or_Namespace (dl_TargetObjectRef demo_delete))
      (or_Name (dl_TargetObjectRef demo_delete)) demo_event = Ret demo_pod"
    by code_simp
  have get: "env_Get demo_env demo_gvk demo_pod (cl_world demo_cluster) =
      (Inr \<lparr>un_GVK = demo_gvk, un_Key = demo_pod, un_Body = []\<rparr>, [demo_pod])"
    by (simp add: demo_env_def demo_cluster_def)
  show ?thesis
    using Delete_Perform_outcome [OF gvk key get, of demo_base] by (simp add: demo_defs)
qed

section \<open>The debug container\<close>

lemma add_debug_loop_iff: "add_debug_loop name ecs acc \<longleftrightarrow> acc \<and> name \<notin> ec_Name ` set ecs"
  by (induction ecs arbitrary: acc) auto



section \<open>Patching and restarting\<close>


definition demo_patch :: PatchSpec where
  "demo_patch = \<lparr>pt_TargetObjectRef = dl_TargetObjectRef demo_delete, pt_PatchType = ''application/merge-patch+json'',
     pt_YAMLTemplate = ''spec: {}''\<rparr>"

lemma demo_facts:
  "cl_log demo_cluster = []" "ba_DryRun demo_base" "ev_Data demo_event = Some (Ptr 1 [(''pod'', ''pod-0'')])"
  by (simp_all add: demo_cluster_def demo_base_def demo_event_def)


text \<open>C33:
  The restart action reads the deployment named by the templates and, if it exists, sends
  exactly one merge patch that sets the restart annotation of its pod template to the time at
  which the action runs, with the dry-run flag; any error of the server, a missing deployment
  included, is returned without a write. A converter that rejects the embedded manifest makes
  the action panic.
\<close>

theorem Restart_Perform_outcome:
  assumes "ObjectKeyFromTemplate env (dr_Namespace (rs_DeploymentRef spec)) (dr_Name (rs_DeploymentRef spec)) ev = Ret k"
    and "env_now env (cl_world cl) = (now, w)" and "env_Get env deployment_gvk k w = (answer, w')"
  shows "case env_YAMLToJSON env (restart_patch_yaml now) of
       Inl err \<Rightarrow> \<not> returns (Restart_Perform env b spec ev cl)
     | Inr json \<Rightarrow> \<exists>r cl'. Restart_Perform env b spec ev cl = Ret (r, cl') \<and>
         (case answer of
            Inl err \<Rightarrow> r = Some err \<and> cl_log cl' = cl_log cl @ [GetReq deployment_gvk k]
          | Inr object \<Rightarrow>
              (let patch = \<lparr>rp_Type = ''application/merge-patch+json'', rp_Data = json\<rparr>
               in r = fst (env_Patch env object patch (ba_DryRun b) w') \<and>
                 cl_log cl' = cl_log cl @ [GetReq deployment_gvk k, PatchReq object patch (ba_DryRun b)]))"
  using assms by (auto simp: Restart_Perform_def GetPatch_def draw_def Let_def ask_pair split: sum.splits)

definition demo_restart :: RestartSpec where
  "demo_restart = \<lparr>rs_DeploymentRef = \<lparr>dr_Namespace = ''ns'', dr_Name = ''pod-0''\<rparr>\<rparr>"

theorem Restart_Perform_outcome_witness:
  "\<exists>r cl'. Restart_Perform demo_env demo_base demo_restart demo_event demo_cluster = Ret (r, cl') \<and>
     cl_log cl' = [GetReq deployment_gvk demo_pod, PatchReq \<lparr>un_GVK = deployment_gvk, un_Key = demo_pod, un_Body = []\<rparr>
       \<lparr>rp_Type = ''application/merge-patch+json'', rp_Data = restart_patch_yaml ''2023-01-01T00:00:00Z''\<rparr> True]"
proof -
  have key: "ObjectKeyFromTemplate demo_env (dr_Namespace (rs_DeploymentRef demo_restart))
      (dr_Name (rs_DeploymentRef demo_restart)) demo_event = Ret demo_pod"
    by code_simp
  have now: "env_now demo_env (cl_world demo_cluster) = (''2023-01-01T00:00:00Z'', [demo_pod])"
    and json: "env_YAMLToJSON demo_env (restart_patch_yaml ''2023-01-01T00:00:00Z'') =
      Inr (restart_patch_yaml ''2023-01-01T00:00:00Z'')"
    and get: "env_Get demo_env deployment_gvk demo_pod [demo_pod] =
      (Inr \<lparr>un_GVK = deployment_gvk, un_Key = demo_pod, un_Body = []\<rparr>, [demo_pod])"
    by (simp_all add: demo_env_def demo_cluster_def)
  show ?thesis
    using Restart_Perform_outcome [OF key now get, of demo_base] by (auto simp: demo_facts json Let_def)
qed

end
