(* ===== verification/Retry.thy ===== *)
theory Retry
  imports Prelude
begin

text \<open>
  \<open>k8s.io/client-go/util/retry\<close> is a parameter of the definitions that call it. Its
  documentation: \<open>OnError\<close> calls the function again while it fails with an error that the
  test calls retriable, up to the maximum number of attempts that the backoff gives, and
  returns the last error; \<open>RetryOnConflict\<close> is \<open>OnError\<close> with the test \<open>IsConflict\<close>. The
  waiting between the attempts is not part of the model.
\<close>

type_synonym 's attempt = "'s \<Rightarrow> (goerror option \<times> 's) go"
type_synonym 's retrier = "(goerror \<Rightarrow> bool) \<Rightarrow> 's attempt \<Rightarrow> 's attempt"

text \<open>The documented behaviour with \<open>n\<close> retries after the first attempt.\<close>

fun bounded_attempts :: "nat \<Rightarrow> 's retrier" where
  "bounded_attempts 0 retriable f s = f s"
| "bounded_attempts (Suc n) retriable f s =
     go_bind (f s) (\<lambda>(r, s1).
       (case r of
          None \<Rightarrow> Ret (None, s1)
        | Some err \<Rightarrow> if retriable err then bounded_attempts n retriable f s1 else Ret (Some err, s1)))"

definition retry_contract :: "nat \<Rightarrow> 's retrier \<Rightarrow> bool" where
  "retry_contract n OnError \<longleftrightarrow> OnError = bounded_attempts n"

definition RetryOnConflict :: "'s retrier \<Rightarrow> 's attempt \<Rightarrow> 's attempt" where
  "RetryOnConflict OnError f = OnError IsConflict f"

lemma bounded_attempts_contract [simp]: "retry_contract n (bounded_attempts n)"
  by (simp add: retry_contract_def)

lemma bounded_attempts_success: "f s = Ret (None, s') \<Longrightarrow> bounded_attempts n retriable f s = Ret (None, s')"
  by (cases n) simp_all

lemma bounded_attempts_fatal:
  "f s = Ret (Some err, s') \<Longrightarrow> \<not> retriable err \<Longrightarrow> bounded_attempts n retriable f s = Ret (Some err, s')"
  by (cases n) simp_all

lemma bounded_attempts_panics: "f s = Panics m \<Longrightarrow> bounded_attempts n retriable f s = Panics m"
  by (cases n) simp_all

text \<open>A property of the state that every attempt keeps, and one that every last attempt gives.\<close>

lemma bounded_attempts_invar:
  assumes "bounded_attempts n retriable f s = Ret (r, s')" and "I s"
    and "\<And>s r s'. I s \<Longrightarrow> f s = Ret (r, s') \<Longrightarrow> I s' \<and> Q r s'"
  shows "I s' \<and> Q r s'"
  using assms(1,2)
proof (induction n arbitrary: s)
  case 0
  then show ?case using assms(3) by simp
next
  case (Suc n)
  from Suc.prems(1) obtain r1 s1 where one: "f s = Ret (r1, s1)"
    and rest: "(case r1 of None \<Rightarrow> Ret (None, s1)
       | Some err \<Rightarrow> if retriable err then bounded_attempts n retriable f s1 else Ret (Some err, s1)) = Ret (r, s')"
    by (auto elim: go_bind_RetE)
  have inv: "I s1 \<and> Q r1 s1"
    using assms(3) [OF Suc.prems(2) one] .
  show ?case
    using rest inv Suc.IH [of s1] by (auto split: option.split_asm if_split_asm)
qed

lemma bounded_attempts_returns:
  assumes "\<And>s. returns (f s)"
  shows "returns (bounded_attempts n retriable f s)"
  using assms
proof (induction n arbitrary: s)
  case (Suc n)
  from Suc.prems [of s] obtain r s1 where "f s = Ret (r, s1)"
    by (auto simp: returns_iff)
  then show ?case
    using Suc by (simp split: option.split)
qed simp

text \<open>A loop whose attempts return as long as the state satisfies an invariant of the failed attempts.\<close>

lemma bounded_attempts_returns_inv:
  assumes "I s" and "\<And>s. I s \<Longrightarrow> \<exists>r s'. f s = Ret (r, s') \<and> (r \<noteq> None \<longrightarrow> I s')"
  shows "returns (bounded_attempts n retriable f s)"
  using assms(1)
proof (induction n arbitrary: s)
  case 0
  then show ?case using assms(2) by fastforce
next
  case (Suc n)
  then obtain r s1 where "f s = Ret (r, s1)" "r \<noteq> None \<longrightarrow> I s1"
    using assms(2) by blast
  then show ?case
    using Suc.IH by (cases r) simp_all
qed

end
