(* ===== verification/Runner.thy ===== *)
theory Runner
  imports Actions Retry
begin

text \<open>
  The registry of action types and the runner of \<open>pkg/actions/action.go\<close>: from the actions
  of a countermeasure to their implementations, and the sequence of attempts, metrics and
  recorded events when an event arrives.
\<close>

section \<open>The registry\<close>

text \<open>
  \<open>reflect.Type\<close> of the four specs; the key of the builder map. Client and REST
  configuration of an \<open>ActionContext\<close> are the field \<open>ctx_env\<close>.
\<close>

datatype SpecType = DeleteSpecType | PatchSpecType | DebugSpecType | RestartSpecType

record 'w ActionContext =
  ctx_env :: "'w env"
  ctx_CounterMeasure :: CounterMeasure

type_synonym 'w ActionBuilder = "Action \<Rightarrow> 'w ActionContext \<Rightarrow> bool \<Rightarrow> ActionImpl go"

text \<open>The builder map is nil until the first registration.\<close>

record 'w Registry =
  rg_builders :: "(SpecType, 'w ActionBuilder) gomap option"

definition empty_registry :: "'w Registry" where
  "empty_registry = \<lparr>rg_builders = None\<rparr>"

definition RegisterAction :: "SpecType \<Rightarrow> 'w ActionBuilder \<Rightarrow> 'w Registry \<Rightarrow> 'w Registry" where
  "RegisterAction prototype builder r =
     (let builders = (case rg_builders r of None \<Rightarrow> [] | Some m \<Rightarrow> m)
      in r\<lparr>rg_builders := Some (map_put prototype builder builders)\<rparr>)"

definition build_delete :: "'w ActionBuilder" where
  "build_delete spec c dryRun =
     (case ac_Delete spec of
        None \<Rightarrow> Panics ''nil pointer dereference''
      | Some s \<Rightarrow> Ret (NewDeleteFromBase (NewBase spec dryRun) s))"

definition build_debug :: "'w ActionBuilder" where
  "build_debug spec c dryRun =
     (case env_NewForConfig (ctx_env c) of
        Some err \<Rightarrow> Panics ''not able to create a k8s config for the debug action''
      | None \<Rightarrow>
          (case ac_Debug spec of
             None \<Rightarrow> Panics ''nil pointer dereference''
           | Some s \<Rightarrow> Ret (NewDebugFromBase (NewBase spec dryRun) s)))"

definition build_patch :: "'w ActionBuilder" where
  "build_patch spec c dryRun =
     (case ac_Patch spec of
        None \<Rightarrow> Panics ''nil pointer dereference''
      | Some s \<Rightarrow> Ret (NewPatchFromBase (NewBase spec dryRun) s))"

definition build_restart :: "'w ActionBuilder" where
  "build_restart spec c dryRun =
     (case ac_Restart spec of
        None \<Rightarrow> Panics ''nil pointer dereference''
      | Some s \<Rightarrow> Ret (NewRestartFromBase (NewBase spec dryRun) s))"

definition Initialize :: "'w Registry \<Rightarrow> 'w Registry" where
  "Initialize r =
     (let r1 = RegisterAction DeleteSpecType build_delete r;
          r2 = RegisterAction DebugSpecType build_debug r1;
          r3 = RegisterAction PatchSpecType build_patch r2
      in RegisterAction RestartSpecType build_restart r3)"

text \<open>
  \<open>create\<close> walks over the fields of the struct by reflection and takes the first non-nil
  pointer for which a builder is registered.
\<close>

definition spec_fields :: "Action \<Rightarrow> (SpecType \<times> bool) list" where
  "spec_fields a =
     [(DeleteSpecType, ac_Delete a \<noteq> None), (PatchSpecType, ac_Patch a \<noteq> None),
      (DebugSpecType, ac_Debug a \<noteq> None), (RestartSpecType, ac_Restart a \<noteq> None)]"

definition find_builder :: "'w Registry \<Rightarrow> SpecType \<Rightarrow> 'w ActionBuilder option" where
  "find_builder r t = (case rg_builders r of None \<Rightarrow> None | Some m \<Rightarrow> map_of m t)"

fun create_loop :: "'w Registry \<Rightarrow> 'w ActionContext \<Rightarrow> Action \<Rightarrow> bool \<Rightarrow> (SpecType \<times> bool) list \<Rightarrow> (goerror + ActionImpl) go" where
  "create_loop r ctx action dryRun [] =
     Ret (Inl (Errorf (''action '' @ quoted (ac_Name action) @ '' is either mis-configured or using an unknown action type'')))"
| "create_loop r ctx action dryRun ((t, nonnil) # fs) =
     (if nonnil
      then (case find_builder r t of
              Some builder \<Rightarrow> go_bind (builder action ctx dryRun) (\<lambda>a. Ret (Inr a))
            | None \<Rightarrow> create_loop r ctx action dryRun fs)
      else create_loop r ctx action dryRun fs)"

definition create :: "'w Registry \<Rightarrow> 'w ActionContext \<Rightarrow> Action \<Rightarrow> bool \<Rightarrow> (goerror + ActionImpl) go" where
  "create r ctx action dryRun = create_loop r ctx action dryRun (spec_fields action)"

fun new_runner_loop :: "'w Registry \<Rightarrow> 'w ActionContext \<Rightarrow> bool \<Rightarrow> Action list \<Rightarrow> ActionImpl list \<Rightarrow> (goerror + ActionImpl list) go" where
  "new_runner_loop r ctx dryRun [] runner = Ret (Inr runner)"
| "new_runner_loop r ctx dryRun (action # actions) runner =
     go_bind (create r ctx action dryRun) (\<lambda>res.
       (case res of
          Inl err \<Rightarrow> Ret (Inl err)
        | Inr actionImpl \<Rightarrow> new_runner_loop r ctx dryRun actions (runner @ [actionImpl])))"

definition NewRunner :: "'w Registry \<Rightarrow> 'w ActionContext \<Rightarrow> (goerror + ActionImpl list) go" where
  "NewRunner r ctx =
     (let spec = cm_Spec (ctx_CounterMeasure ctx)
      in new_runner_loop r ctx (cs_DryRun spec) (cs_Actions spec) [])"

section \<open>The runner\<close>

text \<open>
  What the runner reports: the two counters of \<open>pkg/metrics/metrics.go\<close> with their labels,
  and the events given to the recorder. \<open>ErrorText\<close> is \<open>err.Error()\<close>.
\<close>

datatype report_text = Text string | ErrorText goerror

datatype report =
    ActionErrors string string
  | ActionsTaken string string
  | Recorded string string report_text

definition taken_message :: "'w env \<Rightarrow> CounterMeasure \<Rightarrow> ActionImpl \<Rightarrow> Event \<Rightarrow> string go" where
  "taken_message env cm action event =
     go_bind (GetTargetObjectName env action event) (\<lambda>target.
       (let msg = ''Alert detected, action '' @ quoted (action_GetName action) @ '' taken on '' @ target
        in Ret (if cs_DryRun (cm_Spec cm) then msg @ ''. DryRun=true'' else msg)))"

fun run_loop :: "'w cluster retrier \<Rightarrow> 'w ActionContext \<Rightarrow> Event \<Rightarrow> ActionImpl list \<Rightarrow> 'w cluster \<times> report list \<Rightarrow> ('w cluster \<times> report list) go" where
  "run_loop OnError ctx event [] (cl, out) = Ret (cl, out)"
| "run_loop OnError ctx event (action # rest) (cl, out) =
     (let cm = ctx_CounterMeasure ctx; ns = om_Namespace (cm_ObjectMeta cm)
      in go_bind (OnError (\<lambda>err. SupportsRetry action) (Perform (ctx_env ctx) action event) cl) (\<lambda>(r, cl1).
           (case r of
              Some err \<Rightarrow> Ret (cl1, out @ [ActionErrors ns (GetType action), Recorded ''Warning'' ''ActionError'' (ErrorText err)])
            | None \<Rightarrow>
                go_bind (taken_message (ctx_env ctx) cm action event) (\<lambda>msg.
                  run_loop OnError ctx event rest
                    (cl1, out @ [ActionsTaken ns (GetType action), Recorded ''Normal'' ''ActionTaken'' (Text msg)])))))"

definition Run :: "'w cluster retrier \<Rightarrow> ActionImpl list \<Rightarrow> 'w ActionContext \<Rightarrow> Event \<Rightarrow> 'w cluster \<Rightarrow> ('w cluster \<times> report list) go" where
  "Run OnError seq eventCtx event cl = run_loop OnError eventCtx event seq (cl, [])"

section \<open>Building a runner\<close>

text \<open>The implementation that an action of a valid spec stands for.\<close>

fun impl_of :: "bool \<Rightarrow> Action \<Rightarrow> ActionImpl \<Rightarrow> bool" where
  "impl_of dry a (Delete b s) \<longleftrightarrow> b = NewBase a dry \<and> ac_Delete a = Some s"
| "impl_of dry a (Patch b s) \<longleftrightarrow> b = NewBase a dry \<and> ac_Patch a = Some s"
| "impl_of dry a (Debug b s) \<longleftrightarrow> b = NewBase a dry \<and> ac_Debug a = Some s"
| "impl_of dry a (Restart b s) \<longleftrightarrow> b = NewBase a dry \<and> ac_Restart a = Some s"

lemma impl_of_base: "impl_of dry a i \<Longrightarrow> base_of i = NewBase a dry"
  by (cases i) auto

lemma impl_of_type: "impl_of dry a i \<Longrightarrow> GetType i \<in> action_types a"
  by (cases i) (auto simp: action_types_def)

lemma NewBase_simps [simp]:
  "ba_DryRun (NewBase a dry) = dry" "ba_RetryEnabled (NewBase a dry) = ac_RetryEnabled a" "ba_Name (NewBase a dry) = ac_Name a"
  by (simp_all add: NewBase_def)

lemma find_builder_Initialize [simp]:
  "find_builder (Initialize r) DeleteSpecType = Some build_delete"
  "find_builder (Initialize r) PatchSpecType = Some build_patch"
  "find_builder (Initialize r) DebugSpecType = Some build_debug"
  "find_builder (Initialize r) RestartSpecType = Some build_restart"
  by (simp_all add: find_builder_def Initialize_def RegisterAction_def Let_def map_of_put split: option.splits)

text \<open>What \<open>create\<close> returns with the registry of the program.\<close>

lemma create_Inr:
  assumes "create (Initialize r) ctx a dry = Ret (Inr i)"
  shows "impl_of dry a i"
  using assms
  by (auto simp: create_def spec_fields_def build_delete_def build_patch_def build_debug_def build_restart_def constructor_defs
      elim!: go_bind_RetE split: if_split_asm option.split_asm)

lemma create_valid:
  assumes "valid_action a" and "env_NewForConfig (ctx_env ctx) = None"
  shows "\<exists>i. create (Initialize r) ctx a dry = Ret (Inr i)"
proof -
  have "action_types a \<noteq> {}"
    using assms(1) by (auto simp: valid_action_def)
  then consider "ac_Delete a \<noteq> None" | "ac_Patch a \<noteq> None" | "ac_Debug a \<noteq> None" | "ac_Restart a \<noteq> None"
    by (auto simp: action_types_def)
  then show ?thesis
    using assms(2)
    by cases (auto simp: create_def spec_fields_def build_delete_def build_patch_def build_debug_def build_restart_def constructor_defs)
qed

lemma new_runner_loop_Inr:
  "new_runner_loop (Initialize r) ctx dry actions acc = Ret (Inr seq) \<Longrightarrow>
   \<exists>new. seq = acc @ new \<and> list_all2 (impl_of dry) actions new"
proof (induction actions arbitrary: acc)
  case Nil
  then show ?case by simp
next
  case (Cons a actions)
  from Cons.prems obtain i where i: "create (Initialize r) ctx a dry = Ret (Inr i)"
    "new_runner_loop (Initialize r) ctx dry actions (acc @ [i]) = Ret (Inr seq)"
    by (auto elim!: go_bind_RetE split: sum.split_asm)
  from Cons.IH [OF i(2)] show ?case
    using create_Inr [OF i(1)] by force
qed

lemma new_runner_loop_valid:
  "\<forall>a \<in> set actions. valid_action a \<Longrightarrow> env_NewForConfig (ctx_env ctx) = None \<Longrightarrow>
   \<exists>seq. new_runner_loop (Initialize r) ctx dry actions acc = Ret (Inr seq)"
proof (induction actions arbitrary: acc)
  case Nil
  then show ?case by simp
next
  case (Cons a actions)
  obtain i where "create (Initialize r) ctx a dry = Ret (Inr i)"
    using create_valid Cons.prems by (metis list.set_intros(1))
  then show ?case
    using Cons by simp
qed

lemma NewRunner_Inr:
  assumes "NewRunner (Initialize r) ctx = Ret (Inr seq)"
  shows "list_all2 (impl_of (cs_DryRun (cm_Spec (ctx_CounterMeasure ctx)))) (cs_Actions (cm_Spec (ctx_CounterMeasure ctx))) seq"
  using new_runner_loop_Inr [where acc = "[]"] assms by (fastforce simp: NewRunner_def Let_def)

lemma NewRunner_valid:
  assumes "\<forall>a \<in> set (cs_Actions (cm_Spec (ctx_CounterMeasure ctx))). valid_action a"
    and "env_NewForConfig (ctx_env ctx) = None"
  shows "\<exists>seq. NewRunner (Initialize r) ctx = Ret (Inr seq)"
  using new_runner_loop_valid [OF assms] unfolding NewRunner_def Let_def by blast

text \<open>
  A countermeasure that passes validation always gets a runner, provided a client can be
  made from the REST configuration: the registry builds one implementation per action, in
  the order of the spec, of the type that the action sets, with the name and the retry flag
  of the action and the dry-run flag of the countermeasure.
\<close>

lemma NewRunner_of_validated:
  assumes "aggregate_contract NewAggregate"
    and "ValidateSpec NewAggregate (cm_Spec (ctx_CounterMeasure ctx)) = None"
    and "env_NewForConfig (ctx_env ctx) = None"
  shows "\<exists>seq. NewRunner (Initialize r) ctx = Ret (Inr seq) \<and>
    list_all2 (\<lambda>a i. action_types a = {GetType i} \<and>
        base_of i = NewBase a (cs_DryRun (cm_Spec (ctx_CounterMeasure ctx))))
      (cs_Actions (cm_Spec (ctx_CounterMeasure ctx))) seq"
proof -
  let ?spec = "cm_Spec (ctx_CounterMeasure ctx)"
  have valid: "\<forall>a \<in> set (cs_Actions ?spec). valid_action a"
    by (rule ValidateSpec_actions [OF assms(1,2)])
  obtain seq where seq: "NewRunner (Initialize r) ctx = Ret (Inr seq)"
    using NewRunner_valid [OF valid assms(3)] by blast
  have typed: "action_types a = {GetType i}" if "valid_action a" "impl_of (cs_DryRun ?spec) a i" for a i
    using impl_of_type [OF that(2)] that(1) by (auto simp: valid_action_def)
  have "list_all2 (\<lambda>a i. action_types a = {GetType i} \<and> base_of i = NewBase a (cs_DryRun ?spec)) (cs_Actions ?spec) seq"
    by (rule list.rel_mono_strong [OF NewRunner_Inr [OF seq]]) (meson impl_of_base typed valid)
  with seq show ?thesis by blast
qed

definition demo_ctx :: "NamespacedName list ActionContext" where
  "demo_ctx = \<lparr>ctx_env = demo_env, ctx_CounterMeasure = sample_cm\<rparr>"

section \<open>Running\<close>

text \<open>The two reports of an action that was taken.\<close>

definition taken_reports :: "'w ActionContext \<Rightarrow> Event \<Rightarrow> ActionImpl \<Rightarrow> report list" where
  "taken_reports ctx event a =
     (case taken_message (ctx_env ctx) (ctx_CounterMeasure ctx) a event of
        Ret msg \<Rightarrow> [ActionsTaken (om_Namespace (cm_ObjectMeta (ctx_CounterMeasure ctx))) (GetType a),
                    Recorded ''Normal'' ''ActionTaken'' (Text msg)]
      | Panics m \<Rightarrow> [])"

definition error_reports :: "'w ActionContext \<Rightarrow> ActionImpl \<Rightarrow> goerror \<Rightarrow> report list" where
  "error_reports ctx a err =
     [ActionErrors (om_Namespace (cm_ObjectMeta (ctx_CounterMeasure ctx))) (GetType a),
      Recorded ''Warning'' ''ActionError'' (ErrorText err)]"

lemma run_loop_ConsE:
  assumes "run_loop OnError ctx event (a # seq) (cl, out) = Ret res"
  obtains (fails) err cl1 where "OnError (\<lambda>err. SupportsRetry a) (Perform (ctx_env ctx) a event) cl = Ret (Some err, cl1)"
      "res = (cl1, out @ error_reports ctx a err)"
  | (taken) cl1 where "OnError (\<lambda>err. SupportsRetry a) (Perform (ctx_env ctx) a event) cl = Ret (None, cl1)"
      "run_loop OnError ctx event seq (cl1, out @ taken_reports ctx event a) = Ret res"
  using assms
  by (auto simp: Let_def error_reports_def taken_reports_def elim!: go_bind_RetE split: option.split_asm prod.split_asm)

lemma run_loop_fails:
  assumes "OnError (\<lambda>err. SupportsRetry a) (Perform (ctx_env ctx) a event) cl = Ret (Some err, cl1)"
  shows "run_loop OnError ctx event (a # seq) (cl, out) = Ret (cl1, out @ error_reports ctx a err)"
  using assms by (simp add: Let_def error_reports_def)

text \<open>
  The action number \<open>i\<close>, with its retries, turns the cluster \<open>cls ! i\<close> into the next one and
  succeeds, for all numbers below \<open>k\<close>.
\<close>

definition succeeding :: "'w cluster retrier \<Rightarrow> 'w ActionContext \<Rightarrow> Event \<Rightarrow> ActionImpl list \<Rightarrow> nat \<Rightarrow> 'w cluster list \<Rightarrow> bool" where
  "succeeding OnError ctx event seq k cls \<longleftrightarrow> length cls = Suc k \<and>
     (\<forall>i < k. OnError (\<lambda>err. SupportsRetry (seq ! i)) (Perform (ctx_env ctx) (seq ! i) event) (cls ! i) = Ret (None, cls ! Suc i) \<and>
        returns (taken_message (ctx_env ctx) (ctx_CounterMeasure ctx) (seq ! i) event))"

lemma succeeding_messages:
  "succeeding OnError ctx event seq k cls \<Longrightarrow> k \<le> length seq \<Longrightarrow>
   \<forall>a \<in> set (take k seq). returns (taken_message (ctx_env ctx) (ctx_CounterMeasure ctx) a event)"
  by (auto simp: succeeding_def in_set_conv_nth)

lemma succeeding_Cons:
  assumes "OnError (\<lambda>err. SupportsRetry a) (Perform (ctx_env ctx) a event) cl = Ret (None, cl1)"
    and "returns (taken_message (ctx_env ctx) (ctx_CounterMeasure ctx) a event)" and "succeeding OnError ctx event seq k (cl1 # cls)"
  shows "succeeding OnError ctx event (a # seq) (Suc k) (cl # cl1 # cls)"
  using assms by (auto simp: succeeding_def nth_Cons split: nat.split)

lemma run_loop_trace:
  "run_loop OnError ctx event seq (cl, out) = Ret (cl', out') \<Longrightarrow>
   \<exists>k \<le> length seq. \<exists>cls. succeeding OnError ctx event seq k (cl # cls) \<and>
     run_loop OnError ctx event (take (Suc k) seq) (cl, out) = Ret (cl', out') \<and>
     (if k = length seq then cl' = last (cl # cls) \<and> out' = out @ concat (map (taken_reports ctx event) seq)
      else \<exists>err. OnError (\<lambda>err. SupportsRetry (seq ! k)) (Perform (ctx_env ctx) (seq ! k) event) (last (cl # cls)) = Ret (Some err, cl') \<and>
        out' = out @ concat (map (taken_reports ctx event) (take k seq)) @ error_reports ctx (seq ! k) err)"
proof (induction seq arbitrary: cl out)
  case Nil
  then show ?case
    by (intro exI [of _ 0] conjI exI [of _ "[]"]) (simp_all add: succeeding_def)
next
  case (Cons a seq)
  from Cons.prems show ?case
  proof (cases rule: run_loop_ConsE)
    case (fails err cl1)
    then show ?thesis
      by (intro exI [of _ 0] conjI exI [of _ "[]"]) (auto simp: run_loop_fails succeeding_def simp del: run_loop.simps)
  next
    case (taken cl1)
    from Cons.IH [OF taken(2)] obtain k cls where k: "k \<le> length seq" "succeeding OnError ctx event seq k (cl1 # cls)"
      "run_loop OnError ctx event (take (Suc k) seq) (cl1, out @ taken_reports ctx event a) = Ret (cl', out')"
      "if k = length seq then cl' = last (cl1 # cls) \<and> out' = (out @ taken_reports ctx event a) @ concat (map (taken_reports ctx event) seq)
       else \<exists>err. OnError (\<lambda>err. SupportsRetry (seq ! k)) (Perform (ctx_env ctx) (seq ! k) event) (last (cl1 # cls)) = Ret (Some err, cl') \<and>
         out' = (out @ taken_reports ctx event a) @ concat (map (taken_reports ctx event) (take k seq)) @ error_reports ctx (seq ! k) err"
      by blast
    obtain msg where msg: "taken_message (ctx_env ctx) (ctx_CounterMeasure ctx) a event = Ret msg"
      using Cons.prems taken(1) by (auto simp: Let_def elim: go_bind_RetE)
    then have "run_loop OnError ctx event (take (Suc (Suc k)) (a # seq)) (cl, out) = Ret (cl', out')"
      using k(3) taken(1) by (simp add: Let_def taken_reports_def)
    moreover have "succeeding OnError ctx event (a # seq) (Suc k) (cl # cl1 # cls)"
      using succeeding_Cons [OF taken(1) _ k(2)] msg by simp
    ultimately show ?thesis
      using k(1,4) by (intro exI [of _ "Suc k"] conjI exI [of _ "cl1 # cls"]) auto
  qed
qed

text \<open>C26:
  The actions run in order and the first failure ends the run. There is a number \<open>k\<close> of actions
  that succeed, each on the cluster that the one before left, and are each reported by one
  increment of the taken counter and one normal event. Either these are all the actions and
  the run ends with the cluster that the last one left; or the action after them, performed
  on that cluster with its retries, returns an error, which is reported by one increment of the error counter
  and one warning with this error, and the run ends there: with the cluster that this action
  left, and with the same result as the list cut off after it, so the later actions have no
  effect.
\<close>

theorem Run_stops_at_first_error:
  assumes "Run OnError seq ctx event cl = Ret (cl', out)"
  shows "\<exists>k \<le> length seq. \<exists>cls. length cls = Suc k \<and> hd cls = cl \<and>
     (\<forall>i < k. OnError (\<lambda>err. SupportsRetry (seq ! i)) (Perform (ctx_env ctx) (seq ! i) event) (cls ! i) = Ret (None, cls ! Suc i) \<and>
        returns (taken_message (ctx_env ctx) (ctx_CounterMeasure ctx) (seq ! i) event)) \<and>
     Run OnError (take (Suc k) seq) ctx event cl = Ret (cl', out) \<and>
     (if k = length seq then cl' = last cls \<and> out = concat (map (taken_reports ctx event) seq)
      else \<exists>err. OnError (\<lambda>err. SupportsRetry (seq ! k)) (Perform (ctx_env ctx) (seq ! k) event) (last cls) = Ret (Some err, cl') \<and>
        out = concat (map (taken_reports ctx event) (take k seq)) @ error_reports ctx (seq ! k) err)"
proof -
  obtain k cls where "k \<le> length seq" "succeeding OnError ctx event seq k (cl # cls)"
    "run_loop OnError ctx event (take (Suc k) seq) (cl, []) = Ret (cl', out)"
    "if k = length seq then cl' = last (cl # cls) \<and> out = concat (map (taken_reports ctx event) seq)
     else \<exists>err. OnError (\<lambda>err. SupportsRetry (seq ! k)) (Perform (ctx_env ctx) (seq ! k) event) (last (cl # cls)) = Ret (Some err, cl') \<and>
       out = concat (map (taken_reports ctx event) (take k seq)) @ error_reports ctx (seq ! k) err"
    using run_loop_trace [of OnError ctx event seq cl "[]" cl' out] assms unfolding Run_def append_Nil by blast
  then show ?thesis
    by (intro exI [of _ k] conjI exI [of _ "cl # cls"]) (simp_all add: succeeding_def Run_def del: last.simps split del: if_split)
qed

definition demo_seq :: "ActionImpl list" where
  "demo_seq = [Delete demo_base demo_delete, Debug demo_base demo_debug]"

theorem Run_stops_at_first_error_witness:
  "\<exists>cl' out k cls. Run (bounded_attempts 3) demo_seq demo_ctx demo_event \<lparr>cl_world = [], cl_log = []\<rparr> = Ret (cl', out) \<and>
     k \<le> 2 \<and> length cls = Suc k \<and> hd cls = \<lparr>cl_world = [], cl_log = []\<rparr> \<and>
     (if k = 2 then cl' = last cls \<and> out = concat (map (taken_reports demo_ctx demo_event) demo_seq)
      else \<exists>err. bounded_attempts 3 (\<lambda>err. SupportsRetry (demo_seq ! k)) (Perform (ctx_env demo_ctx) (demo_seq ! k) demo_event) (last cls) =
          Ret (Some err, cl') \<and>
        out = concat (map (taken_reports demo_ctx demo_event) (take k demo_seq)) @ error_reports demo_ctx (demo_seq ! k) err)"
proof -
  have "returns (Run (bounded_attempts 3) demo_seq demo_ctx demo_event \<lparr>cl_world = [], cl_log = []\<rparr>)"
    by code_simp
  then obtain cl' out where run: "Run (bounded_attempts 3) demo_seq demo_ctx demo_event \<lparr>cl_world = [], cl_log = []\<rparr> = Ret (cl', out)"
    by (auto simp: returns_iff)
  have "length demo_seq = 2"
    by (simp add: demo_seq_def)
  then show ?thesis
    using run Run_stops_at_first_error [OF run] by metis
qed

text \<open>Attempts of one action under a retry.\<close>

definition attempt_bound :: "nat \<Rightarrow> ActionImpl \<Rightarrow> nat" where
  "attempt_bound n a = (if SupportsRetry a then Suc n else 1)"

lemma bounded_attempts_attempts:
  "bounded_attempts n retriable (Perform env a event) cl = Ret (r, cl') \<Longrightarrow>
   \<exists>k. k \<le> (if \<exists>e. retriable e then Suc n else 1) \<and> any_action.attempts env a event k cl cl'"
proof (induction n arbitrary: cl)
  case 0
  then have "any_action.attempts env a event (Suc 0) cl cl'"
    by (auto intro: any_action.attempts.intros)
  then show ?case
    by (intro exI [of _ 1]) auto
next
  case (Suc n)
  from Suc.prems obtain r1 cl1 where one: "Perform env a event cl = Ret (r1, cl1)"
    and rest: "(case r1 of None \<Rightarrow> Ret (None, cl1)
       | Some err \<Rightarrow> if retriable err then bounded_attempts n retriable (Perform env a event) cl1 else Ret (Some err, cl1)) = Ret (r, cl')"
    by (auto elim: go_bind_RetE)
  show ?case
  proof (cases "\<exists>err. r1 = Some err \<and> retriable err")
    case True
    then obtain k where "k \<le> Suc n" "any_action.attempts env a event k cl1 cl'"
      using Suc.IH [of cl1] rest by (auto split: if_splits)
    then show ?thesis
      using True any_action.attempts.more [OF one] by (intro exI [of _ "Suc k"]) auto
  next
    case False
    then have "cl' = cl1"
      using rest by (auto split: option.split_asm if_split_asm)
    then show ?thesis
      using any_action.attempts.more [OF one any_action.attempts.none] by (intro exI [of _ 1]) auto
  qed
qed

lemma retried_sends:
  assumes "retry_contract n OnError"
    and "OnError (\<lambda>err. SupportsRetry a) (Perform env a event) cl = Ret (r, cl')"
  shows "sends (ba_DryRun (base_of a)) (attempt_bound n a) cl cl'"
proof -
  have "bounded_attempts n (\<lambda>err. SupportsRetry a) (Perform env a event) cl = Ret (r, cl')"
    using assms by (simp add: retry_contract_def)
  from bounded_attempts_attempts [OF this] obtain k where
    "k \<le> attempt_bound n a" "any_action.attempts env a event k cl cl'"
    by (auto simp: attempt_bound_def)
  then show ?thesis
    using any_action.attempts_sends sends_mono by metis
qed

lemma run_loop_sends:
  assumes "retry_contract n OnError" and "\<forall>a \<in> set seq. ba_DryRun (base_of a) = dry"
    and "run_loop OnError ctx event seq (cl, out) = Ret (cl', out')"
  shows "sends dry (sum_list (map (attempt_bound n) seq)) cl cl'"
  using assms(2,3)
proof (induction seq arbitrary: cl out)
  case Nil
  then show ?case by (auto intro: sends_none)
next
  case (Cons a seq)
  from Cons.prems(2) show ?case
  proof (cases rule: run_loop_ConsE)
    case (fails err cl1)
    then show ?thesis
      using retried_sends [OF assms(1) fails(1)] Cons.prems(1) by (auto intro: sends_mono)
  next
    case (taken cl1)
    show ?thesis
      using sends_trans [OF retried_sends [OF assms(1) taken(1), unfolded bspec [OF Cons.prems(1) list.set_intros(1)]]]
        Cons.IH [OF _ taken(2)] Cons.prems(1) by simp
  qed
qed

text \<open>C6:
  A dry-run countermeasure changes nothing in the cluster, and a real one is not turned into
  a dry run: every write that a run sends carries the dry-run option exactly if the spec has
  \<open>dryRun\<close> set. And writes are bounded: with retries disabled an action sends at most one,
  otherwise at most one per attempt, and there is one attempt more than the backoff has
  retries.
\<close>

theorem Run_respects_dry_run:
  assumes "retry_contract n OnError"
    and "NewRunner (Initialize r) ctx = Ret (Inr seq)"
    and "Run OnError seq ctx event cl = Ret (cl', out)"
  shows "\<exists>reqs. cl_log cl' = cl_log cl @ reqs \<and>
     (\<forall>req \<in> set reqs. is_write req \<longrightarrow> is_dry req = cs_DryRun (cm_Spec (ctx_CounterMeasure ctx))) \<and>
     length (filter is_write reqs) \<le>
       sum_list (map (\<lambda>a. if ac_RetryEnabled a then Suc n else 1) (cs_Actions (cm_Spec (ctx_CounterMeasure ctx))))"
proof -
  let ?spec = "cm_Spec (ctx_CounterMeasure ctx)"
  have impls: "list_all2 (impl_of (cs_DryRun ?spec)) (cs_Actions ?spec) seq"
    by (rule NewRunner_Inr [OF assms(2)])
  then have bases: "base_of (seq ! j) = NewBase (cs_Actions ?spec ! j) (cs_DryRun ?spec)" if "j < length seq" for j
    using that impl_of_base by (fastforce simp: list_all2_conv_all_nth)
  then have "\<forall>i \<in> set seq. ba_DryRun (base_of i) = cs_DryRun ?spec"
    by (auto simp: in_set_conv_nth)
  moreover have "map (attempt_bound n) seq = map (\<lambda>a. if ac_RetryEnabled a then Suc n else 1) (cs_Actions ?spec)"
    using bases list_all2_lengthD [OF impls] by (auto simp: attempt_bound_def SupportsRetry_def intro!: nth_equalityI)
  ultimately show ?thesis
    using run_loop_sends [OF assms(1), of seq "cs_DryRun ?spec" ctx event cl "[]" cl' out] assms(3)
    by (auto simp: Run_def sends_def)
qed

theorem Run_respects_dry_run_witness:
  "\<exists>seq cl' out. NewRunner (Initialize empty_registry) demo_ctx = Ret (Inr seq) \<and>
     Run (bounded_attempts 3) seq demo_ctx demo_event demo_cluster = Ret (cl', out) \<and>
     (\<exists>reqs. cl_log cl' = reqs \<and> (\<forall>req \<in> set reqs. \<not> (is_write req \<and> is_dry req)) \<and>
        length (filter is_write reqs) \<le> 1)"
proof -
  let ?seq = "[Delete (NewBase sample_delete False) (the (ac_Delete sample_delete))]"
  have new: "NewRunner (Initialize empty_registry) demo_ctx = Ret (Inr ?seq)"
    by (simp add: NewRunner_def create_def spec_fields_def build_delete_def constructor_defs demo_ctx_def sample_cm_def
        sample_spec_def sample_delete_def Let_def)
  have "returns (Run (bounded_attempts 3) ?seq demo_ctx demo_event demo_cluster)"
    by code_simp
  then obtain cl' out where run: "Run (bounded_attempts 3) ?seq demo_ctx demo_event demo_cluster = Ret (cl', out)"
    by (auto simp: returns_iff)
  have "retry_contract 3 (bounded_attempts 3 :: NamespacedName list cluster retrier)"
    by (simp add: retry_contract_def)
  from Run_respects_dry_run [OF this new run] show ?thesis
    using new run by (auto simp: demo_ctx_def sample_cm_def sample_spec_def sample_delete_def demo_cluster_def)
qed

text \<open>
  Validation does not look at the templates: a countermeasure with a name template that
  does not parse can be admitted, gets its runner, and then panics at the first event it
  receives, which ends the operator.
\<close>

lemma validated_template_panics:
  assumes "aggregate_contract NewAggregate" and "retry_contract n OnError"
    and "ValidateSpec NewAggregate (cm_Spec (ctx_CounterMeasure ctx)) = None"
    and "env_NewForConfig (ctx_env ctx) = None"
    and "cs_Actions (cm_Spec (ctx_CounterMeasure ctx)) = a # rest" and "ac_Delete a = Some s"
    and "ToGroupVersionKind (env_ParseGroupVersion (ctx_env ctx)) (dl_TargetObjectRef s) = Inr gvk"
    and "env_Template (ctx_env ctx) (or_Name (dl_TargetObjectRef s)) = Inl err"
  shows "\<exists>seq m. NewRunner (Initialize r) ctx = Ret (Inr seq) \<and> Run OnError seq ctx event cl = Panics m"
proof -
  let ?spec = "cm_Spec (ctx_CounterMeasure ctx)"
  have valid: "\<forall>a \<in> set (cs_Actions ?spec). valid_action a"
    by (rule ValidateSpec_actions [OF assms(1,3)])
  obtain seq where seq: "NewRunner (Initialize r) ctx = Ret (Inr seq)"
    using NewRunner_valid [OF valid assms(4)] by blast
  obtain i seq' where i: "seq = i # seq'" "impl_of (cs_DryRun ?spec) a i"
    using NewRunner_Inr [OF seq] assms(5) by (auto simp: list_all2_Cons1)
  have only_delete: "action_types a = {''delete''}"
    using valid assms(5,6) by (auto simp: valid_action_def action_types_insert)
  then obtain b where del: "i = Delete b s"
    using impl_of_type [OF i(2)] i(2) assms(6) by (cases i) auto
  have "\<exists>m. Perform (ctx_env ctx) i event cl = Panics m"
    using assms(7,8) by (cases "env_Template (ctx_env ctx) (or_Namespace (dl_TargetObjectRef s))")
      (auto simp: del Delete_Perform_def ObjectKeyFromTemplate_def evaluateTemplate_def)
  then obtain m where m: "Perform (ctx_env ctx) i event cl = Panics m" ..
  have "bounded_attempts n (\<lambda>err. SupportsRetry i) (Perform (ctx_env ctx) i event) cl = Panics m"
    by (cases n) (simp_all add: m)
  then have "Run OnError seq ctx event cl = Panics m"
    using assms(2) i(1) by (simp add: Run_def retry_contract_def)
  with seq show ?thesis by blast
qed

end
