(* ===== verification/Action_Manager.thy ===== *)
theory Action_Manager
  imports Consumers Action_State Runner
begin

text \<open>
  \<open>pkg/actions/manager.go\<close>: the manager that subscribes a countermeasure to its event, and
  the goroutine that handles the events of one countermeasure. First the operations as the
  callers see them, then the goroutines, the event bus and the reconciler interleaved.
\<close>

section \<open>State and operations\<close>

text \<open>
  Where the goroutine of a countermeasure is: waiting for an event, with an event, with the
  entry it has looked up, with a runner, inside the actions, after the actions, ended. The
  steps between are the critical sections of the code.
\<close>

datatype handler_pc =
    HWait
  | HEvent Event
  | HEntry Event nat
  | HBuilt Event CounterMeasure "ActionImpl list"
  | HRunning Event CounterMeasure "ActionImpl list"
  | HRan Event
  | HDone

record handler =
  h_chan :: chan_id
  h_key :: ObjectKey
  h_pc :: handler_pc

record ('q, 'w) Manager =
  am_consumers :: "(NamespacedName, Consumer) gomap"
  am_state :: ActionState
  am_eventbus :: "'q EventBus"
  am_ActionRegistry :: "'w Registry"
  am_goroutines :: "handler list"

definition NewFromManager :: "'q EventBus \<Rightarrow> ('q, 'w) Manager" where
  "NewFromManager bus =
     \<lparr>am_consumers = [], am_state = NewState, am_eventbus = bus, am_ActionRegistry = Initialize empty_registry,
      am_goroutines = []\<rparr>"

text \<open>
  The resolution of the source selector: \<open>metav1.LabelSelectorAsSelector\<close> and the client's
  \<open>List\<close> are parameters; the list of sources is not used any further.
\<close>

definition resolve_sources :: "(LabelSelector \<Rightarrow> goerror + 'sel) \<Rightarrow> ('sel \<Rightarrow> goerror option) \<Rightarrow> OnEventSpec \<Rightarrow> goerror option" where
  "resolve_sources asSelector List onEvent =
     (case oe_SourceSelector onEvent of
        None \<Rightarrow> None
      | Some ls \<Rightarrow>
          (case asSelector ls of
             Inl err \<Rightarrow> Some err
           | Inr selector \<Rightarrow> List selector))"

definition new_handler :: "Consumer \<Rightarrow> ObjectKey \<Rightarrow> handler" where
  "new_handler c key = \<lparr>h_chan = OnEvent c, h_key = key, h_pc = HWait\<rparr>"

definition manager_Add :: "(LabelSelector \<Rightarrow> goerror + 'sel) \<Rightarrow> ('sel \<Rightarrow> goerror option) \<Rightarrow> string \<Rightarrow> CounterMeasure \<Rightarrow>
    ('q, 'w) Manager \<Rightarrow> (goerror option \<times> ('q, 'w) Manager) go" where
  "manager_Add asSelector List now cm m =
     (let onEvent = cs_OnEvent (cm_Spec cm)
      in case resolve_sources asSelector List onEvent of
           Some err \<Rightarrow> Ret (Some err, m)
         | None \<Rightarrow>
             (let (consumer, bus) = Subscribe_consumer now (oe_EventName onEvent) (am_eventbus m);
                  key = ToKey (cm_ObjectMeta cm)
              in Ret (None, m\<lparr>am_eventbus := bus,
                   am_consumers := map_put (ok_NamespacedName key) consumer (am_consumers m),
                   am_state := state_Add cm (am_state m),
                   am_goroutines := am_goroutines m @ [new_handler consumer key]\<rparr>)))"

definition manager_Remove :: "NamespacedName \<Rightarrow> ('q, 'w) Manager \<Rightarrow> (goerror option \<times> ('q, 'w) Manager) go" where
  "manager_Remove name m =
     go_bind (case map_of (am_consumers m) name of
                None \<Rightarrow> Ret (None, am_eventbus m)
              | Some consumer \<Rightarrow> UnSubscribe consumer (am_eventbus m)) (\<lambda>(err, bus).
       Ret (None, m\<lparr>am_eventbus := bus, am_consumers := map_del name (am_consumers m),
                    am_state := state_Remove name (am_state m)\<rparr>))"

definition manager_Exists :: "ObjectMeta \<Rightarrow> ('q, 'w) Manager \<Rightarrow> bool" where
  "manager_Exists objectName m =
     (let key = ToKey objectName in map_of (am_consumers m) (ok_NamespacedName key) \<noteq> None)"

section \<open>The body of the event loop\<close>

definition skipping :: report where
  "skipping = Recorded ''Normal'' ''Skipping'' (Text ''Previous execution is still in progress or suppressed.'')"

text \<open>\<open>GetCounterMeasure\<close>, with the test for nil.\<close>

definition on_lookup :: "int \<Rightarrow> ObjectKey \<Rightarrow> Event \<Rightarrow> ActionState \<Rightarrow> handler_pc \<times> ActionState" where
  "on_lookup now key ev s =
     (case GetCounterMeasure now key s of
        (None, s') \<Rightarrow> (HWait, s')
      | (Some a, s') \<Rightarrow> (HEntry ev a, s'))"

text \<open>The suppression test and the construction of the runner.\<close>

definition on_check :: "'w env \<Rightarrow> 'w Registry \<Rightarrow> int \<Rightarrow> Event \<Rightarrow> Entry \<Rightarrow> (handler_pc \<times> report list) go" where
  "on_check env registry now ev entry =
     (if IsSuppressed now ev entry then Ret (HWait, [skipping])
      else go_bind (NewRunner registry \<lparr>ctx_env = env, ctx_CounterMeasure = en_Countermeasure entry\<rparr>) (\<lambda>res.
             (case res of
                Inl err \<Rightarrow> Ret (HWait, [])
              | Inr seq \<Rightarrow> Ret (HBuilt ev (en_Countermeasure entry) seq, []))))"

text \<open>
  The whole body for one event, when nothing else runs: \<open>t1\<close>, \<open>t2\<close> and \<open>t3\<close> are the readings
  of the clock in \<open>GetCounterMeasure\<close>, \<open>IsSuppressed\<close> and \<open>CounterMeasureStart\<close>.
\<close>

definition handle_event :: "'w cluster retrier \<Rightarrow> 'w env \<Rightarrow> 'w Registry \<Rightarrow> int \<Rightarrow> int \<Rightarrow> int \<Rightarrow> ObjectKey \<Rightarrow> Event \<Rightarrow>
    ActionState \<Rightarrow> 'w cluster \<Rightarrow> (ActionState \<times> 'w cluster \<times> report list) go" where
  "handle_event OnError env registry t1 t2 t3 key ev s cl =
     (case GetCounterMeasure t1 key s of
        (None, s1) \<Rightarrow> Ret (s1, cl, [])
      | (Some a, s1) \<Rightarrow>
          (case as_entries s1 a of
             None \<Rightarrow> Panics ''nil pointer dereference''
           | Some entry \<Rightarrow>
               go_bind (on_check env registry t2 ev entry) (\<lambda>(pc, out).
                 (case pc of
                    HBuilt e cm seq \<Rightarrow>
                      go_bind (CounterMeasureStart t3 ev key s1) (\<lambda>s2.
                      go_bind (Run OnError seq \<lparr>ctx_env = env, ctx_CounterMeasure = cm\<rparr> ev cl) (\<lambda>(cl', out').
                      go_bind (CounterMeasureEnd ev key s2) (\<lambda>s3. Ret (s3, cl', out'))))
                  | _ \<Rightarrow> Ret (s1, cl, out)))))"

section \<open>The manager as a store of objects\<close>

definition manager_inv :: "('q, 'w) Manager \<Rightarrow> bool" where
  "manager_inv m \<longleftrightarrow>
     bus_inv (am_eventbus m) \<and> state_inv (am_state m) \<and> wf_map (am_consumers m) \<and>
     (\<forall>n. map_of (am_consumers m) n = None \<longleftrightarrow> deployed (am_state m) n = None) \<and>
     (\<forall>n c. map_of (am_consumers m) n = Some c \<longrightarrow>
        (\<exists>h \<in> set (am_goroutines m). h_chan h = OnEvent c \<and> ok_NamespacedName (h_key h) = n))"

lemma manager_invD:
  assumes "manager_inv m"
  shows "bus_inv (am_eventbus m)" "state_inv (am_state m)" "wf_map (am_consumers m)"
    "map_of (am_consumers m) n = None \<longleftrightarrow> deployed (am_state m) n = None"
    "map_of (am_consumers m) n = Some c \<Longrightarrow>
      \<exists>h \<in> set (am_goroutines m). h_chan h = OnEvent c \<and> ok_NamespacedName (h_key h) = n"
  using assms unfolding manager_inv_def by blast+

lemma manager_inv_New: "bus_inv bus \<Longrightarrow> manager_inv (NewFromManager bus)"
  by (simp add: manager_inv_def NewFromManager_def state_inv_New) (simp add: deployed_def NewState_def)

lemma Subscribe_consumer_simps [simp]:
  "snd (Subscribe_consumer now t b) = snd (Subscribe t b)"
  "fst (Subscribe_consumer now t b) = NewConsumer now t (fst (Subscribe t b))"
  by (simp_all add: Subscribe_consumer_def split_beta)

text \<open>The manager after a successful \<open>Add\<close>.\<close>

definition added :: "string \<Rightarrow> CounterMeasure \<Rightarrow> ('q, 'w) Manager \<Rightarrow> ('q, 'w) Manager" where
  "added now cm m =
     (let t = oe_EventName (cs_OnEvent (cm_Spec cm)); c = NewConsumer now t (fst (Subscribe t (am_eventbus m)))
      in m\<lparr>am_eventbus := snd (Subscribe t (am_eventbus m)),
           am_consumers := map_put (meta_name (cm_ObjectMeta cm)) c (am_consumers m),
           am_state := state_Add cm (am_state m),
           am_goroutines := am_goroutines m @ [new_handler c (ToKey (cm_ObjectMeta cm))]\<rparr>)"

lemma manager_Add_cases:
  "manager_Add asSelector List now cm m =
     Ret (case resolve_sources asSelector List (cs_OnEvent (cm_Spec cm)) of
            Some err \<Rightarrow> (Some err, m) | None \<Rightarrow> (None, added now cm m))"
  by (simp add: manager_Add_def added_def Let_def split_beta split: option.splits)

lemma manager_inv_added:
  assumes "manager_inv m"
  shows "manager_inv (added now cm m)"
  using manager_invD [OF assms]
  by (auto simp: manager_inv_def added_def Let_def bus_inv_Subscribe state_inv_Add wf_put go_map_simps
      deployed_Add new_handler_def NewConsumer_def)

lemma manager_Remove_Ret:
  assumes "manager_inv m"
  shows "\<exists>bus. manager_Remove n m = Ret (None, m\<lparr>am_eventbus := bus, am_consumers := map_del n (am_consumers m),
      am_state := state_Remove n (am_state m)\<rparr>) \<and> bus_inv bus \<and>
    released (case map_of (am_consumers m) n of None \<Rightarrow> {} | Some c \<Rightarrow> leaves c) (am_eventbus m) bus"
proof (cases "map_of (am_consumers m) n")
  case None
  then show ?thesis
    using manager_invD(1) [OF assms] by (intro exI [of _ "am_eventbus m"]) (simp add: manager_Remove_def released_refl)
next
  case (Some c)
  obtain bus where "UnSubscribe c (am_eventbus m) = Ret (None, bus)" "bus_inv bus" "released (leaves c) (am_eventbus m) bus"
    using UnSubscribe_released(1) [OF manager_invD(1) [OF assms], of c] by blast
  with Some show ?thesis
    by (intro exI [of _ bus]) (simp add: manager_Remove_def)
qed

lemma manager_inv_Remove:
  assumes "manager_inv m" and "manager_Remove n m = Ret (r, m')"
  shows "manager_inv m'"
proof -
  obtain bus where bus: "bus_inv bus" and m': "m' = m\<lparr>am_eventbus := bus, am_consumers := map_del n (am_consumers m),
      am_state := state_Remove n (am_state m)\<rparr>"
    using manager_Remove_Ret [OF assms(1), of n] assms(2) by auto
  note inv = manager_invD [OF assms(1)]
  show ?thesis
    unfolding manager_inv_def m'
    using bus inv by (auto simp: state_inv_Remove wf_del go_map_simps deployed_Remove)
qed

lemma manager_Exists_iff: "manager_Exists obj m \<longleftrightarrow> map_of (am_consumers m) (meta_name obj) \<noteq> None"
  by (simp add: manager_Exists_def Let_def)

text \<open>The reconciler of countermeasures may rely on the manager interface.\<close>

interpretation action_manager:
  object_manager "manager_Add asSelector List now" manager_Remove manager_Exists cm_ObjectMeta manager_inv
  for asSelector :: "LabelSelector \<Rightarrow> goerror + 'sel" and List now
proof unfold_locales
  fix m :: "('q, 'w) Manager" and x r and m' :: "('q, 'w) Manager" and n obj
  assume inv: "manager_inv m"
  show "\<exists>r m'. manager_Add asSelector List now x m = Ret (r, m') \<and> manager_inv m'"
    using inv manager_inv_added [OF inv] by (auto simp: manager_Add_cases split: option.split)
  show "\<exists>m'. manager_Remove n m = Ret (None, m') \<and> manager_inv m'"
    using manager_Remove_Ret [OF inv, of n] manager_inv_Remove [OF inv] by blast
  show "manager_Exists obj m' = (manager_Exists obj m \<and> meta_name obj \<noteq> n)"
    if "manager_Remove n m = Ret (r, m')"
    using manager_Remove_Ret [OF inv, of n] that by (auto simp: manager_Exists_iff go_map_simps split: if_split_asm)
  show "manager_Exists obj m' = manager_Exists obj m"
    if "manager_Add asSelector List now x m = Ret (r, m')" "meta_name obj \<noteq> meta_name (cm_ObjectMeta x)"
    using that by (auto simp: manager_Add_cases manager_Exists_iff added_def Let_def go_map_simps split: option.split_asm)
next
  fix m m' :: "('q, 'w) Manager" and x e
  show "m' = m" if "manager_Add asSelector List now x m = Ret (Some e, m')"
    using that by (auto simp: manager_Add_cases split: option.split_asm)
  show "manager_Exists (cm_ObjectMeta x) m'" if "manager_Add asSelector List now x m = Ret (None, m')"
    using that by (auto simp: manager_Add_cases manager_Exists_iff added_def Let_def go_map_simps split: option.split_asm)
qed

text \<open>C23:
  The manager keeps its invariant under any sequence of additions and removals: its map of
  consumers and its state always name the same countermeasures, every one of them has a
  goroutine that listens on its consumer's channel, and neither operation panics.
\<close>

theorem manager_operations_safe:
  assumes "manager_inv m"
  shows "(\<exists>r m'. manager_Add asSelector List now cm m = Ret (r, m') \<and> manager_inv m' \<and> (r \<noteq> None \<longrightarrow> m' = m) \<and>
      (r = None \<longrightarrow> deployed (am_state m') = (deployed (am_state m))(meta_name (cm_ObjectMeta cm) \<mapsto> cm))) \<and>
    (\<exists>m'. manager_Remove n m = Ret (None, m') \<and> manager_inv m' \<and>
      deployed (am_state m') = (deployed (am_state m))(n := None))"
proof
  show "\<exists>r m'. manager_Add asSelector List now cm m = Ret (r, m') \<and> manager_inv m' \<and> (r \<noteq> None \<longrightarrow> m' = m) \<and>
      (r = None \<longrightarrow> deployed (am_state m') = (deployed (am_state m))(meta_name (cm_ObjectMeta cm) \<mapsto> cm))"
    using assms manager_inv_added [OF assms] deployed_Add [OF manager_invD(2) [OF assms]]
    by (cases "resolve_sources asSelector List (cs_OnEvent (cm_Spec cm))")
      (auto simp: manager_Add_cases added_def Let_def)
next
  obtain m' where "manager_Remove n m = Ret (None, m')" "manager_inv m'"
    using action_manager.remove_returns [OF assms] by blast
  moreover have "am_state m' = state_Remove n (am_state m)"
    using manager_Remove_Ret [OF assms, of n] calculation(1) by auto
  ultimately show "\<exists>m'. manager_Remove n m = Ret (None, m') \<and> manager_inv m' \<and>
      deployed (am_state m') = (deployed (am_state m))(n := None)"
    using deployed_Remove [OF manager_invD(2) [OF assms]] by auto
qed

definition demo_manager :: "(fifo, NamespacedName list) Manager" where
  "demo_manager = NewFromManager (NewEventBus 2 ([], False))"

lemma demo_manager_inv: "manager_inv demo_manager"
  by (simp add: demo_manager_def manager_inv_New bus_inv_New)

theorem manager_operations_safe_witness:
  "\<exists>m'. manager_Add (\<lambda>ls. Inr ls) (\<lambda>ls. None) ''t'' sample_cm demo_manager = Ret (None, m') \<and> manager_inv m' \<and>
     deployed (am_state m') (meta_name (cm_ObjectMeta sample_cm)) = Some sample_cm"
proof -
  have "resolve_sources (\<lambda>ls. Inr ls) (\<lambda>ls. None) (cs_OnEvent (cm_Spec sample_cm)) = None"
    by (simp add: resolve_sources_def sample_cm_def sample_spec_def)
  then have "manager_Add (\<lambda>ls. Inr ls) (\<lambda>ls. None) ''t'' sample_cm demo_manager = Ret (None, added ''t'' sample_cm demo_manager)"
    by (simp add: manager_Add_cases)
  then show ?thesis
    using manager_operations_safe [OF demo_manager_inv, of "\<lambda>ls. Inr ls" "\<lambda>ls. None" "''t''" sample_cm] by auto
qed

text \<open>
  Removing a countermeasure leaves no goroutine behind: the channel its goroutine listens on
  is no longer subscribed and is closed, so after the events that are still buffered the
  loop of the goroutine ends.
\<close>

lemma manager_Remove_ends_goroutine:
  assumes "manager_inv m" and "map_of (am_consumers m) n = Some (EventConsumer t c i)"
    and "c \<in> set (subs_at (eb_subscribers (am_eventbus m)) t)"
  shows "\<exists>m' h. manager_Remove n m = Ret (None, m') \<and> h \<in> set (am_goroutines m') \<and> h_chan h = c \<and>
    ok_NamespacedName (h_key h) = n \<and> \<not> chan_open (eb_store (am_eventbus m')) c \<and>
    c \<notin> set (subs_at (eb_subscribers (am_eventbus m')) t) \<and>
    buf (eb_store (am_eventbus m')) c = buf (eb_store (am_eventbus m)) c"
proof -
  obtain bus where bus: "manager_Remove n m = Ret (None, m\<lparr>am_eventbus := bus, am_consumers := map_del n (am_consumers m),
      am_state := state_Remove n (am_state m)\<rparr>)" and rel: "released {(t, c)} (am_eventbus m) bus"
    using manager_Remove_Ret [OF assms(1), of n] assms(2) by auto
  obtain h where "h \<in> set (am_goroutines m)" "h_chan h = c" "ok_NamespacedName (h_key h) = n"
    using manager_invD(5) [OF assms(1,2)] by auto
  moreover have "\<not> chan_open (eb_store bus) c" "c \<notin> set (subs_at (eb_subscribers bus) t)"
    "buf (eb_store bus) c = buf (eb_store (am_eventbus m)) c"
    using rel assms(3) by (auto simp: released_def)
  ultimately show ?thesis
    using bus by auto
qed

section \<open>Handling one event\<close>

text \<open>What looking up an entry does.\<close>

lemma GetCounterMeasure_entry:
  "entry_at s k = Some (a, e) \<Longrightarrow>
   GetCounterMeasure t k s = (Some a, set_entry a (clearExpiredLastRuns t e) s)"
  by (simp add: GetCounterMeasure_def)

lemma on_check_suppressed: "IsSuppressed t ev e \<Longrightarrow> on_check env r t ev e = Ret (HWait, [skipping])"
  by (simp add: on_check_def)

lemma handle_event_suppressed:
  assumes "entry_at s k = Some (a, e)" and "t1 \<le> t2" and "IsSuppressed t2 ev e"
  shows "handle_event OnError env r t1 t2 t3 k ev s cl =
    Ret (set_entry a (clearExpiredLastRuns t1 e) s, cl, [skipping])"
  using assms
  by (simp add: handle_event_def GetCounterMeasure_entry on_check_def clearExpired_IsSuppressed)

lemma handle_event_runs:
  assumes "entry_at s k = Some (a, e)" and "t1 \<le> t2" and "\<not> IsSuppressed t2 ev e"
    and "NewRunner r \<lparr>ctx_env = env, ctx_CounterMeasure = en_Countermeasure e\<rparr> = Ret (Inr seq)"
    and "Run OnError seq \<lparr>ctx_env = env, ctx_CounterMeasure = en_Countermeasure e\<rparr> ev cl = Ret (cl', out)"
  shows "handle_event OnError env r t1 t2 t3 k ev s cl =
    Ret (set_entry a ((started t3 ev (clearExpiredLastRuns t1 e))\<lparr>en_running := False\<rparr>) s, cl', out)"
proof -
  let ?e1 = "clearExpiredLastRuns t1 e"
  let ?s1 = "set_entry a ?e1 s"
  have at1: "entry_at ?s1 k = Some (a, ?e1)"
    using assms(1) by (rule entry_at_set_entry)
  have at2: "entry_at (set_entry a (started t3 ev ?e1) ?s1) k = Some (a, started t3 ev ?e1)"
    using at1 by (rule entry_at_set_entry)
  show ?thesis
    using assms CounterMeasureStart_entry [OF at1] CounterMeasureEnd_entry [OF at2]
    by (simp add: handle_event_def GetCounterMeasure_entry on_check_def clearExpired_IsSuppressed set_entry_def)
qed

text \<open>C5:
  The actions of a countermeasure are not repeated inside its suppression window: after an
  event was handled with the window starting at \<open>t\<close>, a second event with the same key, looked
  up later and checked before \<open>t + d\<close>, sends no request to the cluster and is reported as
  skipped; checked from \<open>t + d\<close> on, it is not skipped.
\<close>

theorem handled_event_suppresses_repeats:
  assumes "entry_at s k = Some (a, e)" and "t1 \<le> t2" and "\<not> IsSuppressed t2 ev e"
    and "NewRunner r \<lparr>ctx_env = env, ctx_CounterMeasure = en_Countermeasure e\<rparr> = Ret (Inr seq)"
    and "Run OnError seq \<lparr>ctx_env = env, ctx_CounterMeasure = en_Countermeasure e\<rparr> ev cl = Ret (cl', out)"
    and "suppression (en_Countermeasure e) = Some d"
    and "event_Key ev' = event_Key ev" and "u1 \<le> u2"
  shows "\<exists>s'. handle_event OnError env r t1 t2 t k ev s cl = Ret (s', cl', out) \<and>
    (u2 < t + d \<longrightarrow> (\<exists>s''. handle_event OnError env r u1 u2 u3 k ev' s' cl' = Ret (s'', cl', [skipping]))) \<and>
    (t + d \<le> u2 \<longrightarrow> (\<exists>s'' e''. GetCounterMeasure u1 k s' = (Some a, s'') \<and> as_entries s'' a = Some e'' \<and>
       \<not> IsSuppressed u2 ev' e''))"
proof -
  let ?e = "(started t ev (clearExpiredLastRuns t1 e))\<lparr>en_running := False\<rparr>"
  let ?s' = "set_entry a ?e s"
  have first: "handle_event OnError env r t1 t2 t k ev s cl = Ret (?s', cl', out)"
    by (rule handle_event_runs [OF assms(1-5)])
  have at: "entry_at ?s' k = Some (a, ?e)"
    using assms(1) by (rule entry_at_set_entry)
  have "IsSuppressed u2 ev' ?e \<longleftrightarrow> u2 < t + d"
    using assms(6,7) by (simp add: IsSuppressed_started)
  moreover have "IsSuppressed u2 ev' (clearExpiredLastRuns u1 ?e) = IsSuppressed u2 ev' ?e"
    by (rule clearExpired_IsSuppressed [OF assms(8)])
  ultimately show ?thesis
    using first handle_event_suppressed [OF at assms(8), of ev' OnError env r u3 cl'] GetCounterMeasure_entry [OF at, of u1]
    by auto
qed

lemma sample_runner:
  "NewRunner (Initialize empty_registry) \<lparr>ctx_env = demo_env, ctx_CounterMeasure = en_Countermeasure (new_entry sample_cm)\<rparr> =
     Ret (Inr [Delete (NewBase sample_delete False) (the (ac_Delete sample_delete))])"
  by (simp add: NewRunner_def create_def spec_fields_def build_delete_def constructor_defs sample_cm_def new_entry_def
      sample_spec_def sample_delete_def Let_def)

theorem handled_event_suppresses_repeats_witness:
  "\<exists>s' cl' out s''. handle_event (bounded_attempts 3) demo_env (Initialize empty_registry) 0 0 0 sample_key demo_event
       (state_Add sample_cm NewState) demo_cluster = Ret (s', cl', out) \<and>
     handle_event (bounded_attempts 3) demo_env (Initialize empty_registry) 50 60 60 sample_key demo_event s' cl' =
       Ret (s'', cl', [skipping])"
proof -
  let ?ctx = "\<lparr>ctx_env = demo_env, ctx_CounterMeasure = en_Countermeasure (new_entry sample_cm)\<rparr>"
  let ?seq = "[Delete (NewBase sample_delete False) (the (ac_Delete sample_delete))]"
  have "returns (Run (bounded_attempts 3) ?seq ?ctx demo_event demo_cluster)"
    by code_simp
  then obtain cl' out where run: "Run (bounded_attempts 3) ?seq ?ctx demo_event demo_cluster = Ret (cl', out)"
    by (auto simp: returns_iff)
  have idle: "\<not> IsSuppressed 0 demo_event (new_entry sample_cm)"
    and d: "suppression (en_Countermeasure (new_entry sample_cm)) = Some 120"
    by (simp_all add: IsSuppressed_def new_entry_def suppression_def sample_cm_def sample_spec_def)
  from handled_event_suppresses_repeats [OF sample_entry _ idle sample_runner run d, of 0 demo_event 50 60 0 60]
  show ?thesis by auto
qed

end
