(* ===== verification/Manager_Concurrency.thy ===== *)
theory Manager_Concurrency
  imports Action_Manager
begin

text \<open>
  The action manager as its goroutines run it: the reconciler that adds and removes
  countermeasures, the bus that sends events, and one goroutine per addition. Every step is
  a critical section of the code or code that touches no shared state. A panic of a
  goroutine ends the process; the system remembers what panicked.
\<close>

section \<open>The steps\<close>

datatype crash_cause = BuildPanic | RunPanic | BookkeepingPanic

text \<open>
  The reconciler inside \<open>Add\<close>: after \<open>Subscribe\<close>, and after \<open>state.Add\<close> has removed the
  entries of the name but not yet stored the new one; and inside \<open>Remove\<close>, when the consumer
  is gone and \<open>state.Remove\<close> still to come.
\<close>

datatype reconciler_pc =
    RIdle
  | RSubscribed CounterMeasure Consumer
  | RInstalling CounterMeasure Consumer
  | RRemoving NamespacedName

record ('q, 'w) am_sys =
  sy_manager :: "('q, 'w) Manager"
  sy_reconciler :: reconciler_pc
  sy_cluster :: "'w cluster"
  sy_reports :: "report list"
  sy_crash :: "crash_cause option"

text \<open>The second half of \<open>ActionState.Add\<close>.\<close>

definition state_insert :: "CounterMeasure \<Rightarrow> ActionState \<Rightarrow> ActionState" where
  "state_insert cm s =
     s\<lparr>as_counterMeasures := map_put (ToKey (cm_ObjectMeta cm)) (as_next s) (as_counterMeasures s),
       as_entries := (as_entries s)(as_next s \<mapsto> new_entry cm), as_next := Suc (as_next s)\<rparr>"

text \<open>\<open>Remove\<close> up to the call of \<open>state.Remove\<close>.\<close>

definition drop_consumer :: "NamespacedName \<Rightarrow> ('q, 'w) Manager \<Rightarrow> ('q, 'w) Manager go" where
  "drop_consumer name m =
     go_bind (case map_of (am_consumers m) name of
                None \<Rightarrow> Ret (None, am_eventbus m)
              | Some consumer \<Rightarrow> UnSubscribe consumer (am_eventbus m)) (\<lambda>(err, bus).
       Ret (m\<lparr>am_eventbus := bus, am_consumers := map_del name (am_consumers m)\<rparr>))"

definition set_pc :: "nat \<Rightarrow> handler_pc \<Rightarrow> ('q, 'w) Manager \<Rightarrow> ('q, 'w) Manager" where
  "set_pc i pc m = m\<lparr>am_goroutines := (am_goroutines m)[i := (am_goroutines m ! i)\<lparr>h_pc := pc\<rparr>]\<rparr>"

definition with_manager :: "('q, 'w) Manager \<Rightarrow> ('q, 'w) am_sys \<Rightarrow> ('q, 'w) am_sys" where
  "with_manager m s = s\<lparr>sy_manager := m\<rparr>"

definition crashed :: "crash_cause \<Rightarrow> ('q, 'w) am_sys \<Rightarrow> ('q, 'w) am_sys" where
  "crashed c s = s\<lparr>sy_crash := Some c\<rparr>"

text \<open>
  The goroutine is between its lookup and the end of the run: it goes on to use the key
  without looking again whether the countermeasure is deployed.
\<close>

fun busy :: "handler_pc \<Rightarrow> bool" where
  "busy (HEntry ev a) = True"
| "busy (HBuilt ev cm seq) = True"
| "busy (HRunning ev cm seq) = True"
| "busy (HRan ev) = True"
| "busy HWait = False"
| "busy (HEvent ev) = False"
| "busy HDone = False"

definition name_idle :: "NamespacedName \<Rightarrow> ('q, 'w) Manager \<Rightarrow> bool" where
  "name_idle n m \<longleftrightarrow> (\<forall>h \<in> set (am_goroutines m). ok_NamespacedName (h_key h) = n \<longrightarrow> \<not> busy (h_pc h))"

datatype label =
    LSubscribe string CounterMeasure
  | LInstall
  | LInsert
  | LRemove NamespacedName
  | LForget
  | LSend chan_id Event
  | LReceive nat
  | LLookup nat int
  | LCheck nat int
  | LStart nat int
  | LRun nat
  | LEnd nat

text \<open>The reconciler and the bus.\<close>

fun outer_step :: "label \<Rightarrow> ('q, 'w) am_sys \<Rightarrow> ('q, 'w) am_sys option" where
  "outer_step (LSubscribe now cm) s =
     (let m = sy_manager s; (c, bus) = Subscribe_consumer now (oe_EventName (cs_OnEvent (cm_Spec cm))) (am_eventbus m)
      in if sy_reconciler s = RIdle
         then Some (with_manager (m\<lparr>am_eventbus := bus\<rparr>) s\<lparr>sy_reconciler := RSubscribed cm c\<rparr>)
         else None)"
| "outer_step LInstall s =
     (let m = sy_manager s
      in case sy_reconciler s of
           RSubscribed cm c \<Rightarrow>
             Some (with_manager (m\<lparr>am_consumers := map_put (meta_name (cm_ObjectMeta cm)) c (am_consumers m),
                                   am_state := state_Remove (meta_name (cm_ObjectMeta cm)) (am_state m)\<rparr>)
                     s\<lparr>sy_reconciler := RInstalling cm c\<rparr>)
         | _ \<Rightarrow> None)"
| "outer_step LInsert s =
     (let m = sy_manager s
      in case sy_reconciler s of
           RInstalling cm c \<Rightarrow>
             Some (with_manager (m\<lparr>am_state := state_insert cm (am_state m),
                                   am_goroutines := am_goroutines m @ [new_handler c (ToKey (cm_ObjectMeta cm))]\<rparr>)
                     s\<lparr>sy_reconciler := RIdle\<rparr>)
         | _ \<Rightarrow> None)"
| "outer_step (LRemove n) s =
     (if sy_reconciler s = RIdle
      then (case drop_consumer n (sy_manager s) of
              Ret m \<Rightarrow> Some (with_manager m s\<lparr>sy_reconciler := RRemoving n\<rparr>)
            | Panics p \<Rightarrow> None)
      else None)"
| "outer_step LForget s =
     (let m = sy_manager s
      in case sy_reconciler s of
           RRemoving n \<Rightarrow> Some (with_manager (m\<lparr>am_state := state_Remove n (am_state m)\<rparr>) s\<lparr>sy_reconciler := RIdle\<rparr>)
         | _ \<Rightarrow> None)"
| "outer_step (LSend c ev) s =
     (let m = sy_manager s
      in case try_send c ev (eb_store (am_eventbus m)) of
           Ret (True, st) \<Rightarrow> Some (with_manager (m\<lparr>am_eventbus := (am_eventbus m)\<lparr>eb_store := st\<rparr>\<rparr>) s)
         | _ \<Rightarrow> None)"
| "outer_step _ s = None"

text \<open>The goroutine with number \<open>i\<close>, in the order of its loop.\<close>

fun handler_step :: "'w cluster retrier \<Rightarrow> 'w env \<Rightarrow> label \<Rightarrow> handler \<Rightarrow> ('q, 'w) am_sys \<Rightarrow> ('q, 'w) am_sys option" where
  "handler_step OnError env (LReceive i) h s =
     (let m = sy_manager s; (r, st) = recv (h_chan h) (eb_store (am_eventbus m));
          m' = m\<lparr>am_eventbus := (am_eventbus m)\<lparr>eb_store := st\<rparr>\<rparr>
      in if h_pc h = HWait
         then (case r of
                 Received ev \<Rightarrow> Some (with_manager (set_pc i (HEvent ev) m') s)
               | Closed \<Rightarrow> Some (with_manager (set_pc i HDone m') s)
               | NotReady \<Rightarrow> None)
         else None)"
| "handler_step OnError env (LLookup i now) h s =
     (let m = sy_manager s
      in case h_pc h of
           HEvent ev \<Rightarrow>
             (let (pc, st) = on_lookup now (h_key h) ev (am_state m)
              in Some (with_manager (set_pc i pc (m\<lparr>am_state := st\<rparr>)) s))
         | _ \<Rightarrow> None)"
| "handler_step OnError env (LCheck i now) h s =
     (let m = sy_manager s
      in case h_pc h of
           HEntry ev a \<Rightarrow>
             (case as_entries (am_state m) a of
                None \<Rightarrow> None
              | Some e \<Rightarrow>
                  (case on_check env (am_ActionRegistry m) now ev e of
                     Panics p \<Rightarrow> Some (crashed BuildPanic s)
                   | Ret (pc, out) \<Rightarrow>
                       Some (with_manager (set_pc i pc m) s\<lparr>sy_reports := sy_reports s @ out\<rparr>)))
         | _ \<Rightarrow> None)"
| "handler_step OnError env (LStart i now) h s =
     (let m = sy_manager s
      in case h_pc h of
           HBuilt ev cm seq \<Rightarrow>
             (case CounterMeasureStart now ev (h_key h) (am_state m) of
                Panics p \<Rightarrow> Some (crashed BookkeepingPanic s)
              | Ret st \<Rightarrow> Some (with_manager (set_pc i (HRunning ev cm seq) (m\<lparr>am_state := st\<rparr>)) s))
         | _ \<Rightarrow> None)"
| "handler_step OnError env (LRun i) h s =
     (let m = sy_manager s
      in case h_pc h of
           HRunning ev cm seq \<Rightarrow>
             (case Run OnError seq \<lparr>ctx_env = env, ctx_CounterMeasure = cm\<rparr> ev (sy_cluster s) of
                Panics p \<Rightarrow> Some (crashed RunPanic s)
              | Ret (cl, out) \<Rightarrow>
                  Some (with_manager (set_pc i (HRan ev) m) s\<lparr>sy_cluster := cl, sy_reports := sy_reports s @ out\<rparr>))
         | _ \<Rightarrow> None)"
| "handler_step OnError env (LEnd i) h s =
     (let m = sy_manager s
      in case h_pc h of
           HRan ev \<Rightarrow>
             (case CounterMeasureEnd ev (h_key h) (am_state m) of
                Panics p \<Rightarrow> Some (crashed BookkeepingPanic s)
              | Ret st \<Rightarrow> Some (with_manager (set_pc i HWait (m\<lparr>am_state := st\<rparr>)) s))
         | _ \<Rightarrow> None)"
| "handler_step OnError env _ h s = None"

fun handler_of :: "label \<Rightarrow> nat option" where
  "handler_of (LReceive i) = Some i"
| "handler_of (LLookup i t) = Some i"
| "handler_of (LCheck i t) = Some i"
| "handler_of (LStart i t) = Some i"
| "handler_of (LRun i) = Some i"
| "handler_of (LEnd i) = Some i"
| "handler_of _ = None"

text \<open>One step of the system; a crashed process takes none.\<close>

definition am_do :: "'w cluster retrier \<Rightarrow> 'w env \<Rightarrow> label \<Rightarrow> ('q, 'w) am_sys \<Rightarrow> ('q, 'w) am_sys option" where
  "am_do OnError env l s =
     (if sy_crash s \<noteq> None then None
      else (case handler_of l of
              None \<Rightarrow> outer_step l s
            | Some i \<Rightarrow>
                if i < length (am_goroutines (sy_manager s))
                then handler_step OnError env l (am_goroutines (sy_manager s) ! i) s
                else None))"

text \<open>
  A discipline that the reconciler could follow and that the code does not enforce: it
  removes or replaces a countermeasure only while no goroutine of that name is busy.
\<close>

fun disciplined :: "('q, 'w) am_sys \<Rightarrow> label \<Rightarrow> bool" where
  "disciplined s LForget = (case sy_reconciler s of RRemoving n \<Rightarrow> name_idle n (sy_manager s) | _ \<Rightarrow> True)"
| "disciplined s LInstall =
     (case sy_reconciler s of RSubscribed cm c \<Rightarrow> name_idle (meta_name (cm_ObjectMeta cm)) (sy_manager s) | _ \<Rightarrow> True)"
| "disciplined s _ = True"

definition am_init :: "'q EventBus \<Rightarrow> 'w cluster \<Rightarrow> ('q, 'w) am_sys" where
  "am_init bus cl = \<lparr>sy_manager = NewFromManager bus, sy_reconciler = RIdle, sy_cluster = cl, sy_reports = [], sy_crash = None\<rparr>"

text \<open>The states that steps satisfying \<open>guard\<close> lead to.\<close>

inductive am_reachable :: "(('q, 'w) am_sys \<Rightarrow> label \<Rightarrow> bool) \<Rightarrow> 'w cluster retrier \<Rightarrow> 'w env \<Rightarrow> ('q, 'w) am_sys \<Rightarrow> bool"
    for guard OnError env where
  init: "bus_inv bus \<Longrightarrow> am_reachable guard OnError env (am_init bus cl)"
| step: "am_reachable guard OnError env s \<Longrightarrow> am_do OnError env l s = Some s' \<Longrightarrow>
    guard s l \<Longrightarrow> am_reachable guard OnError env s'"

definition unrestricted :: "('q, 'w) am_sys \<Rightarrow> label \<Rightarrow> bool" where
  "unrestricted s l = True"

lemma unrestricted [simp, intro]: "unrestricted s l"
  by (simp add: unrestricted_def)

text \<open>Running a given schedule.\<close>

fun am_run :: "'w cluster retrier \<Rightarrow> 'w env \<Rightarrow> label list \<Rightarrow> ('q, 'w) am_sys \<Rightarrow> ('q, 'w) am_sys option" where
  "am_run OnError env [] s = Some s"
| "am_run OnError env (l # ls) s =
     (case am_do OnError env l s of None \<Rightarrow> None | Some s' \<Rightarrow> am_run OnError env ls s')"

lemma am_run_reachable:
  "am_reachable unrestricted OnError env s \<Longrightarrow> am_run OnError env ls s = Some s' \<Longrightarrow> am_reachable unrestricted OnError env s'"
  by (induction ls arbitrary: s) (auto split: option.splits intro: am_reachable.step)

section \<open>What the discipline buys\<close>

lemma map_del_if_none: "(\<And>k. k \<in> fst ` set m \<Longrightarrow> \<not> P k) \<Longrightarrow> map_del_if P m = m"
proof -
  assume none: "\<And>k. k \<in> fst ` set m \<Longrightarrow> \<not> P k"
  have id: "foldl (\<lambda>acc k. if P k then map_del k acc else acc) m ks = m" if "\<And>k. k \<in> set ks \<Longrightarrow> \<not> P k" for ks
    using that by (induction ks) auto
  show ?thesis
    unfolding map_del_if_def by (rule id) (use none in auto)
qed

definition name_absent :: "NamespacedName \<Rightarrow> ActionState \<Rightarrow> bool" where
  "name_absent n st \<longleftrightarrow> (\<forall>k. ok_NamespacedName k = n \<longrightarrow> \<not> IsDeployed k st)"

lemma state_insert_Add: "name_absent (meta_name (cm_ObjectMeta cm)) st \<Longrightarrow> state_insert cm st = state_Add cm st"
proof -
  assume "name_absent (meta_name (cm_ObjectMeta cm)) st"
  then have "remove_name (meta_name (cm_ObjectMeta cm)) (as_counterMeasures st) = as_counterMeasures st"
    unfolding remove_name_def by (intro map_del_if_none) (auto simp: name_absent_def IsDeployed_def map_of_eq_None_iff)
  then show ?thesis
    by (simp add: state_insert_def state_Add_def state_Remove_def Let_def)
qed

text \<open>\<open>state.Add\<close> is its two critical sections one after the other.\<close>

lemma name_absent_Remove: "name_absent n (state_Remove n st)"
  by (simp add: name_absent_def IsDeployed_def state_Remove_def go_map_simps)

lemma state_Add_sections: "state_Add cm st = state_insert cm (state_Remove (meta_name (cm_ObjectMeta cm)) st)"
  by (simp add: state_Add_def state_insert_def Let_def)

text \<open>The operations of a goroutine only write entries.\<close>

definition same_keys :: "ActionState \<Rightarrow> ActionState \<Rightarrow> bool" where
  "same_keys st st' \<longleftrightarrow> as_counterMeasures st' = as_counterMeasures st \<and> (state_inv st \<longrightarrow> state_inv st')"

lemma same_keys_refl: "same_keys st st"
  by (simp add: same_keys_def)

lemma same_keys_Deployed: "same_keys st st' \<Longrightarrow> IsDeployed k st' = IsDeployed k st"
  by (simp add: same_keys_def IsDeployed_def)

lemma same_keys_lookup:
  "GetCounterMeasure now k st = (r, st') \<Longrightarrow> same_keys st st'"
  using state_inv_Get [of st now k] by (auto simp: same_keys_def GetCounterMeasure_def split: option.splits)

lemma same_keys_Start: "CounterMeasureStart now ev k st = Ret st' \<Longrightarrow> same_keys st st'"
  by (auto simp: same_keys_def CounterMeasureStart_def Let_def entry_at_Some
      intro: state_inv_set_entry split: option.split_asm)

lemma same_keys_End: "CounterMeasureEnd ev k st = Ret st' \<Longrightarrow> same_keys st st'"
  by (auto simp: same_keys_def CounterMeasureEnd_def entry_at_Some intro: state_inv_set_entry split: option.split_asm)

definition careful_inv :: "('q, 'w) am_sys \<Rightarrow> bool" where
  "careful_inv s \<longleftrightarrow>
     state_inv (am_state (sy_manager s)) \<and>
     (\<forall>h \<in> set (am_goroutines (sy_manager s)). busy (h_pc h) \<longrightarrow> IsDeployed (h_key h) (am_state (sy_manager s))) \<and>
     (\<forall>cm c. sy_reconciler s = RInstalling cm c \<longrightarrow> name_absent (meta_name (cm_ObjectMeta cm)) (am_state (sy_manager s))) \<and>
     sy_crash s \<noteq> Some BookkeepingPanic"

lemma with_manager_simps [simp]:
  "sy_manager (with_manager m s) = m" "sy_reconciler (with_manager m s) = sy_reconciler s"
  "sy_crash (with_manager m s) = sy_crash s" "sy_cluster (with_manager m s) = sy_cluster s"
  "sy_reports (with_manager m s) = sy_reports s"
  by (simp_all add: with_manager_def)

lemma set_pc_simps [simp]:
  "am_state (set_pc i pc m) = am_state m" "am_eventbus (set_pc i pc m) = am_eventbus m"
  "am_consumers (set_pc i pc m) = am_consumers m" "am_ActionRegistry (set_pc i pc m) = am_ActionRegistry m"
  "am_goroutines (set_pc i pc m) = (am_goroutines m)[i := (am_goroutines m ! i)\<lparr>h_pc := pc\<rparr>]"
  by (simp_all add: set_pc_def)

lemma careful_inv_handler:
  assumes "careful_inv s" and "i < length (am_goroutines (sy_manager s))"
    and "same_keys (am_state (sy_manager s)) st"
    and "busy pc \<longrightarrow> IsDeployed (h_key (am_goroutines (sy_manager s) ! i)) st"
    and "am_goroutines (sy_manager s') = (am_goroutines (sy_manager s))[i := (am_goroutines (sy_manager s) ! i)\<lparr>h_pc := pc\<rparr>]"
    and "am_state (sy_manager s') = st" and "sy_reconciler s' = sy_reconciler s" and "sy_crash s' = sy_crash s"
  shows "careful_inv s'"
proof -
  have "busy (h_pc h) \<longrightarrow> IsDeployed (h_key h) st" if "h \<in> set (am_goroutines (sy_manager s'))" for h
  proof -
    have "h = (am_goroutines (sy_manager s) ! i)\<lparr>h_pc := pc\<rparr> \<or> h \<in> set (am_goroutines (sy_manager s))"
      using that set_update_subset_insert unfolding assms(5) by fastforce
    then show ?thesis
      using assms(1,4) same_keys_Deployed [OF assms(3)] by (auto simp: careful_inv_def)
  qed
  then show ?thesis
    using assms by (auto simp: careful_inv_def same_keys_def name_absent_def same_keys_Deployed [OF assms(3)])
qed

lemma careful_inv_busy:
  assumes "careful_inv s" and "i < length (am_goroutines (sy_manager s))" and "busy (h_pc (am_goroutines (sy_manager s) ! i))"
  shows "IsDeployed (h_key (am_goroutines (sy_manager s) ! i)) (am_state (sy_manager s))"
  using assms by (auto simp: careful_inv_def)

lemma on_lookup_result:
  "on_lookup now k ev st = (pc, st') \<Longrightarrow> same_keys st st' \<and> (busy pc \<longrightarrow> IsDeployed k st')"
  using same_keys_lookup [of now k st "fst (GetCounterMeasure now k st)" "snd (GetCounterMeasure now k st)"]
  by (auto simp: on_lookup_def entry_at_Some GetCounterMeasure_def IsDeployed_def split: option.split_asm)

lemma careful_inv_crashed: "careful_inv s \<Longrightarrow> c \<noteq> BookkeepingPanic \<Longrightarrow> careful_inv (crashed c s)"
  by (simp add: careful_inv_def crashed_def)

lemma careful_inv_handler_step:
  assumes "careful_inv s" and i: "i < length (am_goroutines (sy_manager s))" and "handler_of l = Some i"
    and "handler_step OnError env l (am_goroutines (sy_manager s) ! i) s = Some s'"
  shows "careful_inv s'"
proof -
  let ?m = "sy_manager s" and ?h = "am_goroutines (sy_manager s) ! i"
  have st: "state_inv (am_state ?m)"
    using assms(1) by (simp add: careful_inv_def)
  note keep = careful_inv_handler [OF assms(1) i]
  note busy_deployed = careful_inv_busy [OF assms(1) i]
  show ?thesis
  proof (cases l)
    case (LReceive j)
    then show ?thesis
      using assms(3,4) by (auto simp: Let_def intro!: keep [OF same_keys_refl] split: if_split_asm recv.split_asm prod.split_asm)
  next
    case (LLookup j now)
    then show ?thesis
      using assms(3,4) by (auto simp: Let_def dest!: on_lookup_result intro!: keep split: handler_pc.split_asm prod.split_asm)
  next
    case (LCheck j now)
    then show ?thesis
      using assms(3,4) busy_deployed
      by (auto simp: Let_def intro!: keep [OF same_keys_refl] careful_inv_crashed [OF assms(1)]
          split: handler_pc.split_asm option.split_asm go.split_asm)
  next
    case (LStart j now)
    with assms(3,4) obtain ev cm seq where pc: "h_pc ?h = HBuilt ev cm seq"
      by (auto simp: Let_def split: handler_pc.split_asm)
    with busy_deployed obtain st' where st': "CounterMeasureStart now ev (h_key ?h) (am_state ?m) = Ret st'"
      using CounterMeasureStart_returns [OF st] by fastforce
    show ?thesis
      using LStart assms(3,4) pc st' busy_deployed same_keys_Deployed [OF same_keys_Start [OF st']]
      by (auto simp: Let_def intro!: keep [OF same_keys_Start [OF st']])
  next
    case (LRun j)
    then show ?thesis
      using assms(3,4) busy_deployed
      by (auto simp: Let_def intro!: keep [OF same_keys_refl] careful_inv_crashed [OF assms(1)]
          split: handler_pc.split_asm go.split_asm)
  next
    case (LEnd j)
    with assms(3,4) obtain ev where pc: "h_pc ?h = HRan ev"
      by (auto simp: Let_def split: handler_pc.split_asm)
    with busy_deployed obtain st' where st': "CounterMeasureEnd ev (h_key ?h) (am_state ?m) = Ret st'"
      using CounterMeasureEnd_returns [OF st] by fastforce
    show ?thesis
      using LEnd assms(3,4) pc st' by (auto simp: Let_def intro!: keep [OF same_keys_End [OF st']])
  qed (use assms in simp_all)
qed

lemma drop_consumer_state: "drop_consumer n m = Ret m' \<Longrightarrow> am_state m' = am_state m \<and> am_goroutines m' = am_goroutines m"
  by (auto simp: drop_consumer_def elim!: go_bind_RetE split: prod.split_asm)

text \<open>\<open>Remove\<close> is its two parts one after the other.\<close>

lemma manager_Remove_sections:
  "manager_Remove n m = go_bind (drop_consumer n m) (\<lambda>m1. Ret (None, m1\<lparr>am_state := state_Remove n (am_state m1)\<rparr>))"
proof (cases "map_of (am_consumers m) n")
  case (Some c)
  then show ?thesis
    by (cases "UnSubscribe c (am_eventbus m)") (auto simp: manager_Remove_def drop_consumer_def)
qed (simp add: manager_Remove_def drop_consumer_def)

lemma IsDeployed_Remove: "IsDeployed k (state_Remove n st) \<longleftrightarrow> IsDeployed k st \<and> ok_NamespacedName k \<noteq> n"
  by (auto simp: IsDeployed_def state_Remove_def go_map_simps)

lemma IsDeployed_Add: "IsDeployed k (state_Add cm st) \<longleftrightarrow>
    k = ToKey (cm_ObjectMeta cm) \<or> (IsDeployed k st \<and> ok_NamespacedName k \<noteq> meta_name (cm_ObjectMeta cm))"
  by (simp add: IsDeployed_def map_of_Add)

lemma careful_inv_removed:
  assumes "careful_inv s" and "name_idle n (sy_manager s)"
    and "am_state (sy_manager s') = state_Remove n (am_state (sy_manager s))"
    and "am_goroutines (sy_manager s') = am_goroutines (sy_manager s)" and "sy_crash s' = sy_crash s"
    and "sy_reconciler s' = RIdle \<or> (\<exists>cm c. sy_reconciler s' = RInstalling cm c \<and> meta_name (cm_ObjectMeta cm) = n)"
  shows "careful_inv s'"
  using assms by (auto simp: careful_inv_def name_idle_def IsDeployed_Remove state_inv_Remove name_absent_Remove)

lemma careful_inv_outer_step:
  assumes inv: "careful_inv s" and "outer_step l s = Some s'" and "disciplined s l"
  shows "careful_inv s'"
proof (cases l)
  case (LSubscribe now cm)
  then show ?thesis
    using inv assms(2) by (auto simp: careful_inv_def Let_def split: if_split_asm prod.split_asm)
next
  case LInstall
  then obtain cm c where "sy_reconciler s = RSubscribed cm c"
    using assms(2) by (auto simp: Let_def split: reconciler_pc.split_asm)
  then show ?thesis
    using LInstall assms(2,3)
    by (auto simp: Let_def intro!: careful_inv_removed [OF inv, of "meta_name (cm_ObjectMeta cm)"])
next
  case LInsert
  then obtain cm c where pc: "sy_reconciler s = RInstalling cm c"
    using assms(2) by (auto simp: Let_def split: reconciler_pc.split_asm)
  then have absent: "name_absent (meta_name (cm_ObjectMeta cm)) (am_state (sy_manager s))"
    using inv by (simp add: careful_inv_def)
  then have "IsDeployed k (state_Add cm (am_state (sy_manager s)))" if "IsDeployed k (am_state (sy_manager s))" for k
    using that by (auto simp: IsDeployed_Add name_absent_def)
  then show ?thesis
    using LInsert assms(2) inv pc
    by (auto simp: careful_inv_def Let_def state_insert_Add [OF absent] state_inv_Add new_handler_def)
next
  case (LRemove n)
  then show ?thesis
    using inv assms(2) by (auto simp: careful_inv_def dest!: drop_consumer_state split: if_split_asm go.split_asm)
next
  case LForget
  then obtain n where "sy_reconciler s = RRemoving n"
    using assms(2) by (auto simp: Let_def split: reconciler_pc.split_asm)
  then show ?thesis
    using LForget assms(2,3) by (auto simp: Let_def intro!: careful_inv_removed [OF inv, of n])
next
  case (LSend c ev)
  then show ?thesis
    using inv assms(2) by (auto simp: careful_inv_def Let_def split: go.split_asm prod.split_asm bool.split_asm)
qed (use assms in simp_all)

lemma careful_inv_reachable: "am_reachable disciplined OnError env s \<Longrightarrow> careful_inv s"
proof (induction rule: am_reachable.induct)
  case (init bus cl)
  show ?case
    by (simp add: careful_inv_def am_init_def NewFromManager_def state_inv_New)
next
  case (step s l s')
  show ?case
  proof (cases "handler_of l")
    case None
    then show ?thesis
      using step careful_inv_outer_step [of s l s'] by (simp add: am_do_def split: if_split_asm)
  next
    case (Some i)
    then show ?thesis
      using step careful_inv_handler_step [of s i l OnError env s'] by (simp add: am_do_def split: if_split_asm)
  qed
qed

text \<open>C10:
  If countermeasures are only removed or replaced while none of their goroutines is between
  its lookup and the end of its run, no interleaving of the reconciler, the bus and the
  goroutines makes the bookkeeping of a run panic: a goroutine that is inside its run always
  finds its entry.
\<close>

theorem disciplined_bookkeeping_never_panics:
  assumes "am_reachable disciplined OnError env s"
  shows "sy_crash s \<noteq> Some BookkeepingPanic \<and>
    (\<forall>h \<in> set (am_goroutines (sy_manager s)). busy (h_pc h) \<longrightarrow> IsDeployed (h_key h) (am_state (sy_manager s)))"
  using careful_inv_reachable [OF assms] by (simp add: careful_inv_def)

definition demo_sys :: "(fifo, NamespacedName list) am_sys" where
  "demo_sys = am_init (NewEventBus 2 ([], False)) demo_cluster"

lemma demo_sys_reachable: "am_reachable guard OnError env demo_sys"
  unfolding demo_sys_def by (rule am_reachable.init) (rule bus_inv_New)

fun guarded_run :: "(('q, 'w) am_sys \<Rightarrow> label \<Rightarrow> bool) \<Rightarrow> 'w cluster retrier \<Rightarrow> 'w env \<Rightarrow> label list \<Rightarrow> ('q, 'w) am_sys \<Rightarrow> bool" where
  "guarded_run guard OnError env [] s = True"
| "guarded_run guard OnError env (l # ls) s =
     (guard s l \<and> (case am_do OnError env l s of None \<Rightarrow> False | Some s' \<Rightarrow> guarded_run guard OnError env ls s'))"

lemma guarded_run_reachable:
  "am_reachable guard OnError env s \<Longrightarrow> guarded_run guard OnError env ls s \<Longrightarrow> am_run OnError env ls s = Some s' \<Longrightarrow>
   am_reachable guard OnError env s'"
  by (induction ls arbitrary: s) (auto split: option.splits intro: am_reachable.step)

definition running_schedule :: "label list" where
  "running_schedule =
     [LSubscribe ''t'' sample_cm, LInstall, LInsert, LSend 0 demo_event, LReceive 0, LLookup 0 0, LCheck 0 0,
      LStart 0 0, LRun 0]"

theorem disciplined_bookkeeping_never_panics_witness:
  "\<exists>s :: (fifo, NamespacedName list) am_sys. am_run (bounded_attempts 3) demo_env running_schedule demo_sys = Some s \<and>
     map h_pc (am_goroutines (sy_manager s)) = [HRan demo_event] \<and> sy_crash s \<noteq> Some BookkeepingPanic \<and>
     (\<forall>h \<in> set (am_goroutines (sy_manager s)). busy (h_pc h) \<longrightarrow> IsDeployed (h_key h) (am_state (sy_manager s)))"
proof -
  let ?r = "am_run (bounded_attempts 3) demo_env running_schedule demo_sys"
  have "?r \<noteq> None \<and> map h_pc (am_goroutines (sy_manager (the ?r))) = [HRan demo_event]"
    by code_simp
  then obtain s where s: "?r = Some s" "map h_pc (am_goroutines (sy_manager s)) = [HRan demo_event]"
    by auto
  have "guarded_run disciplined (bounded_attempts 3) demo_env running_schedule demo_sys"
    by code_simp
  from disciplined_bookkeeping_never_panics [OF guarded_run_reachable [OF demo_sys_reachable this s(1)]] s show ?thesis
    by (intro exI [of _ s] conjI) simp_all
qed

section \<open>What happens without it\<close>

text \<open>A goroutine that has built its runner and has not finished the bookkeeping of the run.\<close>

fun committed :: "handler_pc \<Rightarrow> bool" where
  "committed (HBuilt ev cm seq) = True"
| "committed (HRunning ev cm seq) = True"
| "committed (HRan ev) = True"
| "committed _ = False"

text \<open>No call of \<open>Add\<close> for the name is under way, or begins in a schedule.\<close>

definition not_adding :: "NamespacedName \<Rightarrow> reconciler_pc \<Rightarrow> bool" where
  "not_adding n pc \<longleftrightarrow> (\<forall>cm c. pc = RSubscribed cm c \<or> pc = RInstalling cm c \<longrightarrow> meta_name (cm_ObjectMeta cm) \<noteq> n)"

definition never_adds :: "NamespacedName \<Rightarrow> label list \<Rightarrow> bool" where
  "never_adds n ls \<longleftrightarrow> (\<forall>now cm. LSubscribe now cm \<in> set ls \<longrightarrow> meta_name (cm_ObjectMeta cm) \<noteq> n)"

text \<open>The goroutine with number \<open>i\<close> goes on with the run of a countermeasure that is gone.\<close>

definition orphaned :: "nat \<Rightarrow> NamespacedName \<Rightarrow> ('q, 'w) am_sys \<Rightarrow> bool" where
  "orphaned i n s \<longleftrightarrow> i < length (am_goroutines (sy_manager s)) \<and>
     (let h = am_goroutines (sy_manager s) ! i
      in committed (h_pc h) \<and> ok_NamespacedName (h_key h) = n \<and> name_absent n (am_state (sy_manager s)) \<and> not_adding n (sy_reconciler s))"

lemma bookkeeping_panics:
  assumes "name_absent (ok_NamespacedName k) st"
  shows "CounterMeasureStart now ev k st = Panics ''nil pointer dereference''"
    and "CounterMeasureEnd ev k st = Panics ''nil pointer dereference''"
  using assms by (auto simp: CounterMeasureStart_def CounterMeasureEnd_def name_absent_def IsDeployed_def entry_at_def)

lemma name_absent_same_keys: "same_keys st st' \<Longrightarrow> name_absent n st' = name_absent n st"
  by (simp add: name_absent_def same_keys_Deployed)

lemma name_absent_insert:
  "name_absent n st \<Longrightarrow> meta_name (cm_ObjectMeta cm) \<noteq> n \<Longrightarrow> name_absent n (state_insert cm st)"
  by (auto simp: name_absent_def IsDeployed_def state_insert_def go_map_simps)

lemma name_absent_Remove_other: "name_absent n st \<Longrightarrow> name_absent n (state_Remove n' st)"
  by (simp add: name_absent_def IsDeployed_Remove)

text \<open>A step of another goroutine writes entries only, and its own place.\<close>

lemma handler_step_frame:
  assumes "handler_of l = Some j" and "handler_step OnError env l h s = Some s'"
  shows "sy_crash s' \<noteq> None \<or> (same_keys (am_state (sy_manager s)) (am_state (sy_manager s')) \<and> sy_reconciler s' = sy_reconciler s \<and>
    (\<exists>pc. am_goroutines (sy_manager s') = (am_goroutines (sy_manager s))[j := (am_goroutines (sy_manager s) ! j)\<lparr>h_pc := pc\<rparr>]))"
  using assms
  by (cases l) (auto simp: Let_def crashed_def same_keys_refl dest: on_lookup_result same_keys_Start same_keys_End
      split: if_split_asm recv.split_asm prod.split_asm handler_pc.split_asm option.split_asm go.split_asm)

lemma orphaned_own_step:
  assumes "orphaned i n s" and "handler_of l = Some i" and "handler_step OnError env l (am_goroutines (sy_manager s) ! i) s = Some s'"
  shows "sy_crash s' \<noteq> None \<or> orphaned i n s'"
  using assms
  by (cases l) (auto simp: orphaned_def crashed_def bookkeeping_panics Let_def split: handler_pc.split_asm option.split_asm go.split_asm
      prod.split_asm if_split_asm)

lemma orphaned_outer_step:
  assumes "orphaned i n s" and "outer_step l s = Some s'" and "never_adds n [l]"
  shows "orphaned i n s'"
proof -
  have len: "i < length (am_goroutines (sy_manager s))"
    using assms(1) by (simp add: orphaned_def)
  show ?thesis
    using assms len
    by (cases l) (auto simp: orphaned_def never_adds_def not_adding_def Let_def nth_append name_absent_insert name_absent_Remove_other
        dest: drop_consumer_state split: reconciler_pc.split_asm prod.split_asm if_split_asm go.split_asm bool.split_asm)
qed

lemma orphaned_do:
  assumes "orphaned i n s" and "am_do OnError env l s = Some s'"
    and "never_adds n [l]"
  shows "sy_crash s' \<noteq> None \<or> orphaned i n s'"
proof (cases "handler_of l")
  case None
  then show ?thesis
    using assms orphaned_outer_step by (simp add: am_do_def split: if_split_asm) blast
next
  case (Some j)
  then have step: "handler_step OnError env l (am_goroutines (sy_manager s) ! j) s = Some s'"
    using assms(2) by (simp add: am_do_def split: if_split_asm)
  show ?thesis
  proof (cases "j = i")
    case True
    then show ?thesis
      using orphaned_own_step [OF assms(1)] Some step by simp
  next
    case False
    then show ?thesis
      using handler_step_frame [OF Some step] assms(1) by (auto simp: orphaned_def name_absent_same_keys Let_def)
  qed
qed

lemma am_do_alive: "am_do OnError env l s = Some s' \<Longrightarrow> sy_crash s = None"
  by (simp add: am_do_def split: if_split_asm)

lemma orphaned_run:
  assumes "orphaned i n s" and "am_run OnError env ls s = Some s'" and "never_adds n ls"
  shows "sy_crash s' \<noteq> None \<or> orphaned i n s'"
  using assms
proof (induction ls arbitrary: s)
  case (Cons l ls)
  then obtain s1 where s1: "am_do OnError env l s = Some s1" "am_run OnError env ls s1 = Some s'"
    by (auto split: option.split_asm)
  have one: "never_adds n [l]" "never_adds n ls"
    using Cons.prems(3) by (auto simp: never_adds_def)
  show ?case
  proof (cases "sy_crash s1 = None")
    case True
    then show ?thesis
      using orphaned_do [OF Cons.prems(1) s1(1) one(1)] Cons.IH [OF _ s1(2) one(2)] by blast
  next
    case False
    then have "ls = []"
      using s1(2) am_do_alive [of OnError env _ s1] by (cases ls) (auto split: option.split_asm)
    with False s1(2) show ?thesis
      by simp
  qed
qed simp

text \<open>Its own next steps end the process.\<close>

lemma orphaned_start_end:
  assumes "orphaned i n s" and "sy_crash s = None"
  shows "h_pc (am_goroutines (sy_manager s) ! i) = HBuilt ev cm seq \<Longrightarrow> am_do OnError env (LStart i now) s = Some (crashed BookkeepingPanic s)"
    and "h_pc (am_goroutines (sy_manager s) ! i) = HRan ev \<Longrightarrow> am_do OnError env (LEnd i) s = Some (crashed BookkeepingPanic s)"
  using assms by (auto simp: orphaned_def am_do_def bookkeeping_panics Let_def)

lemma orphaned_runs_on:
  assumes "orphaned i n s" and "sy_crash s = None" and "h_pc (am_goroutines (sy_manager s) ! i) = HRunning ev cm seq"
  shows "\<exists>t. am_do OnError env (LRun i) s = Some t \<and>
    (sy_crash t = Some RunPanic \<or> (sy_crash t = None \<and> h_pc (am_goroutines (sy_manager t) ! i) = HRan ev))"
  using assms by (auto simp: orphaned_def am_do_def crashed_def Let_def split: go.split)

lemma removed_orphaned:
  assumes "i < length (am_goroutines (sy_manager s))" and "committed (h_pc (am_goroutines (sy_manager s) ! i))"
    and "ok_NamespacedName (h_key (am_goroutines (sy_manager s) ! i)) = n" and "am_run OnError env [LRemove n, LForget] s = Some s'"
  shows "orphaned i n s'"
proof -
  obtain m where "drop_consumer n (sy_manager s) = Ret m" "sy_manager s' = m\<lparr>am_state := state_Remove n (am_state m)\<rparr>"
    "sy_reconciler s' = RIdle"
    using assms(4) by (auto simp: am_do_def Let_def split: if_split_asm go.split_asm option.split_asm)
  then show ?thesis
    using assms(1-3) drop_consumer_state by (fastforce simp: orphaned_def not_adding_def name_absent_Remove Let_def)
qed

text \<open>C11:
  The code does not enforce that discipline, and without it the operator crashes: when a
  countermeasure is removed while one of its goroutines has built its runner and has not
  finished the bookkeeping of the run, so before the run, between its start and its end, or
  after the actions, then no schedule in which no countermeasure of that name is added again
  brings the goroutine out of that run. As long as the process has not crashed the goroutine
  is still in the run, and whenever it moves on the process ends: the actions themselves
  panic, or the goroutine comes to the bookkeeping at the start or the end of the run, which
  dereferences nil. (The actions of one run are a single step here; the removal may come before
  or after that step.)
\<close>

theorem removal_during_run_crashes:
  assumes "i < length (am_goroutines (sy_manager s))" and "committed (h_pc (am_goroutines (sy_manager s) ! i))"
    and "ok_NamespacedName (h_key (am_goroutines (sy_manager s) ! i)) = n"
    and "am_run OnError env ([LRemove n, LForget] @ ls) s = Some s'" and "never_adds n ls"
  shows "sy_crash s' \<noteq> None \<or>
    committed (h_pc (am_goroutines (sy_manager s') ! i)) \<and>
    (case h_pc (am_goroutines (sy_manager s') ! i) of
       HRunning ev cm seq \<Rightarrow>
         (\<exists>t. am_do OnError env (LRun i) s' = Some t \<and>
           (sy_crash t = Some RunPanic \<or> am_do OnError env (LEnd i) t = Some (crashed BookkeepingPanic t)))
     | HRan ev \<Rightarrow> am_do OnError env (LEnd i) s' = Some (crashed BookkeepingPanic s')
     | _ \<Rightarrow> (\<forall>now. am_do OnError env (LStart i now) s' = Some (crashed BookkeepingPanic s')))"
proof (cases "sy_crash s'")
  case None
  obtain s1 where s1: "am_run OnError env [LRemove n, LForget] s = Some s1" "am_run OnError env ls s1 = Some s'"
    using assms(4) by (auto split: option.split_asm)
  then have orphan: "orphaned i n s'"
    using orphaned_run [OF removed_orphaned [OF assms(1-3) s1(1)] s1(2) assms(5)] None by simp
  note steps = orphaned_start_end [OF orphan None]
  show ?thesis
  proof (cases "h_pc (am_goroutines (sy_manager s') ! i)")
    case (HRunning ev cm seq)
    then obtain t where t: "am_do OnError env (LRun i) s' = Some t"
      and pc: "sy_crash t = Some RunPanic \<or> (sy_crash t = None \<and> h_pc (am_goroutines (sy_manager t) ! i) = HRan ev)"
      using orphaned_runs_on [OF orphan None] by blast
    have "orphaned i n t" if "sy_crash t = None"
      using orphaned_do [OF orphan t] that by (simp add: never_adds_def)
    then have "am_do OnError env (LEnd i) t = Some (crashed BookkeepingPanic t)"
      if "sy_crash t = None" "h_pc (am_goroutines (sy_manager t) ! i) = HRan ev"
      using that by (intro orphaned_start_end(2))
    then show ?thesis
      using HRunning t pc by auto
  qed (use steps orphan in \<open>auto simp: orphaned_def\<close>)
qed simp

text \<open>The countermeasure of the demo is deleted between the start and the end of its run.\<close>

definition removal_schedule :: "label list" where
  "removal_schedule =
     [LSubscribe ''t'' sample_cm, LInstall, LInsert, LSend 0 demo_event, LReceive 0, LLookup 0 0, LCheck 0 0,
      LStart 0 0]"

theorem removal_during_run_crashes_witness:
  "\<exists>s s' :: (fifo, NamespacedName list) am_sys. am_run (bounded_attempts 3) demo_env removal_schedule demo_sys = Some s \<and>
     am_run (bounded_attempts 3) demo_env ([LRemove (meta_name (cm_ObjectMeta sample_cm)), LForget] @ [LRun 0]) s = Some s' \<and>
     sy_crash s' = None \<and> cl_log (sy_cluster s') \<noteq> [] \<and>
     am_do (bounded_attempts 3) demo_env (LEnd 0) s' = Some (crashed BookkeepingPanic s')"
proof -
  let ?n = "meta_name (cm_ObjectMeta sample_cm)"
  let ?r = "am_run (bounded_attempts 3) demo_env removal_schedule demo_sys"
  let ?ls = "[LRemove ?n, LForget] @ [LRun 0]"
  have "case ?r of None \<Rightarrow> False | Some s \<Rightarrow> length (am_goroutines (sy_manager s)) = 1 \<and>
      committed (h_pc (am_goroutines (sy_manager s) ! 0)) \<and> ok_NamespacedName (h_key (am_goroutines (sy_manager s) ! 0)) = ?n \<and>
      (case am_run (bounded_attempts 3) demo_env ?ls s of None \<Rightarrow> False | Some s' \<Rightarrow>
        sy_crash s' = None \<and> cl_log (sy_cluster s') \<noteq> [] \<and> h_pc (am_goroutines (sy_manager s') ! 0) = HRan demo_event)"
    by code_simp
  then obtain s s' where s: "?r = Some s" "length (am_goroutines (sy_manager s)) = 1" "committed (h_pc (am_goroutines (sy_manager s) ! 0))"
      "ok_NamespacedName (h_key (am_goroutines (sy_manager s) ! 0)) = ?n" "am_run (bounded_attempts 3) demo_env ?ls s = Some s'"
      "sy_crash s' = None" "cl_log (sy_cluster s') \<noteq> []" "h_pc (am_goroutines (sy_manager s') ! 0) = HRan demo_event"
    by (auto split: option.split_asm)
  have "never_adds ?n [LRun 0]"
    by (simp add: never_adds_def)
  from removal_during_run_crashes [OF _ s(3,4,5) this] s show ?thesis
    by auto
qed

end
