(* ===== verification/Prometheus_Source.thy ===== *)
theory Prometheus_Source
  imports Eventbus Retry
begin

text \<open>
  \<open>pkg/producer/prometheus\<close>: the client of the Prometheus alerts API, the conversion of
  alerts into events, and the producer that polls the API and publishes on the bus. The API
  itself is a parameter.
\<close>

section \<open>Alerts\<close>

text \<open>\<open>v1.Alert\<close> and \<open>v1.AlertState\<close> of the Prometheus client, as far as they are read.\<close>

datatype AlertState = AlertStateFiring | AlertStateInactive | AlertStatePending

record Alert =
  al_ActiveAt :: int
  al_Labels :: "(string, string) gomap"
  al_State :: AlertState

record AlertQueryResult =
  qr_alerts :: "Alert list"

text \<open>
  \<open>api.Config\<close>; the round tripper is nil or basic authentication with a user name and a
  password. \<open>api.NewClient\<close> is a parameter, and \<open>v1.NewAPI\<close> is part of it.
\<close>

record ClientConfig =
  cc_Address :: string
  cc_RoundTripper :: "(string \<times> string) option"

definition NewPrometheusClient :: "(ClientConfig \<Rightarrow> goerror + 'api) \<Rightarrow> string \<Rightarrow> string \<Rightarrow> string \<Rightarrow> goerror + 'api" where
  "NewPrometheusClient NewClient address username password =
     (let clientConfig = \<lparr>cc_Address = address, cc_RoundTripper = None\<rparr>;
          clientConfig' =
            (if length username > 0 then clientConfig\<lparr>cc_RoundTripper := Some (username, password)\<rparr> else clientConfig)
      in case NewClient clientConfig' of
           Inl err \<Rightarrow> Inl (Wrapf ''error creating client, '' err)
         | Inr client \<Rightarrow> Inr client)"

fun find_active_loop :: "bool \<Rightarrow> Alert list \<Rightarrow> Alert list \<Rightarrow> Alert list" where
  "find_active_loop includePending [] foundAlerts = foundAlerts"
| "find_active_loop includePending (alert # alerts) foundAlerts =
     find_active_loop includePending alerts
       (if al_State alert = AlertStateFiring \<or> (includePending \<and> al_State alert = AlertStatePending)
        then foundAlerts @ [alert] else foundAlerts)"

definition findActiveAlert :: "AlertQueryResult \<Rightarrow> bool \<Rightarrow> Alert list" where
  "findActiveAlert r includePending = find_active_loop includePending (qr_alerts r) []"

text \<open>The copy of the labels into a new map.\<close>

definition copy_labels :: "(string, string) gomap \<Rightarrow> EventData" where
  "copy_labels ls = foldl (\<lambda>labels (label, value). map_put label value labels) [] ls"

text \<open>\<open>fresh\<close> is the next free address: every event gets the address of its own map.\<close>

fun to_events_loop :: "nat \<Rightarrow> Alert list \<Rightarrow> Event list" where
  "to_events_loop fresh [] = []"
| "to_events_loop fresh (alert # alerts) =
     (let labels = copy_labels (al_Labels alert)
      in \<lparr>ev_Name = EventData_Get (al_Labels alert) ''alertname'', ev_ActiveTime = al_ActiveAt alert,
          ev_Data = Some (Ptr fresh labels)\<rparr> # to_events_loop (Suc fresh) alerts)"

definition ToEvents :: "nat \<Rightarrow> AlertQueryResult \<Rightarrow> bool \<Rightarrow> goerror + Event list" where
  "ToEvents fresh r includePending =
     (let foundAlerts = findActiveAlert r includePending
      in if length foundAlerts = 0 then Inl ErrAlertNotFiring
         else Inr (to_events_loop fresh foundAlerts))"

text \<open>\<open>Alerts\<close> is the method of the API; the world is what it reads.\<close>

definition GetActiveAlerts :: "('w \<Rightarrow> (goerror + Alert list) \<times> 'w) \<Rightarrow> 'w \<Rightarrow> (goerror + AlertQueryResult) \<times> 'w" where
  "GetActiveAlerts Alerts w =
     (case Alerts w of
        (Inl err, w') \<Rightarrow> (Inl (Wrapf ''error querying prometheus: '' err), w')
      | (Inr alerts, w') \<Rightarrow> (Inr \<lparr>qr_alerts = alerts\<rparr>, w'))"

section \<open>The polling producer\<close>

record 'api PrometheusConfig =
  pc_PollInterval :: int
  pc_IncludePending :: bool
  pc_Key :: ObjectKey
  pc_Client :: 'api

record 'api EventProducer =
  ep_config :: "'api PrometheusConfig"

definition NewEventProducer :: "'api PrometheusConfig \<Rightarrow> 'api EventProducer" where
  "NewEventProducer cfg = \<lparr>ep_config = cfg\<rparr>"

definition producer_Key :: "'api EventProducer \<Rightarrow> ObjectKey" where
  "producer_Key d = pc_Key (ep_config d)"

definition getName :: "'api EventProducer \<Rightarrow> NamespacedName" where
  "getName d = ok_NamespacedName (pc_Key (ep_config d))"

text \<open>\<open>EventProducer.Publish\<close>; the producer it wraps is the event bus.\<close>

definition producer_Publish :: "'q EventBus retrier \<Rightarrow> 'q workqueue_ops \<Rightarrow> string \<Rightarrow> Event \<Rightarrow> 'q EventBus \<Rightarrow>
    (goerror option \<times> 'q EventBus) go" where
  "producer_Publish OnError wq topic event b =
     OnError (\<lambda>err. True) (\<lambda>b. Ret (Publish wq topic event b)) b"

text \<open>The loop of \<open>poll\<close>: a failed publication is logged and the loop goes on.\<close>

fun publish_loop :: "'q EventBus retrier \<Rightarrow> 'q workqueue_ops \<Rightarrow> NamespacedName \<Rightarrow> Event list \<Rightarrow> 'q EventBus \<Rightarrow> 'q EventBus go" where
  "publish_loop OnError wq name [] b = Ret b"
| "publish_loop OnError wq name (event # events) b =
     go_bind (producer_Publish OnError wq (CreateFullyQualifiedTopicName (ev_Name event) name) event b)
       (\<lambda>(err, b'). publish_loop OnError wq name events b')"

text \<open>
  \<open>poll\<close>: the bus, the next free address and the world after one poll. \<open>Alerts\<close> is the API
  method of a client.
\<close>

definition poll :: "('api \<Rightarrow> 'w \<Rightarrow> (goerror + Alert list) \<times> 'w) \<Rightarrow> 'q EventBus retrier \<Rightarrow> 'q workqueue_ops \<Rightarrow>
    'api EventProducer \<Rightarrow> 'q EventBus \<times> nat \<times> 'w \<Rightarrow> ('q EventBus \<times> nat \<times> 'w) go" where
  "poll Alerts OnError wq d = (\<lambda>(b, fresh, w).
     (case GetActiveAlerts (Alerts (pc_Client (ep_config d))) w of
        (Inl err, w') \<Rightarrow> Ret (b, fresh, w')
      | (Inr alerts, w') \<Rightarrow>
          (case ToEvents fresh alerts (pc_IncludePending (ep_config d)) of
             Inl err \<Rightarrow> Ret (b, fresh, w')
           | Inr eventsToPublish \<Rightarrow>
               go_bind (publish_loop OnError wq (getName d) eventsToPublish b)
                 (\<lambda>b'. Ret (b', fresh + length eventsToPublish, w')))))"

section \<open>From alerts to events\<close>

definition is_active :: "bool \<Rightarrow> Alert \<Rightarrow> bool" where
  "is_active includePending alert \<longleftrightarrow>
     al_State alert = AlertStateFiring \<or> (includePending \<and> al_State alert = AlertStatePending)"

lemma find_active_loop_filter: "find_active_loop p xs acc = acc @ filter (is_active p) xs"
  by (induction xs arbitrary: acc) (auto simp: is_active_def)

lemma findActiveAlert_filter: "findActiveAlert r p = filter (is_active p) (qr_alerts r)"
  by (simp add: findActiveAlert_def find_active_loop_filter)

lemma copy_labels_fold: "foldl (\<lambda>labels (label, value). map_put label value labels) acc ls =
    fold (\<lambda>(label, value). map_put label value) ls acc"
  by (induction ls arbitrary: acc) auto

lemma wf_copy_labels: "wf_map (copy_labels ls)"
proof -
  have "wf_map (fold (\<lambda>(label, value). map_put label value) ls acc)" if "wf_map acc" for acc
    using that by (induction ls arbitrary: acc) (auto simp: wf_put)
  then show ?thesis
    by (simp add: copy_labels_def copy_labels_fold)
qed

lemma map_of_copy_labels:
  assumes "wf_map ls"
  shows "map_of (copy_labels ls) = map_of ls"
proof -
  have "map_of (fold (\<lambda>(label, value). map_put label value) ls acc) = map_of acc ++ map_of ls" if "wf_map ls" for acc :: EventData
    using that
  proof (induction ls arbitrary: acc)
    case (Cons x ls)
    then have "map_of ls (fst x) = None"
      by (simp add: map_of_eq_None_iff)
    with Cons show ?case
      by (cases x) (auto simp: go_map_simps fun_eq_iff map_add_def split: option.splits)
  qed simp
  with assms show ?thesis
    by (simp add: copy_labels_def copy_labels_fold)
qed

lemma same_map_copy_labels: "wf_map ls \<Longrightarrow> same_map (copy_labels ls) ls"
  by (simp add: same_map_def wf_copy_labels map_of_copy_labels)

text \<open>The event of an alert.\<close>

definition event_of :: "nat \<Rightarrow> Alert \<Rightarrow> Event" where
  "event_of a alert = \<lparr>ev_Name = EventData_Get (al_Labels alert) ''alertname'', ev_ActiveTime = al_ActiveAt alert,
     ev_Data = Some (Ptr a (copy_labels (al_Labels alert)))\<rparr>"

lemma to_events_loop_nth:
  "to_events_loop fresh xs = map2 event_of [fresh..<fresh + length xs] xs"
  by (induction xs arbitrary: fresh) (simp_all add: event_of_def Let_def upt_conv_Cons del: upt_Suc)

text \<open>
  Alerts become events faithfully: the result is the error \<open>ErrAlertNotFiring\<close> exactly when
  no alert fires (or is pending, where those are included); otherwise there is one event per
  active alert, in order, with the alert's name and time and a map of exactly its labels, and
  no two events share their map.
\<close>

lemma ToEvents_exact:
  assumes "\<forall>al \<in> set (qr_alerts r). wf_map (al_Labels al)"
  shows "case ToEvents fresh r p of
      Inl err \<Rightarrow> err = ErrAlertNotFiring \<and> filter (is_active p) (qr_alerts r) = []
    | Inr evs \<Rightarrow> filter (is_active p) (qr_alerts r) \<noteq> [] \<and>
        list_all2 (\<lambda>ev al. ev_Name ev = EventData_Get (al_Labels al) ''alertname'' \<and> ev_ActiveTime ev = al_ActiveAt al \<and>
          (\<exists>q. ev_Data ev = Some q \<and> same_map (deref q) (al_Labels al))) evs (filter (is_active p) (qr_alerts r)) \<and>
        distinct (map (\<lambda>ev. map_option addr (ev_Data ev)) evs)"
proof -
  let ?as = "filter (is_active p) (qr_alerts r)"
  let ?evs = "map2 event_of [fresh..<fresh + length ?as] ?as"
  have "\<forall>i < length ?as. same_map (copy_labels (al_Labels (?as ! i))) (al_Labels (?as ! i))"
    using assms nth_mem by (fastforce intro: same_map_copy_labels)
  then have "list_all2 (\<lambda>ev al. ev_Name ev = EventData_Get (al_Labels al) ''alertname'' \<and> ev_ActiveTime ev = al_ActiveAt al \<and>
      (\<exists>q. ev_Data ev = Some q \<and> same_map (deref q) (al_Labels al))) ?evs ?as"
    by (simp add: list_all2_conv_all_nth event_of_def)
  moreover have "map (\<lambda>ev. map_option addr (ev_Data ev)) ?evs = map Some [fresh..<fresh + length ?as]"
    by (rule nth_equalityI) (simp_all add: event_of_def)
  then have "distinct (map (\<lambda>ev. map_option addr (ev_Data ev)) ?evs)"
    by (simp add: distinct_map)
  ultimately show ?thesis
    by (simp add: ToEvents_def Let_def findActiveAlert_filter to_events_loop_nth)
qed

definition demo_alert :: Alert where
  "demo_alert = \<lparr>al_ActiveAt = 7, al_Labels = [(''alertname'', ''HighCpu''), (''pod'', ''pod-0'')], al_State = AlertStateFiring\<rparr>"

section \<open>Polling\<close>

text \<open>The messages of the events that a producer publishes.\<close>

definition messages_of :: "NamespacedName \<Rightarrow> Event list \<Rightarrow> item list" where
  "messages_of name evs =
     map (\<lambda>ev. MessageItem \<lparr>msg_event = ev, msg_topic = CreateFullyQualifiedTopicName (ev_Name ev) name\<rparr>) evs"

lemma producer_Publish_Ret:
  "retry_contract n OnError \<Longrightarrow> producer_Publish OnError wq t e b = Ret (None, snd (Publish wq t e b))"
  by (cases n) (simp_all add: producer_Publish_def retry_contract_def Publish_def)

lemma publish_loop_Ret:
  assumes "retry_contract n OnError"
  shows "publish_loop OnError wq name evs b = Ret (b\<lparr>eb_workqueue := fold (wq_Add wq) (messages_of name evs) (eb_workqueue b)\<rparr>)"
  by (induction evs arbitrary: b) (simp_all add: messages_of_def producer_Publish_Ret [OF assms] Publish_def)

lemma pend_fold_Add:
  assumes "workqueue_contract wq pend closing" and "\<not> closing q"
  shows "pend (fold (wq_Add wq) is q) = pend q \<union> set is \<and> \<not> closing (fold (wq_Add wq) is q)"
  using assms(2) by (induction "is" arbitrary: q) (auto simp: workqueue_contractD(1,10) [OF assms(1)])

text \<open>The events of one poll, given the answer of the API.\<close>

definition polled :: "nat \<Rightarrow> bool \<Rightarrow> Alert list \<Rightarrow> Event list" where
  "polled fresh p alerts =
     (let as = filter (is_active p) alerts in map2 event_of [fresh..<fresh + length as] as)"

text \<open>
  What the API has answered to the producers. An event is announced by an answer if it is that
  of an alert of the answer which is firing, or pending and the producer includes these; it
  is published on the topic of its name and the source. The state of the alert is in the
  answer only, the event does not carry it.
\<close>

type_synonym 'api answers = "('api EventProducer \<times> Alert list) list"

definition announced :: "'api answers \<Rightarrow> 'api EventProducer \<Rightarrow> Event \<Rightarrow> bool" where
  "announced answers d ev \<longleftrightarrow> (\<exists>alerts al a. (d, alerts) \<in> set answers \<and> al \<in> set alerts \<and>
     is_active (pc_IncludePending (ep_config d)) al \<and> ev = event_of a al)"

definition from_alert :: "'api answers \<Rightarrow> string \<Rightarrow> Event \<Rightarrow> bool" where
  "from_alert answers t ev \<longleftrightarrow> (\<exists>d. announced answers d ev \<and> t = CreateFullyQualifiedTopicName (ev_Name ev) (getName d))"

lemma announced_mono: "announced answers d ev \<Longrightarrow> set answers \<subseteq> set answers' \<Longrightarrow> announced answers' d ev"
  unfolding announced_def by blast

lemma from_alert_mono: "from_alert answers t ev \<Longrightarrow> set answers \<subseteq> set answers' \<Longrightarrow> from_alert answers' t ev"
  unfolding from_alert_def using announced_mono by blast

text \<open>The answer of the API to a poll, if there is one.\<close>

definition answer_of :: "('api \<Rightarrow> 'w \<Rightarrow> (goerror + Alert list) \<times> 'w) \<Rightarrow> 'api EventProducer \<Rightarrow> 'w \<Rightarrow> 'api answers" where
  "answer_of Alerts d w = (case fst (Alerts (pc_Client (ep_config d)) w) of Inl err \<Rightarrow> [] | Inr alerts \<Rightarrow> [(d, alerts)])"

lemma polled_announced:
  "(d, alerts) \<in> set answers \<Longrightarrow> ev \<in> set (polled fresh (pc_IncludePending (ep_config d)) alerts) \<Longrightarrow> announced answers d ev"
  by (fastforce simp: polled_def Let_def announced_def dest!: set_zip_rightD)

lemma poll_alerts:
  assumes "retry_contract n OnError" and "Alerts (pc_Client (ep_config d)) w = (Inr alerts, w')"
  shows "poll Alerts OnError wq d (b, fresh, w) =
    Ret (b\<lparr>eb_workqueue := fold (wq_Add wq) (messages_of (getName d) (polled fresh (pc_IncludePending (ep_config d)) alerts)) (eb_workqueue b)\<rparr>,
         fresh + length (filter (is_active (pc_IncludePending (ep_config d))) alerts), w')"
  using assms(2)
  by (auto simp: poll_def GetActiveAlerts_def ToEvents_def Let_def findActiveAlert_filter polled_def
      to_events_loop_nth publish_loop_Ret [OF assms(1)] messages_of_def)

text \<open>C28:
  One poll publishes exactly the active alerts: while the work queue is open, the items that
  wait after the poll are those that waited before and one message per active alert, on the
  topic made of the alert's name and the name of the event source; no subscriber or channel
  is touched. When the API fails, nothing is published.
\<close>

theorem poll_publishes_active_alerts:
  assumes "workqueue_contract wq pend closing" and "\<not> closing (eb_workqueue b)" and "retry_contract n OnError"
  shows "\<exists>b' fresh' w'. poll Alerts OnError wq d (b, fresh, w) = Ret (b', fresh', w') \<and>
    b' = b\<lparr>eb_workqueue := eb_workqueue b'\<rparr> \<and>
    pend (eb_workqueue b') = pend (eb_workqueue b) \<union>
      (case fst (Alerts (pc_Client (ep_config d)) w) of
         Inl err \<Rightarrow> {}
       | Inr alerts \<Rightarrow> set (messages_of (getName d) (polled fresh (pc_IncludePending (ep_config d)) alerts)))"
proof (cases "Alerts (pc_Client (ep_config d)) w")
  case (Pair ans w')
  show ?thesis
  proof (cases ans)
    case (Inl err)
    with Pair show ?thesis
      by (simp add: poll_def GetActiveAlerts_def)
  next
    case (Inr alerts)
    with Pair have "Alerts (pc_Client (ep_config d)) w = (Inr alerts, w')"
      by simp
    from poll_alerts [where Alerts = Alerts and d = d and wq = wq and b = b and fresh = fresh, OF assms(3) this] show ?thesis
      using Pair Inr pend_fold_Add [OF assms(1,2)] by simp
  qed
qed

definition demo_producer :: "unit EventProducer" where
  "demo_producer = NewEventProducer \<lparr>pc_PollInterval = 15, pc_IncludePending = False,
     pc_Key = \<lparr>ok_NamespacedName = \<lparr>nn_Namespace = ''mon'', nn_Name = ''p8s''\<rparr>, ok_Generation = 1\<rparr>, pc_Client = ()\<rparr>"

definition demo_api :: "unit \<Rightarrow> unit \<Rightarrow> (goerror + Alert list) \<times> unit" where
  "demo_api c w = (Inr [demo_alert], w)"

theorem poll_publishes_active_alerts_witness:
  "\<exists>b' fresh' w'. poll demo_api (bounded_attempts 3) fifo_ops demo_producer (NewEventBus 1 ([], False), 0, ()) = Ret (b', fresh', w') \<and>
     set (fst (eb_workqueue b')) =
       {MessageItem \<lparr>msg_event = event_of 0 demo_alert, msg_topic = ''HighCpu:mon:p8s''\<rparr>}"
proof -
  have "\<not> snd (eb_workqueue (NewEventBus 1 ([], False)))"
    by (simp add: NewEventBus_def)
  then obtain b' fresh' w' where
    p: "poll demo_api (bounded_attempts 3) fifo_ops demo_producer (NewEventBus 1 ([], False), 0, ()) = Ret (b', fresh', w')"
    and q: "set (fst (eb_workqueue b')) = set (fst (eb_workqueue (NewEventBus 1 ([], False)))) \<union>
      (case fst (demo_api (pc_Client (ep_config demo_producer)) ()) of Inl err \<Rightarrow> {}
       | Inr alerts \<Rightarrow> set (messages_of (getName demo_producer) (polled 0 (pc_IncludePending (ep_config demo_producer)) alerts)))"
    using poll_publishes_active_alerts [where Alerts = demo_api and d = demo_producer and fresh = 0 and w = "()",
      OF fifo_contract _ bounded_attempts_contract [of 3]] by blast
  have "messages_of (getName demo_producer) (polled 0 p [demo_alert]) =
      [MessageItem \<lparr>msg_event = event_of 0 demo_alert, msg_topic = ''HighCpu:mon:p8s''\<rparr>]" for p
    by (simp add: messages_of_def polled_def is_active_def event_of_def demo_producer_def NewEventProducer_def
        getName_def CreateFullyQualifiedTopicName_def) (simp add: demo_alert_def EventData_Get_def)
  with q have "set (fst (eb_workqueue b')) = {MessageItem \<lparr>msg_event = event_of 0 demo_alert, msg_topic = ''HighCpu:mon:p8s''\<rparr>}"
    by (simp add: demo_api_def NewEventBus_def)
  with p show ?thesis by blast
qed

lemma messages_of_addr:
  "MessageItem m \<in> set (messages_of name (polled fresh p alerts)) \<Longrightarrow>
   \<exists>i q. ev_Data (msg_event m) = Some q \<and> addr q = i \<and> fresh \<le> i \<and> i < fresh + length (filter (is_active p) alerts)"
  by (auto simp: messages_of_def polled_def Let_def set_zip event_of_def)

text \<open>
  The queue never recognises an alert that it already holds: two polls publish no message in
  common, even when the alerts are the same, because every event points to a new map and the
  queue compares the pointers. An alert that keeps firing adds one message per poll.
\<close>

lemma polls_are_never_merged:
  assumes "retry_contract n OnError"
    and "Alerts (pc_Client (ep_config d)) w = (Inr alerts, w1)" and "Alerts (pc_Client (ep_config d)) w1 = (Inr alerts', w2)"
  shows "\<exists>b1 f1 b2 f2 new1 new2. poll Alerts OnError wq d (b, fresh, w) = Ret (b1, f1, w1) \<and>
    poll Alerts OnError wq d (b1, f1, w1) = Ret (b2, f2, w2) \<and>
    eb_workqueue b1 = fold (wq_Add wq) new1 (eb_workqueue b) \<and> eb_workqueue b2 = fold (wq_Add wq) new2 (eb_workqueue b1) \<and>
    length new1 = length (filter (is_active (pc_IncludePending (ep_config d))) alerts) \<and>
    length new2 = length (filter (is_active (pc_IncludePending (ep_config d))) alerts') \<and>
    distinct new1 \<and> distinct new2 \<and> set new1 \<inter> set new2 = {}"
proof -
  let ?p = "pc_IncludePending (ep_config d)" and ?n = "getName d"
  let ?f1 = "fresh + length (filter (is_active ?p) alerts)"
  have distinct: "distinct (messages_of ?n (polled f ?p as))" for f as
    by (auto simp: messages_of_def polled_def Let_def distinct_conv_nth event_of_def)
  have "set (messages_of ?n (polled fresh ?p alerts)) \<inter> set (messages_of ?n (polled ?f1 ?p alerts')) = {}"
  proof (rule ccontr)
    assume "\<not> ?thesis"
    then obtain i where i: "i \<in> set (messages_of ?n (polled fresh ?p alerts))" "i \<in> set (messages_of ?n (polled ?f1 ?p alerts'))"
      by blast
    then obtain m where "i = MessageItem m"
      by (auto simp: messages_of_def)
    then show False
      using i messages_of_addr [of m ?n fresh ?p alerts] messages_of_addr [of m ?n ?f1 ?p alerts'] by force
  qed
  moreover have "length (messages_of ?n (polled f ?p as)) = length (filter (is_active ?p) as)" for f as
    by (simp add: messages_of_def polled_def Let_def)
  ultimately show ?thesis
    using distinct poll_alerts [where Alerts = Alerts and d = d and wq = wq and b = b and fresh = fresh, OF assms(1,2)]
      poll_alerts [where Alerts = Alerts and d = d and wq = wq and fresh = ?f1, OF assms(1,3)] by (simp del: length_filter_le) blast
qed

end
