(* ===== verification/Producer.thy ===== *)
theory Producer
  imports Prometheus_Source
begin

text \<open>
  \<open>pkg/producer/manager.go\<close>: the manager of the event producers, which starts their polling,
  and \<open>EventProducer.Start\<close>. A producer polls in a goroutine of its own until the shutdown
  channel closes.
\<close>

section \<open>State and operations\<close>

text \<open>The channel \<open>shutdown\<close>: nil until the manager starts, then open, then closed.\<close>

datatype shutdown = NoShutdown | ShutdownOpen | ShutdownClosed

text \<open>\<open>pm_client\<close> is the identity of the client, nil until it is injected.\<close>

record 'api ProducerManager =
  pm_client :: "nat option"
  pm_shutdown :: shutdown
  pm_producers :: "(ObjectKey, 'api EventProducer) gomap"
  pm_launched :: "'api EventProducer list" \<comment> \<open>goroutines that poll until shutdown\<close>

definition NewManager :: "'api ProducerManager" where
  "NewManager = \<lparr>pm_client = None, pm_shutdown = NoShutdown, pm_producers = [], pm_launched = []\<rparr>"

definition InjectClient :: "nat \<Rightarrow> 'api ProducerManager \<Rightarrow> goerror option \<times> 'api ProducerManager" where
  "InjectClient client m = (None, m\<lparr>pm_client := Some client\<rparr>)"

text \<open>
  \<open>EventProducer.Start\<close>: launches the polling and then waits for the channel; \<open>None\<close> while
  it waits, otherwise the error it returns.
\<close>

definition producer_Start :: "shutdown \<Rightarrow> 'api EventProducer \<Rightarrow> 'api EventProducer list \<Rightarrow> goerror option option \<times> 'api EventProducer list" where
  "producer_Start done d launched =
     (if done = ShutdownClosed then Some None else None, launched @ [d])"

definition producers_Remove :: "NamespacedName \<Rightarrow> 'api ProducerManager \<Rightarrow> (goerror option \<times> 'api ProducerManager) go" where
  "producers_Remove name m = Ret (None, m\<lparr>pm_producers := remove_name name (pm_producers m)\<rparr>)"

definition producers_Exists :: "ObjectMeta \<Rightarrow> 'api ProducerManager \<Rightarrow> bool" where
  "producers_Exists objectMeta m = (map_of (pm_producers m) (ToKey objectMeta) \<noteq> None)"

text \<open>In \<open>Add\<close> the producer is started on a goroutine, so only the launch is seen.\<close>

definition producers_Add :: "'api EventProducer \<Rightarrow> 'api ProducerManager \<Rightarrow> (goerror option \<times> 'api ProducerManager) go" where
  "producers_Add producer m =
     (let m1 = m\<lparr>pm_producers := map_put (producer_Key producer) producer (pm_producers m)\<rparr>
      in Ret (None,
           if pm_shutdown m1 \<noteq> NoShutdown
           then m1\<lparr>pm_launched := snd (producer_Start (pm_shutdown m1) producer (pm_launched m1))\<rparr>
           else m1))"

text \<open>
  \<open>startProducers\<close> calls \<open>Start\<close> of each producer itself, holding the lock. \<open>Blocked\<close> is a
  call that waits for the shutdown channel.
\<close>

datatype progress = Blocked | Finished "goerror option"

fun start_loop :: "shutdown \<Rightarrow> (ObjectKey, 'api EventProducer) gomap \<Rightarrow> 'api EventProducer list \<Rightarrow> progress \<times> 'api EventProducer list" where
  "start_loop done [] launched = (Finished None, launched)"
| "start_loop done ((key, producer) # rest) launched =
     (case producer_Start done producer launched of
        (None, launched') \<Rightarrow> (Blocked, launched')
      | (Some (Some err), launched') \<Rightarrow> (Finished (Some err), launched')
      | (Some None, launched') \<Rightarrow> start_loop done rest launched')"

definition startProducers :: "'api ProducerManager \<Rightarrow> progress \<times> 'api ProducerManager" where
  "startProducers m =
     (let m1 = m\<lparr>pm_shutdown := ShutdownOpen\<rparr>
      in if length (pm_producers m1) > 0
         then (let (r, launched) = start_loop (pm_shutdown m1) (pm_producers m1) (pm_launched m1)
               in (r, m1\<lparr>pm_launched := launched\<rparr>))
         else (Finished None, m1))"

text \<open>\<open>Start\<close> after \<open>startProducers\<close> has returned and the context is done.\<close>

definition producers_stop :: "'api ProducerManager \<Rightarrow> goerror option \<times> 'api ProducerManager" where
  "producers_stop m = (None, m\<lparr>pm_shutdown := ShutdownClosed\<rparr>)"

section \<open>The manager as a store of objects\<close>

definition producer_meta :: "'api EventProducer \<Rightarrow> ObjectMeta" where
  "producer_meta d =
     \<lparr>om_Namespace = nn_Namespace (ok_NamespacedName (producer_Key d)),
      om_Name = nn_Name (ok_NamespacedName (producer_Key d)), om_Generation = ok_Generation (producer_Key d)\<rparr>"

lemma ToKey_producer_meta [simp]: "ToKey (producer_meta d) = producer_Key d"
  by (simp add: ToKey_def producer_meta_def)

lemma meta_name_producer_meta [simp]: "meta_name (producer_meta d) = ok_NamespacedName (producer_Key d)"
  by (simp add: meta_name_def producer_meta_def)

definition producers_inv :: "'api ProducerManager \<Rightarrow> bool" where
  "producers_inv m \<longleftrightarrow> wf_map (pm_producers m) \<and>
     (\<forall>k d. map_of (pm_producers m) k = Some d \<longrightarrow> producer_Key d = k) \<and>
     (pm_shutdown m = NoShutdown \<longrightarrow> pm_launched m = [])"

lemma producers_inv_New: "producers_inv NewManager"
  by (simp add: producers_inv_def NewManager_def)

lemma producers_inv_Add: "producers_inv m \<Longrightarrow> producers_Add d m = Ret (r, m') \<Longrightarrow> producers_inv m'"
  by (auto simp: producers_inv_def producers_Add_def Let_def wf_put go_map_simps split: if_split_asm)

lemma producers_inv_Remove: "producers_inv m \<Longrightarrow> producers_Remove n m = Ret (r, m') \<Longrightarrow> producers_inv m'"
  by (auto simp: producers_inv_def producers_Remove_def wf_remove_name go_map_simps dest: map_of_SomeD split: if_split_asm)

lemma producers_Exists_Add:
  "producers_Add d m = Ret (r, m') \<Longrightarrow> producers_Exists obj m' \<longleftrightarrow> ToKey obj = producer_Key d \<or> producers_Exists obj m"
  by (auto simp: producers_Exists_def producers_Add_def Let_def go_map_simps split: if_split_asm)

lemma producers_Exists_Remove:
  "producers_Remove n m = Ret (r, m') \<Longrightarrow> producers_Exists obj m' \<longleftrightarrow> producers_Exists obj m \<and> meta_name obj \<noteq> n"
  by (auto simp: producers_Exists_def producers_Remove_def go_map_simps split: if_split_asm)

interpretation producer_manager:
  object_manager producers_Add producers_Remove producers_Exists producer_meta producers_inv
proof unfold_locales
  fix m m' :: "'api ProducerManager" and d r n obj e
  assume inv: "producers_inv m"
  show "\<exists>r m'. producers_Add d m = Ret (r, m') \<and> producers_inv m'"
    using producers_inv_Add [OF inv] by (auto simp: producers_Add_def Let_def)
  show "\<exists>m'. producers_Remove n m = Ret (None, m') \<and> producers_inv m'"
    using producers_inv_Remove [OF inv] by (simp add: producers_Remove_def)
  show "m' = m" if "producers_Add d m = Ret (Some e, m')"
    using that by (simp add: producers_Add_def Let_def)
  show "producers_Exists (producer_meta d) m'" if "producers_Add d m = Ret (None, m')"
    using producers_Exists_Add [OF that] by simp
  show "producers_Exists obj m' = producers_Exists obj m"
    if "producers_Add d m = Ret (r, m')" "meta_name obj \<noteq> meta_name (producer_meta d)"
    using that producers_Exists_Add [OF that(1), of obj] by (metis ToKey_NamespacedName meta_name_producer_meta)
  show "producers_Exists obj m' = (producers_Exists obj m \<and> meta_name obj \<noteq> n)"
    if "producers_Remove n m = Ret (r, m')"
    by (rule producers_Exists_Remove [OF that])
qed

text \<open>
  The manager of producers is a set of object keys: after \<open>Add\<close> a producer exists under
  exactly the old keys and its own, generation included; after \<open>Remove\<close> under no generation
  of the name; removing what was added leaves, for every other name, what was there before.
\<close>

lemma producers_are_a_key_set:
  assumes "producers_inv m" and "producers_Add d m = Ret (r, m1)" and "producers_Remove n m1 = Ret (r', m2)"
  shows "(producers_Exists obj m1 \<longleftrightarrow> ToKey obj = producer_Key d \<or> producers_Exists obj m) \<and>
    (producers_Exists obj m2 \<longleftrightarrow> producers_Exists obj m1 \<and> meta_name obj \<noteq> n) \<and>
    (n = ok_NamespacedName (producer_Key d) \<longrightarrow>
       (producers_Exists obj m2 \<longleftrightarrow> producers_Exists obj m \<and> meta_name obj \<noteq> n)) \<and>
    producers_inv m2"
  using producers_Exists_Add [OF assms(2)] producers_Exists_Remove [OF assms(3)]
    producer_manager.remove_after_add [OF assms(1,2), of r' m2 obj] assms(3)
    producers_inv_Remove [OF producers_inv_Add [OF assms(1,2)] assms(3)]
  by auto

section \<open>Starting and stopping\<close>

definition polls :: "'api ProducerManager \<Rightarrow> 'api EventProducer \<Rightarrow> bool" where
  "polls m d \<longleftrightarrow> d \<in> set (pm_launched m) \<and> pm_shutdown m = ShutdownOpen"

text \<open>
  A manager that already has producers when it is started never gets past the first one:
  \<open>startProducers\<close> launches exactly the first producer of its map and then waits, with the
  lock held, for the shutdown channel that only its caller would close. Without producers it
  finishes, and every producer added afterwards is launched.
\<close>

lemma startProducers_blocks_on_first:
  "(\<forall>k d rest. pm_producers m = (k, d) # rest \<longrightarrow>
      startProducers m = (Blocked, m\<lparr>pm_shutdown := ShutdownOpen, pm_launched := pm_launched m @ [d]\<rparr>)) \<and>
   (pm_producers m = [] \<longrightarrow>
      (\<exists>m1 m2. startProducers m = (Finished None, m1) \<and> producers_Add d' m1 = Ret (None, m2) \<and>
         polls m2 d' \<and> (\<forall>d. polls m1 d \<longrightarrow> polls m2 d)))"
  by (auto simp: startProducers_def producer_Start_def producers_Add_def polls_def Let_def)

text \<open>
  Removing a producer forgets it but does not stop it: it no longer exists under its key and
  yet keeps polling until the manager shuts down, and so does a producer that is replaced by
  another generation. Only the shutdown stops the polling, of all producers at once.
\<close>

lemma removed_producer_keeps_polling:
  assumes "polls m d" and "producers_Remove (ok_NamespacedName (producer_Key d)) m = Ret (r, m')"
  shows "\<not> producers_Exists (producer_meta d) m' \<and> polls m' d \<and>
    (\<forall>d' r'' m''. producers_Add d' m' = Ret (r'', m'') \<longrightarrow> polls m'' d \<and> polls m'' d') \<and>
    \<not> polls (snd (producers_stop m')) d"
  using assms producers_Exists_Remove [OF assms(2), of "producer_meta d"]
  by (auto simp: producers_Remove_def polls_def producers_Add_def producer_Start_def producers_stop_def Let_def)

end
