(* ===== verification/Producer_Concurrency.thy ===== *)
theory Producer_Concurrency
  imports Producer
begin

text \<open>
  The manager of producers (\<open>pkg/producer/manager.go\<close>) and the polling of its producers
  (\<open>pkg/producer/prometheus/prometheus_source.go\<close>) as interleaved goroutines: \<open>Manager.Start\<close>, the
  calls of the reconciler, the goroutines that \<open>Add\<close> launches and those that poll.
\<close>

section \<open>The goroutines\<close>

text \<open>
  \<open>Manager.Start\<close>: before it takes the lock; in the loop of \<open>startProducers\<close> with the lock held and
  these producers to go; inside \<open>Start\<close> of one producer, still with the lock; waiting for the
  context; returned.
\<close>

datatype 'api start_pc =
    SBefore
  | SLoop "(ObjectKey, 'api EventProducer) gomap"
  | SWaiting "(ObjectKey, 'api EventProducer) gomap"
  | SCtx
  | SReturned

text \<open>The goroutine of \<open>Add\<close>: before it calls \<open>Start\<close> of its producer, inside it, ended.\<close>

datatype starter_pc = AStarting | AWaiting | AEnded

record 'api starter =
  gs_producer :: "'api EventProducer"
  gs_pc :: starter_pc

text \<open>
  The goroutine \<open>utilwait.Until(d.poll, ...)\<close>: at the test of the channel, before the request,
  with these events to publish, ended.
\<close>

datatype poller_pc = PIdle | PFetching | PPublishing "Event list" | PEnded

record 'api poller =
  pl_producer :: "'api EventProducer"
  pl_pc :: poller_pc

record ('q, 'w, 'api) pm_sys =
  py_manager :: "'api ProducerManager"
  py_start :: "'api start_pc"
  py_starters :: "'api starter list"
  py_pollers :: "'api poller list"
  py_done :: bool \<comment> \<open>the context is cancelled\<close>
  py_bus :: "'q EventBus"
  py_fresh :: nat
  py_world :: 'w
  py_answers :: "'api answers" \<comment> \<open>history: what the API has answered\<close>

definition pm_init :: "'q EventBus \<Rightarrow> 'w \<Rightarrow> ('q, 'w, 'api) pm_sys" where
  "pm_init b w = \<lparr>py_manager = NewManager, py_start = SBefore, py_starters = [], py_pollers = [], py_done = False,
     py_bus = b, py_fresh = 0, py_world = w, py_answers = []\<rparr>"

text \<open>The lock \<open>producersMux\<close>; every other critical section is a single step.\<close>

definition lock_held :: "('q, 'w, 'api) pm_sys \<Rightarrow> bool" where
  "lock_held s = (case py_start s of SLoop rest \<Rightarrow> True | SWaiting rest \<Rightarrow> True | _ \<Rightarrow> False)"

definition new_poller :: "'api EventProducer \<Rightarrow> 'api poller" where
  "new_poller d = \<lparr>pl_producer = d, pl_pc = PIdle\<rparr>"

definition set_starter :: "nat \<Rightarrow> starter_pc \<Rightarrow> ('q, 'w, 'api) pm_sys \<Rightarrow> ('q, 'w, 'api) pm_sys" where
  "set_starter i pc s = s\<lparr>py_starters := (py_starters s)[i := (py_starters s ! i)\<lparr>gs_pc := pc\<rparr>]\<rparr>"

definition set_poller :: "nat \<Rightarrow> poller_pc \<Rightarrow> ('q, 'w, 'api) pm_sys \<Rightarrow> ('q, 'w, 'api) pm_sys" where
  "set_poller i pc s = s\<lparr>py_pollers := (py_pollers s)[i := (py_pollers s ! i)\<lparr>pl_pc := pc\<rparr>]\<rparr>"

section \<open>The steps\<close>

text \<open>The first part of \<open>poll\<close>: the events to publish, the next free address and the world.\<close>

definition poll_fetch :: "('api \<Rightarrow> 'w \<Rightarrow> (goerror + Alert list) \<times> 'w) \<Rightarrow> 'api EventProducer \<Rightarrow> nat \<times> 'w \<Rightarrow> Event list \<times> nat \<times> 'w" where
  "poll_fetch Alerts d = (\<lambda>(fresh, w).
     (case GetActiveAlerts (Alerts (pc_Client (ep_config d))) w of
        (Inl err, w') \<Rightarrow> ([], fresh, w')
      | (Inr alerts, w') \<Rightarrow>
          (case ToEvents fresh alerts (pc_IncludePending (ep_config d)) of
             Inl err \<Rightarrow> ([], fresh, w')
           | Inr eventsToPublish \<Rightarrow> (eventsToPublish, fresh + length eventsToPublish, w'))))"

lemma poll_fetch_publish:
  "poll Alerts OnError wq d (b, fresh, w) =
     (case poll_fetch Alerts d (fresh, w) of (evs, fresh', w') \<Rightarrow>
        go_bind (publish_loop OnError wq (getName d) evs b) (\<lambda>b'. Ret (b', fresh', w')))"
  by (auto simp: poll_def poll_fetch_def split: prod.split sum.split)

datatype 'api pm_label =
    PAdd "'api EventProducer"
  | PRemove NamespacedName
  | PExists ObjectMeta
  | PCancel
  | PStart
  | PNext
  | PResume
  | PStop
  | PBegin nat
  | PEnd nat
  | PCheck nat
  | PFetch nat
  | PPublish nat

text \<open>The calls of the reconciler and the cancellation of the context.\<close>

fun call_step :: "'api pm_label \<Rightarrow> ('q, 'w, 'api) pm_sys \<Rightarrow> ('q, 'w, 'api) pm_sys option" where
  "call_step (PAdd d) s =
     (if lock_held s then None
      else case producers_Add d (py_manager s) of
             Panics p \<Rightarrow> None
           | Ret (err, m) \<Rightarrow>
               Some (s\<lparr>py_manager := m, py_starters := py_starters s @
                 (if pm_shutdown (py_manager s) \<noteq> NoShutdown then [\<lparr>gs_producer = d, gs_pc = AStarting\<rparr>] else [])\<rparr>))"
| "call_step (PRemove n) s =
     (if lock_held s then None
      else case producers_Remove n (py_manager s) of
             Panics p \<Rightarrow> None
           | Ret (err, m) \<Rightarrow> Some (s\<lparr>py_manager := m\<rparr>))"
| "call_step (PExists obj) s = (if lock_held s then None else Some s)"
| "call_step PCancel s = Some (s\<lparr>py_done := True\<rparr>)"
| "call_step _ s = None"

text \<open>\<open>Manager.Start\<close>.\<close>

fun start_step :: "'api pm_label \<Rightarrow> ('q, 'w, 'api) pm_sys \<Rightarrow> ('q, 'w, 'api) pm_sys option" where
  "start_step PStart s =
     (case py_start s of
        SBefore \<Rightarrow> Some (s\<lparr>py_manager := (py_manager s)\<lparr>pm_shutdown := ShutdownOpen\<rparr>, py_start := SLoop (pm_producers (py_manager s))\<rparr>)
      | _ \<Rightarrow> None)"
| "start_step PNext s =
     (case py_start s of
        SLoop [] \<Rightarrow> Some (s\<lparr>py_start := SCtx\<rparr>)
      | SLoop ((key, d) # rest) \<Rightarrow>
          (let (r, launched) = producer_Start (pm_shutdown (py_manager s)) d (pm_launched (py_manager s))
           in Some (s\<lparr>py_manager := (py_manager s)\<lparr>pm_launched := launched\<rparr>, py_pollers := py_pollers s @ [new_poller d],
                      py_start := SWaiting rest\<rparr>))
      | _ \<Rightarrow> None)"
| "start_step PResume s =
     (case py_start s of
        SWaiting rest \<Rightarrow> if pm_shutdown (py_manager s) = ShutdownClosed then Some (s\<lparr>py_start := SLoop rest\<rparr>) else None
      | _ \<Rightarrow> None)"
| "start_step PStop s =
     (if py_start s = SCtx \<and> py_done s
      then Some (s\<lparr>py_manager := snd (producers_stop (py_manager s)), py_start := SReturned\<rparr>)
      else None)"
| "start_step _ s = None"

text \<open>The goroutines of \<open>Add\<close> and those that poll.\<close>

fun starter_step :: "'api pm_label \<Rightarrow> ('q, 'w, 'api) pm_sys \<Rightarrow> ('q, 'w, 'api) pm_sys option" where
  "starter_step (PBegin i) s =
     (if i < length (py_starters s) \<and> gs_pc (py_starters s ! i) = AStarting
      then Some ((set_starter i AWaiting s)\<lparr>py_pollers := py_pollers s @ [new_poller (gs_producer (py_starters s ! i))]\<rparr>)
      else None)"
| "starter_step (PEnd i) s =
     (if i < length (py_starters s) \<and> gs_pc (py_starters s ! i) = AWaiting \<and> pm_shutdown (py_manager s) = ShutdownClosed
      then Some (set_starter i AEnded s)
      else None)"
| "starter_step _ s = None"

fun poller_step :: "('api \<Rightarrow> 'w \<Rightarrow> (goerror + Alert list) \<times> 'w) \<Rightarrow> 'q EventBus retrier \<Rightarrow> 'q workqueue_ops \<Rightarrow>
    'api pm_label \<Rightarrow> ('q, 'w, 'api) pm_sys \<Rightarrow> ('q, 'w, 'api) pm_sys option" where
  "poller_step Alerts OnError wq (PCheck i) s =
     (if i < length (py_pollers s) \<and> pl_pc (py_pollers s ! i) = PIdle
      then Some (set_poller i (if pm_shutdown (py_manager s) = ShutdownClosed then PEnded else PFetching) s)
      else None)"
| "poller_step Alerts OnError wq (PFetch i) s =
     (if i < length (py_pollers s) \<and> pl_pc (py_pollers s ! i) = PFetching
      then (let (evs, fresh, w) = poll_fetch Alerts (pl_producer (py_pollers s ! i)) (py_fresh s, py_world s)
            in Some ((set_poller i (PPublishing evs) s)\<lparr>py_fresh := fresh, py_world := w,
                 py_answers := py_answers s @ answer_of Alerts (pl_producer (py_pollers s ! i)) (py_world s)\<rparr>))
      else None)"
| "poller_step Alerts OnError wq (PPublish i) s =
     (if i < length (py_pollers s)
      then (case pl_pc (py_pollers s ! i) of
              PPublishing [] \<Rightarrow> Some (set_poller i PIdle s)
            | PPublishing (ev # evs) \<Rightarrow>
                (let name = getName (pl_producer (py_pollers s ! i))
                 in case producer_Publish OnError wq (CreateFullyQualifiedTopicName (ev_Name ev) name) ev (py_bus s) of
                      Panics p \<Rightarrow> None
                    | Ret (err, b) \<Rightarrow> Some ((set_poller i (PPublishing evs) s)\<lparr>py_bus := b\<rparr>))
            | _ \<Rightarrow> None)
      else None)"
| "poller_step Alerts OnError wq _ s = None"

definition pm_do :: "('api \<Rightarrow> 'w \<Rightarrow> (goerror + Alert list) \<times> 'w) \<Rightarrow> 'q EventBus retrier \<Rightarrow> 'q workqueue_ops \<Rightarrow>
    'api pm_label \<Rightarrow> ('q, 'w, 'api) pm_sys \<Rightarrow> ('q, 'w, 'api) pm_sys option" where
  "pm_do Alerts OnError wq l s =
     (case l of
        PAdd d \<Rightarrow> call_step l s | PRemove n \<Rightarrow> call_step l s | PExists obj \<Rightarrow> call_step l s | PCancel \<Rightarrow> call_step l s
      | PStart \<Rightarrow> start_step l s | PNext \<Rightarrow> start_step l s | PResume \<Rightarrow> start_step l s | PStop \<Rightarrow> start_step l s
      | PBegin i \<Rightarrow> starter_step l s | PEnd i \<Rightarrow> starter_step l s
      | _ \<Rightarrow> poller_step Alerts OnError wq l s)"

fun pm_run :: "('api \<Rightarrow> 'w \<Rightarrow> (goerror + Alert list) \<times> 'w) \<Rightarrow> 'q EventBus retrier \<Rightarrow> 'q workqueue_ops \<Rightarrow>
    'api pm_label list \<Rightarrow> ('q, 'w, 'api) pm_sys \<Rightarrow> ('q, 'w, 'api) pm_sys option" where
  "pm_run Alerts OnError wq [] s = Some s"
| "pm_run Alerts OnError wq (l # ls) s =
     (case pm_do Alerts OnError wq l s of None \<Rightarrow> None | Some s' \<Rightarrow> pm_run Alerts OnError wq ls s')"

inductive pm_reachable :: "('api \<Rightarrow> 'w \<Rightarrow> (goerror + Alert list) \<times> 'w) \<Rightarrow> 'q EventBus retrier \<Rightarrow> 'q workqueue_ops \<Rightarrow>
    ('q, 'w, 'api) pm_sys \<Rightarrow> bool" for Alerts OnError wq where
  init: "pm_reachable Alerts OnError wq (pm_init b w)"
| step: "pm_reachable Alerts OnError wq s \<Longrightarrow> pm_do Alerts OnError wq l s = Some s' \<Longrightarrow> pm_reachable Alerts OnError wq s'"

section \<open>What holds in every reachable state\<close>

text \<open>The producers whose goroutine of \<open>Add\<close> has not yet called \<open>Start\<close>.\<close>

definition starting :: "('q, 'w, 'api) pm_sys \<Rightarrow> 'api EventProducer list" where
  "starting s = map gs_producer (filter (\<lambda>g. gs_pc g = AStarting) (py_starters s))"

definition polling :: "('q, 'w, 'api) pm_sys \<Rightarrow> 'api EventProducer list" where
  "polling s = map pl_producer (py_pollers s)"

fun shutdown_at :: "'api start_pc \<Rightarrow> shutdown" where
  "shutdown_at SBefore = NoShutdown"
| "shutdown_at SReturned = ShutdownClosed"
| "shutdown_at _ = ShutdownOpen"

fun to_publish :: "poller_pc \<Rightarrow> Event list" where
  "to_publish (PPublishing evs) = evs"
| "to_publish _ = []"

text \<open>What a goroutine publishes was announced by an answer that its own producer got.\<close>

definition announces_alerts :: "'api answers \<Rightarrow> 'api poller \<Rightarrow> bool" where
  "announces_alerts answers p \<longleftrightarrow> (\<forall>ev \<in> set (to_publish (pl_pc p)). announced answers (pl_producer p) ev)"

lemma announces_mono: "announces_alerts answers p \<Longrightarrow> announces_alerts (answers @ extra) p"
  unfolding announces_alerts_def using announced_mono [of answers _ _ "answers @ extra"] by auto

definition pm_inv :: "('q, 'w, 'api) pm_sys \<Rightarrow> bool" where
  "pm_inv s \<longleftrightarrow> producers_inv (py_manager s) \<and> pm_shutdown (py_manager s) = shutdown_at (py_start s) \<and>
     mset (pm_launched (py_manager s)) = mset (starting s) + mset (polling s) \<and>
     (pm_shutdown (py_manager s) = NoShutdown \<longrightarrow> py_starters s = []) \<and>
     (pm_shutdown (py_manager s) \<noteq> ShutdownClosed \<longrightarrow>
        (\<forall>g \<in> set (py_starters s). gs_pc g \<noteq> AEnded) \<and> (\<forall>p \<in> set (py_pollers s). pl_pc p \<noteq> PEnded)) \<and>
     (\<forall>p \<in> set (py_pollers s). announces_alerts (py_answers s) p)"

lemma new_poller_simps [simp]:
  "pl_producer (new_poller d) = d" "pl_pc (new_poller d) = PIdle" "announces_alerts answers (new_poller d)"
  by (simp_all add: announces_alerts_def new_poller_def)

lemma in_updateE: "x \<in> set (xs[i := y]) \<Longrightarrow> (x = y \<Longrightarrow> P) \<Longrightarrow> (x \<in> set xs \<Longrightarrow> P) \<Longrightarrow> P"
  using set_update_subset_insert [of xs i y] by blast

lemma polling_set_poller [simp]: "i < length (py_pollers s) \<Longrightarrow> polling (set_poller i pc s) = polling s"
  by (simp add: polling_def set_poller_def map_update list_update_same_conv)

lemma set_poller_simps [simp]:
  "py_manager (set_poller i pc s) = py_manager s" "py_start (set_poller i pc s) = py_start s"
  "py_starters (set_poller i pc s) = py_starters s" "starting (set_poller i pc s) = starting s"
  "length (py_pollers (set_poller i pc s)) = length (py_pollers s)" "py_bus (set_poller i pc s) = py_bus s"
  "py_answers (set_poller i pc s) = py_answers s"
  by (simp_all add: set_poller_def starting_def)

lemma set_starter_simps [simp]:
  "py_manager (set_starter i pc s) = py_manager s" "py_start (set_starter i pc s) = py_start s"
  "py_pollers (set_starter i pc s) = py_pollers s" "polling (set_starter i pc s) = polling s"
  "length (py_starters (set_starter i pc s)) = length (py_starters s)" "py_starters (set_starter i pc s) = [] \<longleftrightarrow> py_starters s = []" "py_bus (set_starter i pc s) = py_bus s"
  "py_answers (set_starter i pc s) = py_answers s"
  by (simp_all add: set_starter_def polling_def)

lemma starting_AEnded: "i < length (py_starters s) \<Longrightarrow> gs_pc (py_starters s ! i) = AWaiting \<Longrightarrow> starting (set_starter i AEnded s) = starting s"
  unfolding starting_def set_starter_def
  by (subst (2) id_take_nth_drop [of i "py_starters s"]) (simp_all add: upd_conv_take_nth_drop)

lemma starting_AWaiting:
  "i < length (py_starters s) \<Longrightarrow> gs_pc (py_starters s ! i) = AStarting \<Longrightarrow>
   mset (starting s) = add_mset (gs_producer (py_starters s ! i)) (mset (starting (set_starter i AWaiting s)))"
  unfolding starting_def set_starter_def
  by (subst (1) id_take_nth_drop [of i "py_starters s"]) (simp_all add: upd_conv_take_nth_drop)

lemma poll_fetch_announced:
  assumes "poll_fetch Alerts d (fresh, w) = (evs, fresh', w')" and "ev \<in> set evs"
  shows "announced (answers @ answer_of Alerts d w) d ev"
proof -
  obtain alerts where "fst (Alerts (pc_Client (ep_config d)) w) = Inr alerts" and "evs = polled fresh (pc_IncludePending (ep_config d)) alerts"
    using assms by (auto simp: poll_fetch_def GetActiveAlerts_def ToEvents_def Let_def findActiveAlert_filter
        to_events_loop_nth polled_def split: prod.split_asm sum.split_asm if_split_asm)
  then show ?thesis
    using assms(2) by (intro polled_announced [of d alerts]) (auto simp: answer_of_def)
qed

lemma pm_inv_call: "pm_inv s \<Longrightarrow> call_step l s = Some s' \<Longrightarrow> pm_inv s'"
proof (cases l)
  case (PAdd d)
  assume inv: "pm_inv s" and step: "call_step l s = Some s'"
  obtain err m where add: "producers_Add d (py_manager s) = Ret (err, m)"
    by (simp add: producers_Add_def Let_def)
  then have "producers_inv m" "pm_shutdown m = pm_shutdown (py_manager s)"
    "pm_launched m = pm_launched (py_manager s) @ (if pm_shutdown (py_manager s) \<noteq> NoShutdown then [d] else [])"
    using inv producers_inv_Add [OF _ add] by (auto simp: pm_inv_def producers_Add_def producer_Start_def Let_def split: if_split_asm)
  then show ?thesis
    using inv step PAdd add by (auto simp: pm_inv_def starting_def polling_def split: if_split_asm)
next
  case (PRemove n)
  assume inv: "pm_inv s" and step: "call_step l s = Some s'"
  obtain err m where remove: "producers_Remove n (py_manager s) = Ret (err, m)"
    by (simp add: producers_Remove_def)
  then have "producers_inv m" "pm_shutdown m = pm_shutdown (py_manager s)" "pm_launched m = pm_launched (py_manager s)"
    using inv producers_inv_Remove [OF _ remove] by (auto simp: pm_inv_def producers_Remove_def)
  then show ?thesis
    using inv step PRemove remove by (auto simp: pm_inv_def starting_def polling_def split: if_split_asm)
qed (auto simp: pm_inv_def starting_def polling_def split: if_split_asm)

lemma pm_inv_start: "pm_inv s \<Longrightarrow> start_step l s = Some s' \<Longrightarrow> pm_inv s'"
  by (cases l) (auto simp: pm_inv_def starting_def polling_def producers_inv_def producer_Start_def producers_stop_def
      split: start_pc.split_asm list.split_asm if_split_asm prod.split_asm)

lemma pm_inv_starter: "pm_inv s \<Longrightarrow> starter_step l s = Some s' \<Longrightarrow> pm_inv s'"
proof (cases l)
  case (PBegin i)
  assume inv: "pm_inv s" and step: "starter_step l s = Some s'"
  let ?s = "set_starter i AWaiting s" and ?d = "gs_producer (py_starters s ! i)"
  have i: "i < length (py_starters s)" "gs_pc (py_starters s ! i) = AStarting" and s': "s' = ?s\<lparr>py_pollers := py_pollers s @ [new_poller ?d]\<rparr>"
    using step PBegin by (auto split: if_split_asm)
  have "starting s' = starting ?s" "polling s' = polling s @ [?d]"
    by (simp_all add: s' starting_def polling_def)
  moreover have "gs_pc g \<noteq> AEnded" if "g \<in> set (py_starters ?s)" "pm_shutdown (py_manager s) \<noteq> ShutdownClosed" for g
    using inv that by (auto simp: pm_inv_def set_starter_def elim!: in_updateE)
  ultimately show ?thesis
    using inv starting_AWaiting [OF i] by (auto simp: pm_inv_def s')
next
  case (PEnd i)
  assume inv: "pm_inv s" and step: "starter_step l s = Some s'"
  then show ?thesis
    using PEnd by (auto simp: pm_inv_def starting_AEnded split: if_split_asm)
qed simp_all

text \<open>A polling goroutine moves on to another control point.\<close>

lemma pm_inv_poller_pc:
  assumes "pm_inv s" and "i < length (py_pollers s)" and "pc = PEnded \<longrightarrow> pm_shutdown (py_manager s) = ShutdownClosed"
    and "announces_alerts (py_answers s) ((py_pollers s ! i)\<lparr>pl_pc := pc\<rparr>)"
  shows "pm_inv (set_poller i pc s)"
proof -
  have "announces_alerts (py_answers s) p" if "p \<in> set (py_pollers (set_poller i pc s))" for p
    using that assms(1,4) by (auto simp: pm_inv_def set_poller_def elim!: in_updateE)
  moreover have "pl_pc p \<noteq> PEnded" if "p \<in> set (py_pollers (set_poller i pc s))" "pm_shutdown (py_manager s) \<noteq> ShutdownClosed" for p
    using that assms(1,3) by (auto simp: pm_inv_def set_poller_def elim!: in_updateE)
  ultimately show ?thesis
    using assms(1,2) by (simp add: pm_inv_def)
qed

lemma pm_inv_rest: "pm_inv (s\<lparr>py_fresh := f, py_world := w\<rparr>) = pm_inv s" "pm_inv (s\<lparr>py_bus := b\<rparr>) = pm_inv s"
  by (simp_all add: pm_inv_def starting_def polling_def)

lemma pm_inv_answers: "pm_inv s \<Longrightarrow> pm_inv (s\<lparr>py_answers := py_answers s @ extra\<rparr>)"
  by (auto simp: pm_inv_def starting_def polling_def announces_mono)

lemma announces_next:
  assumes "pm_inv s" and "i < length (py_pollers s)" and "pl_pc (py_pollers s ! i) = PPublishing (ev # evs)"
  shows "announces_alerts (py_answers s) ((py_pollers s ! i)\<lparr>pl_pc := PPublishing evs\<rparr>)"
proof -
  have "announces_alerts (py_answers s) (py_pollers s ! i)"
    using assms(1,2) by (simp add: pm_inv_def)
  then show ?thesis
    using assms(3) by (simp add: announces_alerts_def)
qed

lemma announces_nothing: "to_publish pc = [] \<Longrightarrow> announces_alerts answers (p\<lparr>pl_pc := pc\<rparr>)"
  by (simp add: announces_alerts_def)

lemma announces_fetched:
  "poll_fetch Alerts (pl_producer p) (fresh, w) = (evs, fresh', w') \<Longrightarrow>
   announces_alerts (answers @ answer_of Alerts (pl_producer p) w) (p\<lparr>pl_pc := PPublishing evs\<rparr>)"
  using poll_fetch_announced by (fastforce simp: announces_alerts_def)

lemma pm_inv_fetch:
  assumes "pm_inv s" and "i < length (py_pollers s)" and "poll_fetch Alerts (pl_producer (py_pollers s ! i)) (py_fresh s, py_world s) = (evs, f, w)"
  shows "pm_inv ((set_poller i (PPublishing evs) s)\<lparr>py_fresh := f, py_world := w,
    py_answers := py_answers s @ answer_of Alerts (pl_producer (py_pollers s ! i)) (py_world s)\<rparr>)"
proof -
  let ?s = "s\<lparr>py_answers := py_answers s @ answer_of Alerts (pl_producer (py_pollers s ! i)) (py_world s)\<rparr>"
  have "pm_inv (set_poller i (PPublishing evs) ?s)"
    using assms(2) announces_fetched [OF assms(3)] by (intro pm_inv_poller_pc [OF pm_inv_answers [OF assms(1)]]) simp_all
  then have "pm_inv ((set_poller i (PPublishing evs) ?s)\<lparr>py_fresh := f, py_world := w\<rparr>)"
    by (simp add: pm_inv_rest)
  then show ?thesis
    by (cases s) (simp add: set_poller_def)
qed

lemma pm_inv_poller: "pm_inv s \<Longrightarrow> poller_step Alerts OnError wq l s = Some s' \<Longrightarrow> pm_inv s'"
  by (cases l)
    (auto simp: pm_inv_rest Let_def pm_inv_fetch announces_nothing announces_fetched announces_next intro!: pm_inv_poller_pc
      split: if_split_asm prod.split_asm poller_pc.split_asm list.split_asm go.split_asm)

lemma pm_inv_init: "pm_inv (pm_init b w)"
  by (simp add: pm_inv_def pm_init_def producers_inv_New starting_def polling_def) (simp add: NewManager_def)

lemma pm_inv_do: "pm_inv s \<Longrightarrow> pm_do Alerts OnError wq l s = Some s' \<Longrightarrow> pm_inv s'"
  by (cases l) (auto simp: pm_do_def simp del: call_step.simps start_step.simps starter_step.simps poller_step.simps
      intro: pm_inv_call pm_inv_start pm_inv_starter pm_inv_poller)

lemma pm_inv_reachable: "pm_reachable Alerts OnError wq s \<Longrightarrow> pm_inv s"
  by (induction rule: pm_reachable.induct) (auto intro: pm_inv_init pm_inv_do)

section \<open>A manager that starts with producers\<close>

text \<open>The calls that need the lock.\<close>

fun needs_lock :: "'api pm_label \<Rightarrow> bool" where
  "needs_lock (PAdd d) = True"
| "needs_lock (PRemove n) = True"
| "needs_lock (PExists obj) = True"
| "needs_lock _ = False"

text \<open>\<open>startProducers\<close> is at, or inside, the start of the first of the producers \<open>(key, d) # rest\<close>.\<close>

definition stuck :: "ObjectKey \<Rightarrow> 'api EventProducer \<Rightarrow> (ObjectKey, 'api EventProducer) gomap \<Rightarrow> ('q, 'w, 'api) pm_sys \<Rightarrow> bool" where
  "stuck key d rest s \<longleftrightarrow> pm_shutdown (py_manager s) = ShutdownOpen \<and> pm_producers (py_manager s) = (key, d) # rest \<and>
     py_starters s = [] \<and>
     (py_start s = SLoop ((key, d) # rest) \<and> polling s = [] \<or> py_start s = SWaiting rest \<and> polling s = [d])"

lemma stuck_holds_lock: "stuck key d rest s \<Longrightarrow> lock_held s"
  by (auto simp: stuck_def lock_held_def)

lemma stuck_step:
  assumes "stuck key d rest s" and "pm_do Alerts OnError wq l s = Some s'"
  shows "stuck key d rest s' \<and> \<not> needs_lock l"
proof (cases l)
  case (PCheck i)
  with assms show ?thesis
    by (auto simp: pm_do_def stuck_def set_poller_def polling_def map_update list_update_same_conv split: if_split_asm)
next
  case (PFetch i)
  with assms show ?thesis
    by (auto simp: pm_do_def stuck_def set_poller_def polling_def map_update list_update_same_conv split: if_split_asm prod.split_asm)
next
  case (PPublish i)
  with assms show ?thesis
    by (auto simp: pm_do_def stuck_def set_poller_def polling_def map_update list_update_same_conv Let_def
        split: if_split_asm poller_pc.split_asm list.split_asm go.split_asm prod.split_asm)
qed (use assms stuck_holds_lock [OF assms(1)] in
    \<open>auto simp: pm_do_def stuck_def producer_Start_def polling_def split: if_split_asm\<close>)

lemma stuck_run:
  "stuck key d rest s \<Longrightarrow> pm_run Alerts OnError wq ls s = Some s' \<Longrightarrow> stuck key d rest s' \<and> (\<forall>l \<in> set ls. \<not> needs_lock l)"
  by (induction ls arbitrary: s) (auto split: option.split_asm dest: stuck_step)

lemma started_stuck:
  assumes "pm_inv s" and "pm_producers (py_manager s) = (key, d) # rest" and "pm_do Alerts OnError wq PStart s = Some s1"
  shows "stuck key d rest s1"
proof -
  have "py_start s = SBefore" and s1: "s1 = s\<lparr>py_manager := (py_manager s)\<lparr>pm_shutdown := ShutdownOpen\<rparr>, py_start := SLoop (pm_producers (py_manager s))\<rparr>"
    using assms(3) by (auto simp: pm_do_def split: start_pc.split_asm)
  then have "pm_shutdown (py_manager s) = NoShutdown" "pm_launched (py_manager s) = []"
    using assms(1) by (auto simp: pm_inv_def producers_inv_def)
  then have "py_starters s = []" "polling s = []"
    using assms(1) by (auto simp: pm_inv_def)
  then show ?thesis
    using assms(2) by (simp add: stuck_def s1 polling_def)
qed

text \<open>C13:
  A manager of producers that has a producer when it is started deadlocks: \<open>Start\<close> takes the
  lock, starts the first producer of its map and waits for it with the lock held. Whatever
  happens afterwards, in any order, the lock is never released, no call of \<open>Add\<close>, \<open>Remove\<close> or
  \<open>Exists\<close> ever gets through, so no resource is reconciled any more, at most the first
  producer polls, and \<open>Start\<close> neither returns nor closes the shutdown channel, not even when
  the context is cancelled.
\<close>

theorem Start_deadlocks_with_producers:
  assumes "pm_reachable Alerts OnError wq s" and "pm_producers (py_manager s) = (key, d) # rest"
    and "pm_do Alerts OnError wq PStart s = Some s1" and "pm_run Alerts OnError wq ls s1 = Some s2"
  shows "lock_held s2 \<and> (\<forall>l \<in> set ls. \<not> needs_lock l) \<and> pm_producers (py_manager s2) = (key, d) # rest \<and>
    polling s2 \<in> {[], [d]} \<and> pm_shutdown (py_manager s2) = ShutdownOpen \<and> py_start s2 \<noteq> SReturned"
  using stuck_run [OF started_stuck [OF pm_inv_reachable [OF assms(1)] assms(2,3)] assms(4)]
  by (auto simp: stuck_holds_lock) (auto simp: stuck_def)

text \<open>The reconciler adds a source before the manager starts; then the context is cancelled.\<close>

definition early_sys :: "(fifo, unit, unit) pm_sys" where
  "early_sys = (pm_init (NewEventBus 1 ([], False)) ())
     \<lparr>py_manager := NewManager\<lparr>pm_producers := [(producer_Key demo_producer, demo_producer)]\<rparr>\<rparr>"

theorem Start_deadlocks_with_producers_witness:
  "\<exists>s1 s2. pm_do demo_api (bounded_attempts 3) fifo_ops PStart early_sys = Some s1 \<and>
     pm_run demo_api (bounded_attempts 3) fifo_ops [PNext, PCheck 0, PCancel] s1 = Some s2 \<and>
     py_done s2 \<and> lock_held s2 \<and> py_start s2 \<noteq> SReturned"
proof -
  have add: "pm_do demo_api (bounded_attempts 3) fifo_ops (PAdd demo_producer) (pm_init (NewEventBus 1 ([], False)) ()) = Some early_sys"
    by (simp add: pm_do_def pm_init_def lock_held_def producers_Add_def early_sys_def NewManager_def Let_def)
  obtain s1 where s1: "pm_do demo_api (bounded_attempts 3) fifo_ops PStart early_sys = Some s1"
    by (simp add: pm_do_def early_sys_def pm_init_def)
  obtain s2 where s2: "pm_run demo_api (bounded_attempts 3) fifo_ops [PNext, PCheck 0, PCancel] s1 = Some s2" "py_done s2"
    using s1 by (auto simp: pm_do_def early_sys_def pm_init_def NewManager_def producer_Start_def set_poller_def)
  show ?thesis
    using Start_deadlocks_with_producers [OF pm_reachable.step [OF pm_reachable.init add] _ s1 s2(1)] s1 s2
    by (auto simp: early_sys_def)
qed

section \<open>Shutdown\<close>

definition internal :: "'api pm_label \<Rightarrow> bool" where
  "internal l \<longleftrightarrow> \<not> needs_lock l \<and> l \<noteq> PCancel"

text \<open>Every goroutine has ended.\<close>

definition quiet :: "('q, 'w, 'api) pm_sys \<Rightarrow> bool" where
  "quiet s \<longleftrightarrow> (\<forall>g \<in> set (py_starters s). gs_pc g = AEnded) \<and> (\<forall>p \<in> set (py_pollers s). pl_pc p = PEnded)"

definition stopping_step :: "('api \<Rightarrow> 'w \<Rightarrow> (goerror + Alert list) \<times> 'w) \<Rightarrow> 'q EventBus retrier \<Rightarrow> 'q workqueue_ops \<Rightarrow>
    (('q, 'w, 'api) pm_sys \<times> ('q, 'w, 'api) pm_sys) set" where
  "stopping_step Alerts OnError wq = {(s', s). pm_shutdown (py_manager s) = ShutdownClosed \<and> py_start s = SReturned \<and>
     (\<exists>l. internal l \<and> pm_do Alerts OnError wq l s = Some s')}"

text \<open>How many steps the goroutines have to go, but for those that publish the events they hold.\<close>

fun starter_steps :: "starter_pc \<Rightarrow> nat" where
  "starter_steps AStarting = 3"
| "starter_steps AWaiting = 1"
| "starter_steps AEnded = 0"

fun poller_steps :: "poller_pc \<Rightarrow> nat" where
  "poller_steps PFetching = 3"
| "poller_steps (PPublishing evs) = 2"
| "poller_steps PIdle = 1"
| "poller_steps PEnded = 0"

definition steps_left :: "('q, 'w, 'api) pm_sys \<Rightarrow> nat" where
  "steps_left s = sum_list (map (starter_steps \<circ> gs_pc) (py_starters s)) + sum_list (map (poller_steps \<circ> pl_pc) (py_pollers s))"

definition events_left :: "('q, 'w, 'api) pm_sys \<Rightarrow> nat" where
  "events_left s = sum_list (map (length \<circ> to_publish \<circ> pl_pc) (py_pollers s))"

lemma steps_left_set_poller:
  "i < length (py_pollers s) \<Longrightarrow>
   steps_left (set_poller i pc s) + poller_steps (pl_pc (py_pollers s ! i)) = steps_left s + poller_steps pc"
  using elem_le_sum_list [of i "map (poller_steps \<circ> pl_pc) (py_pollers s)"]
  by (simp add: steps_left_def set_poller_def map_update sum_list_update)

lemma steps_left_set_starter:
  "i < length (py_starters s) \<Longrightarrow>
   steps_left (set_starter i pc s) + starter_steps (gs_pc (py_starters s ! i)) = steps_left s + starter_steps pc"
  using elem_le_sum_list [of i "map (starter_steps \<circ> gs_pc) (py_starters s)"]
  by (simp add: steps_left_def set_starter_def map_update sum_list_update)

lemma events_left_set_poller:
  "i < length (py_pollers s) \<Longrightarrow>
   events_left (set_poller i pc s) + length (to_publish (pl_pc (py_pollers s ! i))) = events_left s + length (to_publish pc)"
  using elem_le_sum_list [of i "map (length \<circ> to_publish \<circ> pl_pc) (py_pollers s)"]
  by (simp add: events_left_def set_poller_def map_update sum_list_update)

lemma poller_less:
  "i < length (py_pollers s) \<Longrightarrow> poller_steps pc < poller_steps (pl_pc (py_pollers s ! i)) \<Longrightarrow>
   steps_left (set_poller i pc s) < steps_left s"
  using steps_left_set_poller [of i s pc] by simp

lemma poller_same:
  "i < length (py_pollers s) \<Longrightarrow> poller_steps pc = poller_steps (pl_pc (py_pollers s ! i)) \<Longrightarrow>
   length (to_publish pc) < length (to_publish (pl_pc (py_pollers s ! i))) \<Longrightarrow>
   steps_left (set_poller i pc s) = steps_left s \<and> events_left (set_poller i pc s) < events_left s"
  using steps_left_set_poller [of i s pc] events_left_set_poller [of i s pc] by simp

lemma steps_left_rest [simp]:
  "steps_left (s\<lparr>py_fresh := f, py_world := w, py_answers := a\<rparr>) = steps_left s" "steps_left (s\<lparr>py_bus := b\<rparr>) = steps_left s"
  "events_left (s\<lparr>py_bus := b\<rparr>) = events_left s"
  by (simp_all add: steps_left_def events_left_def)

lemma stopping_step_decreases:
  assumes "(s', s) \<in> stopping_step Alerts OnError wq"
  shows "(s', s) \<in> measures [steps_left, events_left]"
proof -
  obtain l where closed: "pm_shutdown (py_manager s) = ShutdownClosed" "py_start s = SReturned"
    and l: "internal l" "pm_do Alerts OnError wq l s = Some s'"
    using assms by (auto simp: stopping_step_def)
  show ?thesis
  proof (cases l)
    case (PBegin i)
    then have i: "i < length (py_starters s)" "gs_pc (py_starters s ! i) = AStarting"
      and s': "s' = (set_starter i AWaiting s)\<lparr>py_pollers := py_pollers s @ [new_poller (gs_producer (py_starters s ! i))]\<rparr>"
      using l by (auto simp: pm_do_def split: if_split_asm)
    have "steps_left s' = Suc (steps_left (set_starter i AWaiting s))"
      by (simp add: s' steps_left_def)
    then show ?thesis
      using steps_left_set_starter [OF i(1), of AWaiting] i(2) by simp
  next
    case (PEnd i)
    then show ?thesis
      using l steps_left_set_starter [of i s AEnded] by (auto simp: pm_do_def split: if_split_asm)
  next
    case (PCheck i)
    then show ?thesis
      using l closed by (auto simp: pm_do_def poller_less split: if_split_asm)
  next
    case (PFetch i)
    then show ?thesis
      using l by (auto simp: pm_do_def poller_less split: if_split_asm prod.split_asm)
  next
    case (PPublish i)
    then show ?thesis
      using l by (auto simp: pm_do_def poller_less poller_same Let_def
          split: if_split_asm poller_pc.split_asm list.split_asm go.split_asm prod.split_asm)
  qed (use l closed in \<open>auto simp: pm_do_def internal_def\<close>)
qed

lemma wf_stopping_step: "wf (stopping_step Alerts OnError wq)"
  by (rule wf_subset [OF wf_measures]) (rule subrelI, rule stopping_step_decreases)

text \<open>A goroutine that has not ended can take a step.\<close>

lemma stopping_progress:
  assumes "retry_contract n OnError" and "pm_shutdown (py_manager s) = ShutdownClosed" and "\<not> quiet s"
  shows "\<exists>l s'. internal l \<and> pm_do Alerts OnError wq l s = Some s'"
proof (cases "\<exists>i < length (py_starters s). gs_pc (py_starters s ! i) \<noteq> AEnded")
  case True
  then obtain i where i: "i < length (py_starters s)" "gs_pc (py_starters s ! i) \<noteq> AEnded"
    by blast
  have "\<exists>l \<in> {PBegin i, PEnd i}. \<exists>s'. pm_do Alerts OnError wq l s = Some s'"
    using i assms(2) by (cases "gs_pc (py_starters s ! i)") (auto simp: pm_do_def)
  then show ?thesis
    by (force simp: internal_def)
next
  case False
  then obtain i where i: "i < length (py_pollers s)" "pl_pc (py_pollers s ! i) \<noteq> PEnded"
    using assms(3) by (auto simp: quiet_def in_set_conv_nth)
  have "\<exists>l \<in> {PCheck i, PFetch i, PPublish i}. \<exists>s'. pm_do Alerts OnError wq l s = Some s'"
    using i by (cases "pl_pc (py_pollers s ! i)")
      (auto simp: pm_do_def producer_Publish_Ret [OF assms(1)] Let_def split: prod.split list.split)
  then show ?thesis
    by (force simp: internal_def)
qed

lemma quiet_stops:
  assumes "quiet s" and "py_start s = SReturned" and "internal l"
  shows "pm_do Alerts OnError wq l s = None"
  using assms by (cases l) (auto simp: pm_do_def internal_def quiet_def)

lemma internal_closed:
  assumes "pm_do Alerts OnError wq l s = Some s'" and "internal l" and "py_start s = SReturned"
    and "pm_shutdown (py_manager s) = ShutdownClosed"
  shows "py_start s' = SReturned \<and> pm_shutdown (py_manager s') = ShutdownClosed"
  using assms by (cases l)
    (auto simp: pm_do_def internal_def Let_def
      split: if_split_asm prod.split_asm poller_pc.split_asm list.split_asm go.split_asm)

lemma internal_run_closed:
  "pm_run Alerts OnError wq ls s = Some s' \<Longrightarrow> list_all internal ls \<Longrightarrow> py_start s = SReturned \<Longrightarrow>
   pm_shutdown (py_manager s) = ShutdownClosed \<Longrightarrow> py_start s' = SReturned \<and> pm_shutdown (py_manager s') = ShutdownClosed"
  by (induction ls arbitrary: s) (auto split: option.split_asm dest: internal_closed)

lemma run_to_quiet:
  assumes "retry_contract n OnError" and "py_start s = SReturned" and "pm_shutdown (py_manager s) = ShutdownClosed"
  shows "\<exists>ls s'. list_all internal ls \<and> pm_run Alerts OnError wq ls s = Some s' \<and> quiet s'"
  using assms(2,3)
proof (induction s rule: wf_induct_rule [OF wf_stopping_step [of Alerts OnError wq]])
  case (1 s)
  show ?case
  proof (cases "quiet s")
    case True
    then show ?thesis
      by (intro exI [of _ "[]"]) simp
  next
    case False
    then obtain l s' where l: "internal l" "pm_do Alerts OnError wq l s = Some s'"
      using stopping_progress [OF assms(1) 1(3)] by blast
    then have "(s', s) \<in> stopping_step Alerts OnError wq"
      using 1(2,3) by (auto simp: stopping_step_def)
    then obtain ls t where "list_all internal ls" "pm_run Alerts OnError wq ls s' = Some t" "quiet t"
      using 1(1) internal_closed [OF l(2,1) 1(2,3)] by blast
    then show ?thesis
      using l by (intro exI [of _ "l # ls"]) simp
  qed
qed

text \<open>C14:
  The shutdown ends the polling: when the manager has got past the start of its producers and
  the context is cancelled, \<open>Start\<close> closes the channel and returns, and from then on, unless
  the reconciler adds more, the goroutines cannot run forever, in whatever order they are
  scheduled, and they cannot get stuck: a state in which none of them can take a step is one
  in which all of them, those of \<open>Add\<close> and those that poll, have ended, and such a state is
  reached.
\<close>

theorem shutdown_ends_polling:
  assumes "retry_contract n OnError" and "pm_reachable Alerts OnError wq s" and "py_start s = SCtx"
  shows "\<exists>s0. pm_run Alerts OnError wq [PCancel, PStop] s = Some s0 \<and> py_start s0 = SReturned \<and>
    wf (stopping_step Alerts OnError wq) \<and>
    (\<forall>ls s'. list_all internal ls \<and> pm_run Alerts OnError wq ls s0 = Some s' \<longrightarrow>
       (quiet s' \<longleftrightarrow> (\<forall>l. internal l \<longrightarrow> pm_do Alerts OnError wq l s' = None))) \<and>
    (\<exists>ls s'. list_all internal ls \<and> pm_run Alerts OnError wq ls s0 = Some s' \<and> quiet s')"
proof -
  let ?s0 = "s\<lparr>py_done := True, py_manager := snd (producers_stop (py_manager s)), py_start := SReturned\<rparr>"
  have run: "pm_run Alerts OnError wq [PCancel, PStop] s = Some ?s0"
    using assms(3) by (simp add: pm_do_def)
  have closed: "pm_shutdown (py_manager ?s0) = ShutdownClosed"
    by (simp add: producers_stop_def)
  have "quiet s' \<longleftrightarrow> (\<forall>l. internal l \<longrightarrow> pm_do Alerts OnError wq l s' = None)"
    if "list_all internal ls" "pm_run Alerts OnError wq ls ?s0 = Some s'" for ls s'
    using internal_run_closed [OF that(2,1) _ closed] stopping_progress [OF assms(1), of s' Alerts wq] quiet_stops [of s' _ Alerts OnError wq]
    by fastforce
  moreover have "\<exists>ls s'. list_all internal ls \<and> pm_run Alerts OnError wq ls ?s0 = Some s' \<and> quiet s'"
    by (rule run_to_quiet [OF assms(1) _ closed]) simp
  ultimately show ?thesis
    using run by (intro exI [of _ ?s0] conjI wf_stopping_step allI impI) auto
qed

text \<open>A manager that starts without producers and gets one afterwards.\<close>

definition started_sys :: "(fifo, unit, unit) pm_sys" where
  "started_sys = (pm_init (NewEventBus 1 ([], False)) ())\<lparr>py_manager := NewManager\<lparr>pm_shutdown := ShutdownOpen\<rparr>, py_start := SCtx\<rparr>"

definition polling_sys :: "(fifo, unit, unit) pm_sys" where
  "polling_sys = started_sys
     \<lparr>py_manager := \<lparr>pm_client = None, pm_shutdown = ShutdownOpen, pm_producers = [(producer_Key demo_producer, demo_producer)], pm_launched = [demo_producer]\<rparr>,
      py_starters := [\<lparr>gs_producer = demo_producer, gs_pc = AWaiting\<rparr>],
      py_pollers := [\<lparr>pl_producer = demo_producer, pl_pc = PFetching\<rparr>]\<rparr>"

lemma pm_run_reachable:
  "pm_reachable Alerts OnError wq s \<Longrightarrow> pm_run Alerts OnError wq ls s = Some s' \<Longrightarrow> pm_reachable Alerts OnError wq s'"
  by (induction ls arbitrary: s) (auto split: option.split_asm intro: pm_reachable.step)

lemma polling_sys_reachable: "pm_reachable demo_api (bounded_attempts 3) fifo_ops polling_sys"
proof (rule pm_run_reachable [OF pm_reachable.init])
  show "pm_run demo_api (bounded_attempts 3) fifo_ops [PStart, PNext, PAdd demo_producer, PBegin 0, PCheck 0]
      (pm_init (NewEventBus 1 ([], False)) ()) = Some polling_sys"
    by (simp add: pm_do_def pm_init_def NewManager_def lock_held_def producers_Add_def producer_Start_def set_starter_def
        set_poller_def new_poller_def polling_sys_def started_sys_def Let_def)
qed

theorem shutdown_ends_polling_witness:
  "\<exists>s0 ls s'. pm_run demo_api (bounded_attempts 3) fifo_ops [PCancel, PStop] polling_sys = Some s0 \<and>
     pm_run demo_api (bounded_attempts 3) fifo_ops ls s0 = Some s' \<and> quiet s'"
proof -
  have "py_start polling_sys = SCtx"
    by (simp add: polling_sys_def started_sys_def)
  from shutdown_ends_polling [OF bounded_attempts_contract [of 3] polling_sys_reachable this] show ?thesis
    by auto
qed

lemma pm_do_answers:
  assumes "pm_do Alerts OnError wq l s = Some s'"
  shows "py_answers s' = py_answers s @
    (case l of PFetch i \<Rightarrow> answer_of Alerts (pl_producer (py_pollers s ! i)) (py_world s) | _ \<Rightarrow> [])"
  using assms
  by (cases l) (auto simp: pm_do_def Let_def set_starter_def split: if_split_asm go.split_asm prod.split_asm start_pc.split_asm list.split_asm
      poller_pc.split_asm)

text \<open>C29:
  What polls is what was added: in every reachable state the goroutines that poll, with those
  that \<open>Add\<close> has launched and that have not begun, are, one for one, the launches of the
  sequential manager, so every call of \<open>Add\<close> after the start gives exactly one of them and
  \<open>Remove\<close> ends none; none ends before the shutdown. Every event that a goroutine is about to
  publish is that of an alert which the API gave to its producer in answer to a poll, and
  which was firing in that answer, or pending if the producer includes pending alerts; the
  record of the answers grows by the answer of the API at each poll, and in no other step.
\<close>

theorem polling_goroutines_exact:
  assumes "pm_reachable Alerts OnError wq s"
  shows "mset (pm_launched (py_manager s)) = mset (starting s) + mset (polling s) \<and>
    (pm_shutdown (py_manager s) \<noteq> ShutdownClosed \<longrightarrow> (\<forall>p \<in> set (py_pollers s). pl_pc p \<noteq> PEnded)) \<and>
    (\<forall>p \<in> set (py_pollers s). \<forall>ev \<in> set (to_publish (pl_pc p)). \<exists>alerts al a.
       (pl_producer p, alerts) \<in> set (py_answers s) \<and> al \<in> set alerts \<and>
       is_active (pc_IncludePending (ep_config (pl_producer p))) al \<and> ev = event_of a al) \<and>
    (\<forall>l s'. pm_do Alerts OnError wq l s = Some s' \<longrightarrow> py_answers s' = py_answers s @
       (case l of PFetch i \<Rightarrow> answer_of Alerts (pl_producer (py_pollers s ! i)) (py_world s) | _ \<Rightarrow> [])) \<and>
    (\<forall>d s'. pm_do Alerts OnError wq (PAdd d) s = Some s' \<longrightarrow> mset (starting s') + mset (polling s') =
       mset (starting s) + mset (polling s) + (if pm_shutdown (py_manager s) = NoShutdown then {#} else {#d#})) \<and>
    (\<forall>n s'. pm_do Alerts OnError wq (PRemove n) s = Some s' \<longrightarrow> starting s' = starting s \<and> polling s' = polling s)"
  using pm_inv_reachable [OF assms] pm_do_answers [of Alerts OnError wq _ s]
  by (simp add: pm_inv_def announces_alerts_def announced_def)
    (auto simp: pm_do_def starting_def polling_def split: go.split_asm if_split_asm prod.split_asm)

theorem polling_goroutines_exact_witness:
  "mset (pm_launched (py_manager polling_sys)) = mset (starting polling_sys) + mset (polling polling_sys) \<and> polling polling_sys = [demo_producer]"
  using polling_goroutines_exact [OF polling_sys_reachable] by (simp add: polling_sys_def polling_def)

section \<open>A whole poll\<close>

text \<open>The sequential \<open>poll\<close> is one of the interleavings: the goroutine goes through it without interruption.\<close>

lemma publish_simulated:
  assumes "publish_loop OnError wq (getName (pl_producer (py_pollers s ! i))) evs (py_bus s) = Ret b"
    and "i < length (py_pollers s)" and "pl_pc (py_pollers s ! i) = PPublishing evs"
  shows "pm_run Alerts OnError wq (replicate (Suc (length evs)) (PPublish i)) s = Some ((set_poller i PIdle s)\<lparr>py_bus := b\<rparr>)"
  using assms
proof (induction evs arbitrary: s)
  case Nil
  then show ?case
    by (simp add: pm_do_def set_poller_def)
next
  case (Cons ev evs)
  let ?d = "pl_producer (py_pollers s ! i)"
  obtain err b1 where b1: "producer_Publish OnError wq (CreateFullyQualifiedTopicName (ev_Name ev) (getName ?d)) ev (py_bus s) = Ret (err, b1)"
    "publish_loop OnError wq (getName ?d) evs b1 = Ret b"
    using Cons.prems(1) by (auto elim!: go_bind_RetE)
  let ?s = "(set_poller i (PPublishing evs) s)\<lparr>py_bus := b1\<rparr>"
  have "pm_do Alerts OnError wq (PPublish i) s = Some ?s"
    using Cons.prems(2,3) b1(1) by (simp add: pm_do_def Let_def)
  then show ?case
    using Cons.IH [of ?s] Cons.prems(2) b1(2) by (simp add: set_poller_def)
qed

lemma poll_simulated:
  assumes "poll Alerts OnError wq (pl_producer (py_pollers s ! i)) (py_bus s, py_fresh s, py_world s) = Ret (b, fresh, w)"
    and "i < length (py_pollers s)" and "pl_pc (py_pollers s ! i) = PIdle" and "pm_shutdown (py_manager s) \<noteq> ShutdownClosed"
  shows "\<exists>k. pm_run Alerts OnError wq (PCheck i # PFetch i # replicate k (PPublish i)) s =
    Some (s\<lparr>py_bus := b, py_fresh := fresh, py_world := w,
      py_answers := py_answers s @ answer_of Alerts (pl_producer (py_pollers s ! i)) (py_world s)\<rparr>)"
proof -
  let ?answers = "py_answers s @ answer_of Alerts (pl_producer (py_pollers s ! i)) (py_world s)"
  obtain evs where fetch: "poll_fetch Alerts (pl_producer (py_pollers s ! i)) (py_fresh s, py_world s) = (evs, fresh, w)"
    and b: "publish_loop OnError wq (getName (pl_producer (py_pollers s ! i))) evs (py_bus s) = Ret b"
    using assms(1) by (auto simp: poll_fetch_publish elim!: go_bind_RetE split: prod.split_asm)
  let ?s = "(set_poller i (PPublishing evs) s)\<lparr>py_fresh := fresh, py_world := w, py_answers := ?answers\<rparr>"
  have "pm_run Alerts OnError wq [PCheck i, PFetch i] s = Some ?s"
    using assms(2-4) fetch by (simp add: pm_do_def set_poller_def)
  moreover have "(set_poller i PIdle ?s)\<lparr>py_bus := b\<rparr> = s\<lparr>py_bus := b, py_fresh := fresh, py_world := w, py_answers := ?answers\<rparr>"
    using assms(2,3) by (cases "py_pollers s ! i") (simp add: set_poller_def list_update_same_conv)
  ultimately show ?thesis
    using publish_simulated [of OnError wq ?s i evs b Alerts] assms(2) b
    by (intro exI [of _ "Suc (length evs)"]) (auto simp: set_poller_def split: option.split_asm)
qed

end
