(* ===== verification/Operator_System.thy ===== *)
theory Operator_System
  imports Bus_Provenance Manager_Concurrency Producer_Concurrency
begin

text \<open>
  The event bus and the action manager as one system. The workers and the shutdown of the bus
  (theory Bus_Concurrency), the publishers, the reconciler of countermeasures and the
  goroutines of the manager (theory Manager_Concurrency) interleave over one bus, with the
  read and write lock of its subscribers.
\<close>

section \<open>The steps\<close>

text \<open>\<open>os_origins\<close> records for which resource each goroutine was started.\<close>

record ('q, 'w) op_sys =
  os_am :: "('q, 'w) am_sys"
  os_worker :: "nat \<Rightarrow> worker"
  os_stop :: stopper
  os_bus_crashed :: bool
  os_origins :: "CounterMeasure list"

definition bus_view :: "('q, 'w) op_sys \<Rightarrow> 'q bus_sys" where
  "bus_view s = \<lparr>bs_bus = am_eventbus (sy_manager (os_am s)), bs_worker = os_worker s, bs_stop = os_stop s,
     bs_crashed = os_bus_crashed s\<rparr>"

definition with_view :: "'q bus_sys \<Rightarrow> ('q, 'w) op_sys \<Rightarrow> ('q, 'w) op_sys" where
  "with_view v s = s\<lparr>os_am := with_manager ((sy_manager (os_am s))\<lparr>am_eventbus := bs_bus v\<rparr>) (os_am s),
     os_worker := bs_worker v, os_stop := bs_stop v, os_bus_crashed := bs_crashed v\<rparr>"

definition alive :: "('q, 'w) op_sys \<Rightarrow> bool" where
  "alive s \<longleftrightarrow> sy_crash (os_am s) = None \<and> \<not> os_bus_crashed s"

text \<open>The steps of the reconciler that change the subscribers and take the write lock.\<close>

fun takes_lock :: "label \<Rightarrow> ('q, 'w) Manager \<Rightarrow> bool" where
  "takes_lock (LSubscribe now cm) m = True"
| "takes_lock (LRemove n) m = (map_of (am_consumers m) n \<noteq> None)"
| "takes_lock _ m = False"

definition lock_free :: "label \<Rightarrow> ('q, 'w) op_sys \<Rightarrow> bool" where
  "lock_free l s \<longleftrightarrow> (takes_lock l (sy_manager (os_am s)) \<longrightarrow> no_reader (bus_view s))"

fun is_send :: "label \<Rightarrow> bool" where
  "is_send (LSend c e) = True"
| "is_send _ = False"

text \<open>The resource whose goroutine a step starts.\<close>

definition started_by :: "label \<Rightarrow> ('q, 'w) am_sys \<Rightarrow> CounterMeasure list" where
  "started_by l am = (case (l, sy_reconciler am) of (LInsert, RInstalling cm c) \<Rightarrow> [cm] | _ \<Rightarrow> [])"

text \<open>
  Sending to the subscribers is the work of the bus here. \<open>may t e\<close> says that a producer may
  publish event \<open>e\<close> on topic \<open>t\<close>.
\<close>

inductive op_step :: "(string \<Rightarrow> Event \<Rightarrow> bool) \<Rightarrow> 'q workqueue_ops \<Rightarrow> ('q \<Rightarrow> bool) \<Rightarrow> 'w cluster retrier \<Rightarrow> 'w env \<Rightarrow>
    ('q, 'w) op_sys \<Rightarrow> ('q, 'w) op_sys \<Rightarrow> bool" for may wq finished OnError env where
  bus: "alive s \<Longrightarrow> bus_internal wq finished (bus_view s) v \<Longrightarrow> op_step may wq finished OnError env s (with_view v s)"
| publish: "alive s \<Longrightarrow> may t e \<Longrightarrow>
    op_step may wq finished OnError env s (with_view (set_bus (snd (Publish wq t e (bs_bus (bus_view s)))) (bus_view s)) s)"
| manager: "alive s \<Longrightarrow> \<not> is_send l \<Longrightarrow> lock_free l s \<Longrightarrow> am_do OnError env l (os_am s) = Some am \<Longrightarrow>
    op_step may wq finished OnError env s (s\<lparr>os_am := am, os_origins := os_origins s @ started_by l (os_am s)\<rparr>)"
| remove_panic: "alive s \<Longrightarrow> lock_free (LRemove n) s \<Longrightarrow> sy_reconciler (os_am s) = RIdle \<Longrightarrow>
    drop_consumer n (sy_manager (os_am s)) = Panics p \<Longrightarrow>
    op_step may wq finished OnError env s (s\<lparr>os_bus_crashed := True\<rparr>)"

definition op_init :: "nat \<Rightarrow> 'q \<Rightarrow> 'w cluster \<Rightarrow> ('q, 'w) op_sys" where
  "op_init n q cl = \<lparr>os_am = am_init (Start_launch (NewEventBus n q)) cl, os_worker = (\<lambda>_. Idle), os_stop = Serving,
     os_bus_crashed = False, os_origins = []\<rparr>"

inductive op_reachable :: "(string \<Rightarrow> Event \<Rightarrow> bool) \<Rightarrow> 'q workqueue_ops \<Rightarrow> ('q \<Rightarrow> bool) \<Rightarrow> 'w cluster retrier \<Rightarrow> 'w env \<Rightarrow>
    nat \<Rightarrow> 'q \<Rightarrow> 'w cluster \<Rightarrow> ('q, 'w) op_sys \<Rightarrow> bool" for may wq finished OnError env n q cl where
  init: "op_reachable may wq finished OnError env n q cl (op_init n q cl)"
| step: "op_reachable may wq finished OnError env n q cl s \<Longrightarrow> op_step may wq finished OnError env s s' \<Longrightarrow>
    op_reachable may wq finished OnError env n q cl s'"

section \<open>Bus and manager change only their own parts\<close>

lemma bus_view_simps [simp]:
  "bs_bus (bus_view s) = am_eventbus (sy_manager (os_am s))" "bs_worker (bus_view s) = os_worker s"
  "bs_stop (bus_view s) = os_stop s" "bs_crashed (bus_view s) = os_bus_crashed s"
  by (simp_all add: bus_view_def)

lemma with_view_simps [simp]:
  "bus_view (with_view v s) = v" "os_origins (with_view v s) = os_origins s"
  "sy_reconciler (os_am (with_view v s)) = sy_reconciler (os_am s)"
  "am_goroutines (sy_manager (os_am (with_view v s))) = am_goroutines (sy_manager (os_am s))"
  "am_eventbus (sy_manager (os_am (with_view v s))) = bs_bus v"
  by (simp_all add: bus_view_def with_view_def)

text \<open>The event that a goroutine has in hand.\<close>

fun held :: "handler_pc \<Rightarrow> Event option" where
  "held (HEvent ev) = Some ev"
| "held (HEntry ev a) = Some ev"
| "held (HBuilt ev cm seq) = Some ev"
| "held (HRunning ev cm seq) = Some ev"
| "held (HRan ev) = Some ev"
| "held HWait = None"
| "held HDone = None"

lemma on_lookup_held: "on_lookup now k ev st = (pc, st') \<Longrightarrow> held pc = None \<or> held pc = Some ev"
  by (auto simp: on_lookup_def split: prod.split_asm option.split_asm)

lemma on_check_held: "on_check env reg now ev e = Ret (pc, out) \<Longrightarrow> held pc = None \<or> held pc = Some ev"
  by (auto simp: on_check_def elim!: go_bind_RetE split: if_split_asm sum.split_asm)

text \<open>A goroutine that does not receive changes neither the bus nor the reconciler, and gets no new event.\<close>

definition moved :: "nat \<Rightarrow> ('q, 'w) am_sys \<Rightarrow> ('q, 'w) am_sys \<Rightarrow> bool" where
  "moved i am am' \<longleftrightarrow> am_eventbus (sy_manager am') = am_eventbus (sy_manager am) \<and> sy_reconciler am' = sy_reconciler am \<and>
     (am_goroutines (sy_manager am') = am_goroutines (sy_manager am) \<or>
      (\<exists>pc. am_goroutines (sy_manager am') = (am_goroutines (sy_manager am))[i := (am_goroutines (sy_manager am) ! i)\<lparr>h_pc := pc\<rparr>] \<and>
         (held pc = None \<or> held pc = held (h_pc (am_goroutines (sy_manager am) ! i)))))"

lemma handler_step_moved:
  assumes "handler_step OnError env l (am_goroutines (sy_manager am) ! i) am = Some am'" and "handler_of l = Some i"
    and "\<And>j. l \<noteq> LReceive j"
  shows "moved i am am'"
proof (cases l)
  case (LLookup j now)
  with assms show ?thesis
    by (auto simp: moved_def Let_def dest!: on_lookup_held split: handler_pc.split_asm prod.split_asm)
next
  case (LCheck j now)
  with assms show ?thesis
    by (auto simp: moved_def Let_def crashed_def dest!: on_check_held split: handler_pc.split_asm option.split_asm go.split_asm)
next
  case (LStart j now)
  with assms show ?thesis
    by (auto simp: moved_def Let_def crashed_def split: handler_pc.split_asm go.split_asm)
next
  case (LRun j)
  with assms show ?thesis
    by (auto simp: moved_def Let_def crashed_def split: handler_pc.split_asm go.split_asm)
next
  case (LEnd j)
  with assms show ?thesis
    by (auto simp: moved_def Let_def crashed_def split: handler_pc.split_asm go.split_asm)
qed (use assms in simp_all)

text \<open>The channels there are: the number of the next one, and their capacities.\<close>

definition same_chans :: "'a store \<Rightarrow> 'a store \<Rightarrow> bool" where
  "same_chans st st' \<longleftrightarrow> st_next st' = st_next st \<and> (\<forall>d. chan_cap st' d = chan_cap st d)"

lemma unsubscribe_next: "unsubscribe t c b = Ret (r, b') \<Longrightarrow> same_chans (eb_store b) (eb_store b')"
  by (auto simp: same_chans_def unsubscribe_def close_chan_frame(1,4) elim!: go_bind_RetE split: option.split_asm)

lemma UnSubscribe_next:
  "UnSubscribe c b = Ret (r, b') \<Longrightarrow> same_chans (eb_store b) (eb_store b')"
  "UnSubscribe_members cs b = Ret (r, b') \<Longrightarrow> same_chans (eb_store b) (eb_store b')"
proof (induction c b and cs b arbitrary: r b' and r b' rule: UnSubscribe_UnSubscribe_members.induct)
  case (4 c cs b)
  then show ?case
    by (fastforce simp: same_chans_def elim!: go_bind_RetE split: prod.split_asm)
qed (auto simp: same_chans_def dest: unsubscribe_next)

lemma bus_internal_next:
  "bus_internal wq finished s s' \<Longrightarrow> st_next (eb_store (bs_bus s')) = st_next (eb_store (bs_bus s))"
  by (induction rule: bus_internal.induct) (auto simp: queue_done_def crash_def close_chan_frame(1) try_send_frame(1))

section \<open>The invariant\<close>

abbreviation event_name :: "CounterMeasure \<Rightarrow> string" where
  "event_name cm \<equiv> oe_EventName (cs_OnEvent (cm_Spec cm))"

definition handler_ok :: "(string \<Rightarrow> Event \<Rightarrow> bool) \<Rightarrow> (chan_id \<Rightarrow> string) \<Rightarrow> nat \<Rightarrow> CounterMeasure \<Rightarrow> handler \<Rightarrow> bool" where
  "handler_ok may f n cm h \<longleftrightarrow> h_key h = ToKey (cm_ObjectMeta cm) \<and> f (h_chan h) = event_name cm \<and> h_chan h < n \<and>
     (\<forall>ev. held (h_pc h) = Some ev \<longrightarrow> vouched may (event_name cm) ev)"

fun reconciler_ok :: "(chan_id \<Rightarrow> string) \<Rightarrow> nat \<Rightarrow> reconciler_pc \<Rightarrow> bool" where
  "reconciler_ok f n RIdle = True"
| "reconciler_ok f n (RSubscribed cm c) = (f (OnEvent c) = event_name cm \<and> OnEvent c < n)"
| "reconciler_ok f n (RInstalling cm c) = (f (OnEvent c) = event_name cm \<and> OnEvent c < n)"
| "reconciler_ok f n (RRemoving name) = True"

definition manager_ok :: "(string \<Rightarrow> Event \<Rightarrow> bool) \<Rightarrow> (chan_id \<Rightarrow> string) \<Rightarrow> nat \<Rightarrow> CounterMeasure list \<Rightarrow> ('q, 'w) am_sys \<Rightarrow> bool" where
  "manager_ok may f n cms am \<longleftrightarrow> list_all2 (handler_ok may f n) cms (am_goroutines (sy_manager am)) \<and>
     reconciler_ok f n (sy_reconciler am)"

abbreviation next_chan :: "('q, 'w) op_sys \<Rightarrow> nat" where
  "next_chan s \<equiv> st_next (eb_store (am_eventbus (sy_manager (os_am s))))"

definition op_inv :: "(string \<Rightarrow> Event \<Rightarrow> bool) \<Rightarrow> ('q \<Rightarrow> item set) \<Rightarrow> ('q \<Rightarrow> bool) \<Rightarrow> (chan_id \<Rightarrow> string) \<Rightarrow> ('q, 'w) op_sys \<Rightarrow> bool" where
  "op_inv may pend finished f s \<longleftrightarrow> sys_inv finished (bus_view s) \<and> bus_prov may pend f (bus_view s) \<and>
     manager_ok may f (next_chan s) (os_origins s) (os_am s)"

lemma handler_ok_pc:
  "handler_ok may f n cm h \<Longrightarrow> (\<And>ev. held pc = Some ev \<Longrightarrow> vouched may (event_name cm) ev) \<Longrightarrow>
   handler_ok may f n cm (h\<lparr>h_pc := pc\<rparr>)"
  by (simp add: handler_ok_def)

lemma handlers_ok_pc:
  assumes "list_all2 (handler_ok may f n) cms hs" and "i < length hs"
    and "\<And>ev. held pc = Some ev \<Longrightarrow> vouched may (f (h_chan (hs ! i))) ev"
  shows "list_all2 (handler_ok may f n) cms (hs[i := (hs ! i)\<lparr>h_pc := pc\<rparr>])"
proof -
  have "handler_ok may f n (cms ! i) (hs ! i)"
    using list_all2_nthD2 [OF assms(1,2)] .
  then have "handler_ok may f n (cms ! i) ((hs ! i)\<lparr>h_pc := pc\<rparr>)"
    using assms(3) by (intro handler_ok_pc) (auto simp: handler_ok_def)
  then have "list_all2 (handler_ok may f n) (cms[i := cms ! i]) (hs[i := (hs ! i)\<lparr>h_pc := pc\<rparr>])"
    by (rule list_all2_update_cong [OF assms(1)])
  then show ?thesis
    by simp
qed

lemma manager_ok_moved:
  assumes "manager_ok may f n cms am" and "i < length (am_goroutines (sy_manager am))" and "moved i am am'"
  shows "manager_ok may f n cms am'"
proof -
  let ?hs = "am_goroutines (sy_manager am)"
  have ok: "list_all2 (handler_ok may f n) cms ?hs"
    using assms(1) by (simp add: manager_ok_def)
  have old: "vouched may (f (h_chan (?hs ! i))) ev" if "held (h_pc (?hs ! i)) = Some ev" for ev
    using list_all2_nthD2 [OF ok assms(2)] that by (simp add: handler_ok_def)
  show ?thesis
    using assms(1,3) old by (auto simp: manager_ok_def moved_def intro!: handlers_ok_pc [OF ok assms(2)])
qed

text \<open>A new channel does not concern the goroutines there are.\<close>

lemma handler_ok_fresh: "handler_ok may f n cm h \<Longrightarrow> handler_ok may (f(n := t)) (Suc n) cm h"
  by (auto simp: handler_ok_def)

lemma handlers_ok_fresh:
  "list_all2 (handler_ok may f n) cms hs \<Longrightarrow> list_all2 (handler_ok may (f(n := t)) (Suc n)) cms hs"
  by (erule list_all2_mono) (rule handler_ok_fresh)

lemma op_inv_bus:
  assumes "sys_inv finished v" and "bus_prov may pend f v"
    and "st_next (eb_store (bs_bus v)) = next_chan s" and "op_inv may pend finished f s"
  shows "op_inv may pend finished f (with_view v s)"
  using assms by (simp add: op_inv_def manager_ok_def)

text \<open>The state after a step of the manager.\<close>

abbreviation manager_moves :: "label \<Rightarrow> ('q, 'w) am_sys \<Rightarrow> ('q, 'w) op_sys \<Rightarrow> ('q, 'w) op_sys" where
  "manager_moves l am s \<equiv> s\<lparr>os_am := am, os_origins := os_origins s @ started_by l (os_am s)\<rparr>"

lemma bus_view_moves:
  "bus_view (s\<lparr>os_am := am\<rparr>) = set_bus (am_eventbus (sy_manager am)) (bus_view s)"
  "bus_view (s\<lparr>os_origins := cms\<rparr>) = bus_view s"
  by (simp_all add: bus_view_def set_bus_def)

lemma set_bus_same: "set_bus (am_eventbus (sy_manager (os_am s))) (bus_view s) = bus_view s"
  by (simp add: bus_view_def set_bus_def)

lemma op_inv_same_bus:
  assumes "op_inv may pend finished f s" and "am_eventbus (sy_manager am) = am_eventbus (sy_manager (os_am s))"
    and "manager_ok may f (next_chan s) (os_origins s @ started_by l (os_am s)) am"
  shows "op_inv may pend finished f (manager_moves l am s)"
  using assms by (simp add: op_inv_def bus_view_moves set_bus_same)

lemma op_inv_open:
  assumes "op_inv may pend finished f s" and "no_reader (bus_view s)"
  shows "bus_inv (am_eventbus (sy_manager (os_am s)))"
  using assms open_part_not_reading [of "bus_view s"] by (simp add: op_inv_def sys_inv_def no_reader_def)

lemma op_inv_subscribe:
  assumes "op_inv may pend finished f s" and "lock_free (LSubscribe now cm) s"
    and "outer_step (LSubscribe now cm) (os_am s) = Some am"
  shows "\<exists>f'. op_inv may pend finished f' (manager_moves (LSubscribe now cm) am s)"
proof -
  let ?m = "sy_manager (os_am s)" and ?f = "f(next_chan s := event_name cm)"
  have idle: "no_reader (bus_view s)"
    using assms(2) by (simp add: lock_free_def)
  have am: "sy_manager am = ?m\<lparr>am_eventbus := snd (Subscribe (event_name cm) (am_eventbus ?m))\<rparr>"
    "sy_reconciler am = RSubscribed cm (NewConsumer now (event_name cm) (next_chan s))"
    using assms(3) by (auto simp: Let_def split_beta split: if_split_asm)
  have next': "st_next (snd (make_chan CONSUMER_BUFFER_SIZE (eb_store (am_eventbus ?m)))) = Suc (next_chan s)"
    by (simp add: make_chan_def)
  have "op_inv may pend finished ?f (manager_moves (LSubscribe now cm) am s)"
    using assms(1) sys_inv_writer(1) [OF idle, of finished "event_name cm"]
      bus_prov_subscribe [of may pend f "bus_view s" "event_name cm", OF _ _ idle] op_inv_open [OF assms(1) idle]
      handlers_ok_fresh [of may f "next_chan s" "os_origins s" "am_goroutines ?m" "event_name cm"]
    by (simp add: op_inv_def manager_ok_def bus_view_moves am next' NewConsumer_def started_by_def)
  then show ?thesis
    by blast
qed

lemma op_inv_installing:
  assumes "op_inv may pend finished f s" and "l = LInstall \<or> l = LInsert \<or> l = LForget" and "outer_step l (os_am s) = Some am"
  shows "op_inv may pend finished f (manager_moves l am s)"
proof (rule op_inv_same_bus [OF assms(1)])
  show "am_eventbus (sy_manager am) = am_eventbus (sy_manager (os_am s))"
    using assms(2,3) by (auto simp: Let_def split: reconciler_pc.split_asm)
  have ok: "manager_ok may f (next_chan s) (os_origins s) (os_am s)"
    using assms(1) by (simp add: op_inv_def)
  show "manager_ok may f (next_chan s) (os_origins s @ started_by l (os_am s)) am"
    using assms(2,3) ok by (auto simp: manager_ok_def started_by_def Let_def handler_ok_def new_handler_def
        split: reconciler_pc.split_asm intro!: list_all2_appendI)
qed

lemma op_inv_remove:
  assumes "op_inv may pend finished f s" and "lock_free (LRemove n) s"
    and "outer_step (LRemove n) (os_am s) = Some am"
  shows "op_inv may pend finished f (manager_moves (LRemove n) am s)"
proof -
  let ?m = "sy_manager (os_am s)"
  obtain m where m: "drop_consumer n ?m = Ret m" and am: "am = with_manager m (os_am s)\<lparr>sy_reconciler := RRemoving n\<rparr>"
    using assms(3) by (auto split: if_split_asm go.split_asm)
  note gs = drop_consumer_state [OF m]
  show ?thesis
  proof (cases "map_of (am_consumers ?m) n")
    case None
    with m have "am_eventbus m = am_eventbus ?m"
      by (auto simp: drop_consumer_def)
    then show ?thesis
      using assms(1) gs by (intro op_inv_same_bus) (simp_all add: am op_inv_def manager_ok_def started_by_def)
  next
    case (Some c)
    with assms(2) have idle: "no_reader (bus_view s)"
      by (simp add: lock_free_def)
    note inv = op_inv_open [OF assms(1) idle]
    obtain b where b: "UnSubscribe c (am_eventbus ?m) = Ret (None, b)" "bus_inv b" "released (leaves c) (am_eventbus ?m) b"
      using UnSubscribe_released(1) [OF inv, of c] by blast
    with m Some have "am_eventbus m = b"
      by (auto simp: drop_consumer_def)
    then show ?thesis
      using assms(1) gs sys_inv_no_reader [OF idle b(2)] bus_prov_released [of may pend f "bus_view s" "leaves c" b] b
        UnSubscribe_next(1) [OF b(1)]
      by (simp add: same_chans_def op_inv_def bus_view_moves am manager_ok_def started_by_def)
  qed
qed

lemma op_inv_receive:
  assumes "drain_contract wq finished" and "op_inv may pend finished f s" and i: "i < length (am_goroutines (sy_manager (os_am s)))"
    and "handler_step OnError env (LReceive i) (am_goroutines (sy_manager (os_am s)) ! i) (os_am s) = Some am"
  shows "op_inv may pend finished f (manager_moves (LReceive i) am s)"
proof -
  let ?m = "sy_manager (os_am s)"
  let ?h = "am_goroutines ?m ! i" and ?st = "eb_store (am_eventbus ?m)"
  let ?b = "(am_eventbus ?m)\<lparr>eb_store := snd (recv (h_chan ?h) ?st)\<rparr>"
  obtain pc where am: "am = with_manager (set_pc i pc (?m\<lparr>am_eventbus := ?b\<rparr>)) (os_am s)"
    and pc: "\<And>ev. held pc = Some ev \<Longrightarrow> fst (recv (h_chan ?h) ?st) = Received ev"
  proof (cases "fst (recv (h_chan ?h) ?st)")
    case (Received v)
    then show ?thesis
      using assms(4) that [of "HEvent v"] by (simp add: Let_def split_beta split: if_split_asm)
  next
    case Closed
    then show ?thesis
      using assms(4) that [of HDone] by (simp add: Let_def split_beta split: if_split_asm)
  qed (use assms(4) in \<open>simp add: Let_def split_beta split: if_split_asm\<close>)
  have "vouched may (f (h_chan ?h)) ev" if "held pc = Some ev" for ev
  proof -
    have "ev \<in> set (buf ?st (h_chan ?h))"
      using recv_buf [of "h_chan ?h" ?st ev "snd (recv (h_chan ?h) ?st)"] pc [OF that] by (simp add: prod_eq_iff)
    then show ?thesis
      using assms(2) bus_provD(6) [of may pend f "bus_view s" ev] by (simp add: op_inv_def)
  qed
  then have "list_all2 (handler_ok may f (next_chan s)) (os_origins s) ((am_goroutines ?m)[i := ?h\<lparr>h_pc := pc\<rparr>])"
    using assms(2) i by (intro handlers_ok_pc) (simp_all add: op_inv_def manager_ok_def)
  moreover have "sys_inv finished (set_bus ?b (bus_view s))"
    using sys_inv_step [OF assms(1) bus_step.receive [of wq finished "bus_view s" "h_chan ?h"]] assms(2) by (simp add: op_inv_def)
  moreover have "bus_prov may pend f (set_bus ?b (bus_view s))"
    using bus_prov_receive [of may pend f "bus_view s" "h_chan ?h"] assms(2) by (simp add: op_inv_def)
  ultimately show ?thesis
    using assms(2) by (simp add: op_inv_def bus_view_moves am manager_ok_def started_by_def recv_frame(1))
qed

lemma op_inv_manager:
  assumes "drain_contract wq finished" and "op_inv may pend finished f s" and "\<not> is_send l" and "lock_free l s"
    and "am_do OnError env l (os_am s) = Some am"
  shows "\<exists>f'. op_inv may pend finished f' (manager_moves l am s)"
proof (cases "handler_of l")
  case None
  with assms(5) have step: "outer_step l (os_am s) = Some am"
    by (simp add: am_do_def split: if_split_asm)
  show ?thesis
  proof (cases l)
    case (LSubscribe now cm)
    then show ?thesis
      using op_inv_subscribe assms(2,4) step by blast
  next
    case LInstall
    then show ?thesis
      using op_inv_installing [OF assms(2) _ step] by blast
  next
    case LInsert
    then show ?thesis
      using op_inv_installing [OF assms(2) _ step] by blast
  next
    case LForget
    then show ?thesis
      using op_inv_installing [OF assms(2) _ step] by blast
  next
    case (LRemove n)
    then show ?thesis
      using op_inv_remove assms(2,4) step by blast
  qed (use None assms(3) in simp_all)
next
  case (Some i)
  with assms(5) have i: "i < length (am_goroutines (sy_manager (os_am s)))"
    and step: "handler_step OnError env l (am_goroutines (sy_manager (os_am s)) ! i) (os_am s) = Some am"
    by (simp_all add: am_do_def split: if_split_asm)
  show ?thesis
  proof (cases "l = LReceive i")
    case True
    then show ?thesis
      using op_inv_receive [OF assms(1,2) i] step by blast
  next
    case False
    with Some have "l \<noteq> LReceive j" for j
      by auto
    with step Some have mv: "moved i (os_am s) am"
      by (intro handler_step_moved)
    have "started_by l (os_am s) = []"
      using Some by (auto simp: started_by_def split: label.split)
    moreover have "manager_ok may f (next_chan s) (os_origins s) am"
      using manager_ok_moved [OF _ i mv] assms(2) by (simp add: op_inv_def)
    ultimately have "op_inv may pend finished f (manager_moves l am s)"
      using mv by (intro op_inv_same_bus [OF assms(2)]) (simp_all add: moved_def)
    then show ?thesis
      by blast
  qed
qed

lemma op_inv_no_panic:
  assumes "op_inv may pend finished f s" and "lock_free (LRemove n) s"
  shows "drop_consumer n (sy_manager (os_am s)) \<noteq> Panics p"
proof (cases "map_of (am_consumers (sy_manager (os_am s))) n")
  case (Some c)
  with assms(2) have "no_reader (bus_view s)"
    by (simp add: lock_free_def)
  then show ?thesis
    using UnSubscribe_released(1) [OF op_inv_open [OF assms(1)], of c] Some by (auto simp: drop_consumer_def)
qed (simp add: drop_consumer_def)

lemma op_inv_step:
  assumes "drain_contract wq finished" and "source_contract wq pend"
    and "op_step may wq finished OnError env s s'" and "op_inv may pend finished f s"
  shows "\<exists>f'. op_inv may pend finished f' s'"
  using assms(3,4)
proof (induction rule: op_step.induct)
  case (bus s v)
  then have "op_inv may pend finished f (with_view v s)"
    using sys_inv_internal [OF assms(1)] bus_prov_internal [OF assms(2)] bus_internal_next [OF bus(2)]
    by (intro op_inv_bus) (auto simp: op_inv_def)
  then show ?case
    by blast
next
  case (publish s t e)
  let ?v = "set_bus (snd (Publish wq t e (bs_bus (bus_view s)))) (bus_view s)"
  have inv: "sys_inv finished (bus_view s)" "bus_prov may pend f (bus_view s)"
    using publish by (simp_all add: op_inv_def)
  have "sys_inv finished ?v" and "bus_prov may pend f ?v"
    by (rule sys_inv_step [OF assms(1) bus_step.publish inv(1)], rule bus_prov_publish [OF assms(2) inv(2) publish(2)])
  then have "op_inv may pend finished f (with_view ?v s)"
    using publish by (intro op_inv_bus) (simp_all add: Publish_def)
  then show ?case
    by blast
next
  case (manager s l am)
  then show ?case
    using op_inv_manager [OF assms(1)] by blast
next
  case (remove_panic s n p)
  then show ?case
    using op_inv_no_panic by blast
qed

lemma op_inv_init:
  assumes "pend q = {}"
  shows "op_inv may pend finished f (op_init n q cl)"
proof -
  let ?b = "Start_launch (NewEventBus n q)"
  have "am_eventbus (sy_manager (os_am (op_init n q cl))) = ?b" "os_worker (op_init n q cl) = (\<lambda>_. Idle)"
    "bus_view (op_init n q cl) = init_sys n q"
    by (simp_all add: op_init_def am_init_def NewFromManager_def bus_view_def init_sys_def)
  moreover have "sys_inv finished (init_sys n q)"
    by (simp add: sys_inv_def init_sys_def bus_inv_New open_part_def)
  moreover have "bus_prov may pend f (init_sys n q)"
    using assms by (simp add: bus_prov_def init_sys_def Start_launch_def NewEventBus_def subs_at_def buf_def empty_store_def)
  ultimately show ?thesis
    by (simp add: op_inv_def manager_ok_def op_init_def am_init_def NewFromManager_def)
qed

lemma op_inv_reachable:
  assumes "drain_contract wq finished" and "source_contract wq pend" and "pend q = {}"
    and "op_reachable may wq finished OnError env n q cl s"
  shows "\<exists>f. op_inv may pend finished f s"
  using assms(4)
proof (induction rule: op_reachable.induct)
  case init
  show ?case
    using op_inv_init [of pend q] assms(3) by blast
next
  case (step s s')
  then show ?case
    using op_inv_step [OF assms(1,2)] by blast
qed

text \<open>What the invariant says about the goroutine with number \<open>i\<close>.\<close>

lemma handled_events_vouched:
  assumes "op_inv may pend finished f s" and "i < length (am_goroutines (sy_manager (os_am s)))"
  shows "h_key (am_goroutines (sy_manager (os_am s)) ! i) = ToKey (cm_ObjectMeta (os_origins s ! i))"
    and "held (h_pc (am_goroutines (sy_manager (os_am s)) ! i)) = Some ev \<or>
      ev \<in> set (buf (eb_store (am_eventbus (sy_manager (os_am s)))) (h_chan (am_goroutines (sy_manager (os_am s)) ! i))) \<Longrightarrow>
      vouched may (event_name (os_origins s ! i)) ev"
proof -
  let ?h = "am_goroutines (sy_manager (os_am s)) ! i"
  have ok: "handler_ok may f (next_chan s) (os_origins s ! i) ?h"
    using assms list_all2_nthD2 [of "handler_ok may f (next_chan s)"] by (auto simp: op_inv_def manager_ok_def)
  then show "h_key ?h = ToKey (cm_ObjectMeta (os_origins s ! i))"
    by (simp add: handler_ok_def)
  have "vouched may (f (h_chan ?h)) ev" if "ev \<in> set (buf (eb_store (am_eventbus (sy_manager (os_am s)))) (h_chan ?h))"
    using assms(1) bus_provD(6) [of may pend f "bus_view s"] that by (simp add: op_inv_def)
  with ok show "held (h_pc ?h) = Some ev \<or> ev \<in> set (buf (eb_store (am_eventbus (sy_manager (os_am s)))) (h_chan ?h)) \<Longrightarrow>
      vouched may (event_name (os_origins s ! i)) ev"
    by (auto simp: handler_ok_def)
qed

section \<open>Runs of the composed system\<close>

text \<open>The sequential worker turn and schedules of the manager are among the runs.\<close>

lemma bus_internal_crashed: "(bus_internal wq finished)\<^sup>*\<^sup>* v v' \<Longrightarrow> bs_crashed v \<Longrightarrow> bs_crashed v'"
proof (induction rule: rtranclp_induct)
  case (step v' v'')
  from step.hyps(2) have "bs_crashed v' \<longrightarrow> bs_crashed v''"
    by (induction rule: bus_internal.induct) (simp_all add: crash_def)
  with step show ?case
    by blast
qed

lemma with_view_self [simp]: "with_view (bus_view s) s = s"
  by (cases s) (simp add: with_view_def bus_view_def with_manager_def)

lemma with_view_twice [simp]: "with_view v (with_view v' s) = with_view v s"
  by (simp add: with_view_def with_manager_def)

lemma alive_with_view: "alive (with_view v s) \<longleftrightarrow> sy_crash (os_am s) = None \<and> \<not> bs_crashed v"
  by (simp add: alive_def with_view_def)

lemma op_reachable_bus:
  assumes "op_reachable may wq finished OnError env n q cl s" and "(bus_internal wq finished)\<^sup>*\<^sup>* (bus_view s) v"
    and "sy_crash (os_am s) = None" and "\<not> bs_crashed v"
  shows "op_reachable may wq finished OnError env n q cl (with_view v s)"
  using assms(2,4)
proof (induction rule: rtranclp_induct)
  case base
  then show ?case
    using assms(1) by simp
next
  case (step v v')
  have "\<not> bs_crashed v"
    using step.prems bus_internal_crashed [OF r_into_rtranclp [where r = "bus_internal wq finished", OF step.hyps(2)]] by blast
  then have "op_reachable may wq finished OnError env n q cl (with_view v s)" and "alive (with_view v s)"
    using step.IH assms(3) by (simp_all add: alive_with_view)
  then show ?case
    using op_reachable.step [OF _ op_step.bus, of may wq finished OnError env n q cl "with_view v s" v'] step.hyps(2) by simp
qed

fun origins_run :: "'w cluster retrier \<Rightarrow> 'w env \<Rightarrow> label list \<Rightarrow> ('q, 'w) am_sys \<Rightarrow> CounterMeasure list" where
  "origins_run OnError env [] am = []"
| "origins_run OnError env (l # ls) am =
     started_by l am @ (case am_do OnError env l am of None \<Rightarrow> [] | Some am' \<Rightarrow> origins_run OnError env ls am')"

text \<open>While no worker is busy and nothing shuts down, the lock is free.\<close>

lemma quiet_reader: "os_worker s = (\<lambda>_. Idle) \<Longrightarrow> os_stop s = Serving \<Longrightarrow> no_reader (bus_view s)"
  by (simp add: no_reader_def)

lemma no_reader_moves [simp]: "no_reader (bus_view (s\<lparr>os_am := am\<rparr>)) = no_reader (bus_view s)"
  "no_reader (bus_view (s\<lparr>os_origins := cms\<rparr>)) = no_reader (bus_view s)"
  by (simp_all add: no_reader_def)

lemma op_reachable_manager:
  assumes "op_reachable may wq finished OnError env n q cl s" and "no_reader (bus_view s)"
    and "\<not> os_bus_crashed s" and "list_all (\<lambda>l. \<not> is_send l) ls" and "am_run OnError env ls (os_am s) = Some am"
  shows "op_reachable may wq finished OnError env n q cl
    (s\<lparr>os_am := am, os_origins := os_origins s @ origins_run OnError env ls (os_am s)\<rparr>)"
  using assms
proof (induction ls arbitrary: s)
  case (Cons l ls)
  obtain am1 where am1: "am_do OnError env l (os_am s) = Some am1" and rest: "am_run OnError env ls am1 = Some am"
    using Cons.prems(5) by (auto split: option.split_asm)
  have "alive s"
    using am1 Cons.prems(3) by (auto simp: alive_def am_do_def split: if_split_asm)
  then have "op_reachable may wq finished OnError env n q cl (manager_moves l am1 s)"
    using Cons.prems(1,2,4) am1 by (intro op_reachable.step [OF _ op_step.manager]) (simp_all add: lock_free_def)
  then show ?case
    using Cons.IH [of "manager_moves l am1 s"] Cons.prems(2-4) am1 rest by simp
next
  case Nil
  then show ?case
    by (cases s) simp
qed

section \<open>Producers that poll\<close>

lemma op_reachable_publish:
  assumes "op_reachable may wq finished OnError env n q cl s" and "alive s"
    and "\<And>ev. ev \<in> set evs \<Longrightarrow> may (CreateFullyQualifiedTopicName (ev_Name ev) name) ev"
  shows "op_reachable may wq finished OnError env n q cl (with_view (set_bus
    ((bs_bus (bus_view s))\<lparr>eb_workqueue := fold (wq_Add wq) (messages_of name evs) (eb_workqueue (bs_bus (bus_view s)))\<rparr>)
    (bus_view s)) s)"
  using assms
proof (induction evs arbitrary: s)
  case Nil
  then show ?case
    by (simp add: messages_of_def set_bus_same)
next
  case (Cons ev evs)
  let ?t = "CreateFullyQualifiedTopicName (ev_Name ev) name"
  let ?s = "with_view (set_bus (snd (Publish wq ?t ev (bs_bus (bus_view s)))) (bus_view s)) s"
  have "op_reachable may wq finished OnError env n q cl ?s"
    using Cons.prems by (intro op_reachable.step [OF _ op_step.publish]) simp_all
  moreover have "alive ?s"
    using Cons.prems(2) by (simp add: alive_with_view) (simp add: alive_def)
  ultimately show ?case
    using Cons.IH [of ?s] Cons.prems(3) by (simp add: messages_of_def Publish_def)
qed

text \<open>What may be published can only grow.\<close>

lemma op_step_mono: "op_step may wq finished OnError env s s' \<Longrightarrow> (\<And>t e. may t e \<Longrightarrow> may' t e) \<Longrightarrow> op_step may' wq finished OnError env s s'"
proof (induction rule: op_step.induct)
  case (publish s t e)
  then show ?case
    by (intro op_step.publish) simp_all
qed (auto intro: op_step.intros)

lemma op_reachable_mono:
  assumes "op_reachable may wq finished OnError env n q cl s" and "\<And>t e. may t e \<Longrightarrow> may' t e"
  shows "op_reachable may' wq finished OnError env n q cl s"
  using assms(1) by (induction rule: op_reachable.induct) (auto intro: op_reachable.intros op_step_mono [OF _ assms(2)])

text \<open>A poll whose publications succeed is a run of the composed system.\<close>

lemma op_reachable_poll:
  assumes "op_reachable (from_alert answers) wq finished OnError env n q cl s" and "alive s" and "retry_contract k Retry"
    and "poll Alerts Retry wq d (bs_bus (bus_view s), fresh, w) = Ret (b, fresh', w')" and "set (answer_of Alerts d w) \<subseteq> set answers"
  shows "op_reachable (from_alert answers) wq finished OnError env n q cl (with_view (set_bus b (bus_view s)) s)"
proof (cases "Alerts (pc_Client (ep_config d)) w")
  case (Pair r w1)
  show ?thesis
  proof (cases r)
    case (Inl err)
    then show ?thesis
      using assms(1,4) Pair by (auto simp: poll_def GetActiveAlerts_def set_bus_same)
  next
    case (Inr alerts)
    then show ?thesis
      using assms(4,5) Pair op_reachable_publish [OF assms(1,2), of _ "getName d"] polled_announced [of d alerts answers]
        poll_alerts [where Alerts = Alerts and d = d and w = w and wq = wq, OF assms(3)] by (auto simp: answer_of_def from_alert_def)
  qed
qed

text \<open>
  So is every step of the producers and their manager (theory Producer_Concurrency): what they
  do to the bus is to publish events of alerts, one at a time and interleaved with each other.
\<close>

lemma pm_step_publishes:
  assumes "pm_inv t" and "pm_do Alerts Retry wq l t = Some t'" and "retry_contract k Retry"
  shows "py_bus t' = py_bus t \<or> (\<exists>topic ev. from_alert (py_answers t) topic ev \<and> py_bus t' = snd (Publish wq topic ev (py_bus t)))"
proof (cases "\<exists>i. l = PPublish i")
  case True
  then obtain i where l: "l = PPublish i"
    by blast
  then have i: "i < length (py_pollers t)"
    using assms(2) by (auto simp: pm_do_def split: if_split_asm)
  then have "announces_alerts (py_answers t) (py_pollers t ! i)"
    using assms(1) by (simp add: pm_inv_def)
  then show ?thesis
    using assms(2) l i by (auto simp: pm_do_def announces_alerts_def from_alert_def producer_Publish_Ret [OF assms(3)] Let_def
        split: poller_pc.split_asm list.split_asm) blast
next
  case False
  then show ?thesis
    using assms(2) by (cases l) (auto simp: pm_do_def set_poller_def Let_def
        split: if_split_asm go.split_asm prod.split_asm start_pc.split_asm list.split_asm)
qed

lemma op_reachable_producers:
  assumes "op_reachable (from_alert (py_answers t)) wq finished OnError env n q cl s" and "alive s"
    and "pm_inv t" and "py_bus t = bs_bus (bus_view s)" and "pm_do Alerts Retry wq l t = Some t'" and "retry_contract k Retry"
  shows "op_reachable (from_alert (py_answers t')) wq finished OnError env n q cl (with_view (set_bus (py_bus t') (bus_view s)) s)"
proof (rule op_reachable_mono)
  show "from_alert (py_answers t') topic ev" if "from_alert (py_answers t) topic ev" for topic ev
    using from_alert_mono [OF that] pm_do_answers [OF assms(5)] by simp
  show "op_reachable (from_alert (py_answers t)) wq finished OnError env n q cl (with_view (set_bus (py_bus t') (bus_view s)) s)"
    using pm_step_publishes [OF assms(3,5,6)]
  proof
    assume "py_bus t' = py_bus t"
    then show ?thesis
      using assms(1,4) by (simp add: set_bus_same)
  next
    assume "\<exists>topic ev. from_alert (py_answers t) topic ev \<and> py_bus t' = snd (Publish wq topic ev (py_bus t))"
    then show ?thesis
      using op_reachable.step [OF assms(1) op_step.publish [OF assms(2)]] assms(4) by auto
  qed
qed

lemma takeWhile_stop: "takeWhile (\<lambda>x. x \<noteq> c) (t @ c # r) = takeWhile (\<lambda>x. x \<noteq> c) t"
  by (induction t) simp_all

lemma takeWhile_none: "c \<notin> set t \<Longrightarrow> takeWhile (\<lambda>x. x \<noteq> c) t = t"
  by (induction t) auto

lemma takeWhile_covered:
  "topic_covers p t \<Longrightarrow> CHR '':'' \<notin> set p \<Longrightarrow> takeWhile (\<lambda>c. c \<noteq> CHR '':'') t = p"
  unfolding topic_covers_def using takeWhile_stop takeWhile_none by metis

lemma takeWhile_qualified:
  "takeWhile (\<lambda>c. c \<noteq> CHR '':'') (CreateFullyQualifiedTopicName t name) = takeWhile (\<lambda>c. c \<noteq> CHR '':'') t"
  using takeWhile_stop [of "CHR '':''" t] by (simp add: CreateFullyQualifiedTopicName_def)

text \<open>
  The event is that of an alert which the API gave to a producer, firing in that answer, or
  pending if the producer includes pending alerts, and published under a topic that the event
  name of the resource covers; for an event name without a colon, the name of the alert is
  the event name up to a colon.
\<close>

definition alert_for :: "'api answers \<Rightarrow> CounterMeasure \<Rightarrow> Event \<Rightarrow> bool" where
  "alert_for answers cm ev \<longleftrightarrow> (\<exists>d alerts al a. (d, alerts) \<in> set answers \<and> al \<in> set alerts \<and>
     is_active (pc_IncludePending (ep_config d)) al \<and> ev = event_of a al \<and>
     topic_covers (event_name cm) (CreateFullyQualifiedTopicName (ev_Name ev) (getName d)) \<and>
     (CHR '':'' \<notin> set (event_name cm) \<longrightarrow>
        takeWhile (\<lambda>c. c \<noteq> CHR '':'') (EventData_Get (al_Labels al) ''alertname'') = event_name cm))"

lemma vouched_alert:
  assumes "vouched (from_alert answers) (event_name cm) ev"
  shows "alert_for answers cm ev"
proof -
  obtain d where d: "announced answers d ev" and covers: "topic_covers (event_name cm) (CreateFullyQualifiedTopicName (ev_Name ev) (getName d))"
    using assms by (auto simp: vouched_def from_alert_def)
  then obtain alerts al a where alert: "(d, alerts) \<in> set answers" "al \<in> set alerts" "is_active (pc_IncludePending (ep_config d)) al" "ev = event_of a al"
    unfolding announced_def by blast
  have "takeWhile (\<lambda>c. c \<noteq> CHR '':'') (EventData_Get (al_Labels al) ''alertname'') = event_name cm"
    if "CHR '':'' \<notin> set (event_name cm)"
    using takeWhile_covered [OF covers that] takeWhile_qualified [of "ev_Name ev" "getName d"] alert(4) by (simp add: event_of_def)
  with alert covers show ?thesis
    unfolding alert_for_def by blast
qed

text \<open>A countermeasure sees only its own alerts, in its hands and in its channel.\<close>

definition sees_own_alerts :: "'api answers \<Rightarrow> ('q, 'w) am_sys \<Rightarrow> CounterMeasure \<Rightarrow> handler \<Rightarrow> bool" where
  "sees_own_alerts answers am cm h \<longleftrightarrow> h_key h = ToKey (cm_ObjectMeta cm) \<and>
     (\<forall>ev. held (h_pc h) = Some ev \<or> ev \<in> set (buf (eb_store (am_eventbus (sy_manager am))) (h_chan h)) \<longrightarrow> alert_for answers cm ev)"

lemma goroutines_see_own_alerts:
  assumes "drain_contract wq finished" and "source_contract wq pend" and "pend q = {}"
    and "op_reachable (from_alert answers) wq finished OnError env n q cl s"
  shows "\<not> os_bus_crashed s \<and> list_all2 (sees_own_alerts answers (os_am s)) (os_origins s) (am_goroutines (sy_manager (os_am s)))"
proof -
  obtain f where inv: "op_inv (from_alert answers) pend finished f s"
    using op_inv_reachable [OF assms(1-4)] by blast
  then have "\<not> os_bus_crashed s" and "length (os_origins s) = length (am_goroutines (sy_manager (os_am s)))"
    by (auto simp: op_inv_def sys_inv_def manager_ok_def list_all2_lengthD)
  moreover have "sees_own_alerts answers (os_am s) (os_origins s ! i) (am_goroutines (sy_manager (os_am s)) ! i)"
    if "i < length (am_goroutines (sy_manager (os_am s)))" for i
    using handled_events_vouched [OF inv that] vouched_alert unfolding sees_own_alerts_def by blast
  ultimately show ?thesis
    by (simp add: list_all2_conv_all_nth)
qed

text \<open>One countermeasure, one published event, and its goroutine with the event in hand.\<close>

definition demo_topic :: string where
  "demo_topic = ''HighCpu:mon:p8s''"

definition alert_event :: Event where
  "alert_event = event_of 0 demo_alert"

definition demo_answers :: "unit answers" where
  "demo_answers = [(demo_producer, [demo_alert])]"

lemma demo_from_alert: "from_alert demo_answers demo_topic alert_event"
proof -
  have "demo_topic = CreateFullyQualifiedTopicName (ev_Name alert_event) (getName demo_producer)"
    "is_active (pc_IncludePending (ep_config demo_producer)) demo_alert"
    by code_simp+
  then show ?thesis
    by (auto simp: from_alert_def announced_def alert_event_def demo_answers_def)
qed

definition installed_am :: "(fifo, NamespacedName list) am_sys" where
  "installed_am = the (am_run (bounded_attempts 3) demo_env (take 3 running_schedule) (os_am (op_init 2 ([], False) demo_cluster)))"

definition demo_delivered :: "fifo EventBus" where
  "demo_delivered =
     (case processNextWorkItem fifo_ops (snd (Publish fifo_ops demo_topic alert_event (am_eventbus (sy_manager installed_am)))) of
        Some (Ret (go_on, handled, b)) \<Rightarrow> b | _ \<Rightarrow> am_eventbus (sy_manager installed_am))"

definition holding_sys :: "(fifo, NamespacedName list) op_sys" where
  "holding_sys =
     (let am = with_manager ((sy_manager installed_am)\<lparr>am_eventbus := demo_delivered\<rparr>) installed_am
      in \<lparr>os_am = the (am_do (bounded_attempts 3) demo_env (LReceive 0) am), os_worker = (\<lambda>_. Idle), os_stop = Serving,
          os_bus_crashed = False, os_origins = [sample_cm]\<rparr>)"

abbreviation demo_reachable :: "(fifo, NamespacedName list) op_sys \<Rightarrow> bool" where
  "demo_reachable \<equiv> op_reachable (from_alert demo_answers) fifo_ops fifo_finished (bounded_attempts 3) demo_env 2 ([], False) demo_cluster"

abbreviation installed_sys :: "(fifo, NamespacedName list) op_sys" where
  "installed_sys \<equiv> (op_init 2 ([], False) demo_cluster)\<lparr>os_am := installed_am, os_origins := [sample_cm]\<rparr>"

lemma installed_simps [simp]:
  "os_worker (op_init n q cl) = (\<lambda>_. Idle)" "os_stop (op_init n q cl) = Serving" "\<not> os_bus_crashed (op_init n q cl)"
  "os_origins (op_init n q cl) = []"
  by (simp_all add: op_init_def)

lemma installed_alive: "sy_crash installed_am = None"
  by code_simp

lemma installed_reachable: "demo_reachable installed_sys"
proof -
  let ?i = "op_init 2 ([], False) demo_cluster :: (fifo, NamespacedName list) op_sys"
  have "am_run (bounded_attempts 3) demo_env (take 3 running_schedule) (os_am ?i) \<noteq> None"
    and runs: "origins_run (bounded_attempts 3) demo_env (take 3 running_schedule) (os_am ?i) = [sample_cm]"
    by code_simp+
  then have run: "am_run (bounded_attempts 3) demo_env (take 3 running_schedule) (os_am ?i) = Some installed_am"
    by (simp add: installed_am_def)
  have "list_all (\<lambda>l. \<not> is_send l) (take 3 running_schedule)"
    by (simp add: running_schedule_def)
  from op_reachable_manager [OF op_reachable.init quiet_reader _ this run, of "from_alert demo_answers" fifo_ops fifo_finished]
  show ?thesis
    unfolding runs by simp
qed

lemma demo_turn:
  "\<exists>h. processNextWorkItem fifo_ops (snd (Publish fifo_ops demo_topic alert_event (am_eventbus (sy_manager installed_am)))) =
    Some (Ret (True, h, demo_delivered))"
proof -
  have "case processNextWorkItem fifo_ops (snd (Publish fifo_ops demo_topic alert_event (am_eventbus (sy_manager installed_am)))) of
      Some (Ret (go_on, h, b)) \<Rightarrow> go_on | _ \<Rightarrow> False"
    by code_simp
  then show ?thesis
    by (auto simp: demo_delivered_def split: option.split_asm go.split_asm)
qed

lemma holding_sys_reachable: "demo_reachable holding_sys"
proof -
  let ?pub = "snd (Publish fifo_ops demo_topic alert_event (am_eventbus (sy_manager installed_am)))"
  let ?s2 = "with_view (set_bus ?pub (bus_view installed_sys)) installed_sys"
  let ?s3 = "with_view (set_bus demo_delivered (bus_view ?s2)) ?s2"
  let ?am = "with_manager ((sy_manager installed_am)\<lparr>am_eventbus := demo_delivered\<rparr>) installed_am"
  have s2: "demo_reachable ?s2"
    using op_reachable.step [OF installed_reachable op_step.publish, of demo_topic alert_event] demo_from_alert
    by (simp add: alive_def installed_alive)
  obtain h where "processNextWorkItem fifo_ops (bs_bus (bus_view ?s2)) = Some (Ret (True, h, demo_delivered))"
    using demo_turn by auto
  from worker_turn_internal [OF _ this, of 0]
  have "(bus_internal fifo_ops fifo_finished)\<^sup>*\<^sup>* (bus_view ?s2) (set_bus demo_delivered (bus_view ?s2))"
    by simp
  with s2 have s3: "demo_reachable ?s3"
    by (rule op_reachable_bus) (simp_all add: installed_alive with_view_def)
  have "am_do (bounded_attempts 3) demo_env (LReceive 0) ?am \<noteq> None" "origins_run (bounded_attempts 3) demo_env [LReceive 0] ?am = []"
    by code_simp+
  moreover have "?s3 = installed_sys\<lparr>os_am := ?am\<rparr>"
    by (simp add: with_view_def with_manager_def)
  ultimately have "demo_reachable ((op_init 2 ([], False) demo_cluster)\<lparr>os_am := the (am_do (bounded_attempts 3) demo_env (LReceive 0) ?am), os_origins := [sample_cm]\<rparr>)"
    using op_reachable_manager [OF s3, of "[LReceive 0]"] quiet_reader [of installed_sys] by auto
  moreover have "(op_init 2 ([], False) demo_cluster)\<lparr>os_am := the (am_do (bounded_attempts 3) demo_env (LReceive 0) ?am), os_origins := [sample_cm]\<rparr> = holding_sys"
    by (simp add: holding_sys_def op_init_def)
  ultimately show ?thesis
    by simp
qed

end
