(* ===== verification/Api_EventSource.thy ===== *)
theory Api_EventSource
  imports Api_CounterMeasure
begin

text \<open>
  \<open>apis/eventsource/v1alpha1\<close>: the custom resource \<open>Prometheus\<close>, its defaulting and its
  validation. The API server behind the webhook's client is a parameter.
\<close>

section \<open>The resource\<close>

record ServiceReference =
  sr_Namespace :: string
  sr_Name :: string
  sr_Path :: "string option"
  sr_Port :: "32 word"
  sr_TargetPort :: string
  sr_UseTls :: bool

text \<open>\<open>corev1.SecretReference\<close>, \<open>corev1.Secret\<close>, \<open>corev1.Service\<close>, as far as they are read.\<close>

record SecretReference =
  sf_Namespace :: string
  sf_Name :: string

record Secret =
  se_Type :: string
  se_Data :: "(string, string) gomap"

record ServicePort =
  po_Name :: string
  po_Port :: "32 word"

record Service =
  sv_Ports :: "ServicePort list"

record AuthSpec =
  au_SecretReference :: SecretReference

record PrometheusSpec =
  ps_Service :: ServiceReference
  ps_Auth :: "AuthSpec option"
  ps_PollingInterval :: int
  ps_IncludePending :: bool

definition Polling :: string where "Polling = ''Polling''"
definition StateError :: string where "StateError = ''Error''"
definition StateUnknown :: string where "StateUnknown = ''Unknown''"
definition TypePolling :: string where "TypePolling = ''Polling''"

record PrometheusStatus =
  px_State :: string
  px_Conditions :: "Condition list"

record Prometheus =
  pr_ObjectMeta :: ObjectMeta
  pr_Spec :: PrometheusSpec
  pr_Status :: PrometheusStatus

definition GetNamespacedName :: "ServiceReference \<Rightarrow> NamespacedName" where
  "GetNamespacedName s = \<lparr>nn_Namespace = sr_Namespace s, nn_Name = sr_Name s\<rparr>"

section \<open>The admission webhook\<close>

definition Prometheus_Default :: "Prometheus \<Rightarrow> Prometheus" where
  "Prometheus_Default r =
     (let spec1 = (pr_Spec r)\<lparr>ps_IncludePending := False\<rparr>;
          spec2 = spec1\<lparr>ps_PollingInterval := 15 * 1000000000\<rparr>
      in r\<lparr>pr_Spec := spec2\<rparr>)"

definition zero_service :: ServiceReference where
  "zero_service = \<lparr>sr_Namespace = [], sr_Name = [], sr_Path = None, sr_Port = 0, sr_TargetPort = [], sr_UseTls = False\<rparr>"

text \<open>\<open>GetService\<close> and \<open>GetSecret\<close> are the client's \<open>Get\<close> for the two kinds.\<close>

definition ValidatePrometheus :: "(NamespacedName \<Rightarrow> goerror + Service) \<Rightarrow> (NamespacedName \<Rightarrow> goerror + Secret) \<Rightarrow>
    Prometheus \<Rightarrow> goerror option" where
  "ValidatePrometheus GetService GetSecret r =
     (let p = pr_Spec r
      in if ps_Service p = zero_service then Some (Errorf ''service reference is required'')
         else case GetService (GetNamespacedName (ps_Service p)) of
                Inl err \<Rightarrow>
                  if IsNotFound err
                  then Some (Errorf (''prometheus service '' @ quoted (sr_Name (ps_Service p)) @ '' is not found in namespace '' @
                         quoted (sr_Namespace (ps_Service p))))
                  else Some err
              | Inr svc \<Rightarrow>
                  (case ps_Auth p of
                     None \<Rightarrow> None
                   | Some auth \<Rightarrow>
                       (let secretRef = au_SecretReference auth;
                            namespace = (if length (sf_Namespace secretRef) = 0 then om_Namespace (pr_ObjectMeta r)
                                         else sf_Namespace secretRef)
                        in case GetSecret \<lparr>nn_Namespace = namespace, nn_Name = sf_Name secretRef\<rparr> of
                             Inl err \<Rightarrow>
                               if IsNotFound err
                               then Some (Errorf (''secret '' @ quoted (sf_Name secretRef) @ '' is not found in namespace '' @
                                      quoted (sf_Namespace secretRef)))
                               else Some err
                           | Inr secret \<Rightarrow> None)))"

definition Prometheus_ValidateCreate :: "(NamespacedName \<Rightarrow> goerror + Service) \<Rightarrow> (NamespacedName \<Rightarrow> goerror + Secret) \<Rightarrow>
    Prometheus \<Rightarrow> goerror option" where
  "Prometheus_ValidateCreate GetService GetSecret r = ValidatePrometheus GetService GetSecret r"

definition Prometheus_ValidateUpdate :: "(NamespacedName \<Rightarrow> goerror + Service) \<Rightarrow> (NamespacedName \<Rightarrow> goerror + Secret) \<Rightarrow>
    Prometheus \<Rightarrow> Prometheus \<Rightarrow> goerror option" where
  "Prometheus_ValidateUpdate GetService GetSecret r old = ValidatePrometheus GetService GetSecret r"

definition Prometheus_ValidateDelete :: "Prometheus \<Rightarrow> goerror option" where
  "Prometheus_ValidateDelete r = None"

section \<open>What the webhook does\<close>

text \<open>The name of the secret that the spec means, with the resource's namespace as default.\<close>

definition secret_name :: "Prometheus \<Rightarrow> AuthSpec \<Rightarrow> NamespacedName" where
  "secret_name r auth =
     \<lparr>nn_Namespace = (if sf_Namespace (au_SecretReference auth) = [] then om_Namespace (pr_ObjectMeta r)
                      else sf_Namespace (au_SecretReference auth)),
      nn_Name = sf_Name (au_SecretReference auth)\<rparr>"

text \<open>
  An event source is admitted exactly when its service reference is not empty, the server
  has that service, and, where credentials are asked for, the server has the secret, looked
  up in the resource's own namespace if the reference names none.
\<close>

lemma ValidatePrometheus_exact:
  "ValidatePrometheus GetService GetSecret r = None \<longleftrightarrow>
     ps_Service (pr_Spec r) \<noteq> zero_service \<and> (\<exists>svc. GetService (GetNamespacedName (ps_Service (pr_Spec r))) = Inr svc) \<and>
     (case ps_Auth (pr_Spec r) of None \<Rightarrow> True | Some auth \<Rightarrow> \<exists>s. GetSecret (secret_name r auth) = Inr s)"
  by (auto simp: ValidatePrometheus_def secret_name_def Let_def split: sum.split option.split)

text \<open>
  The defaulting overwrites what the user has set: the polled state and the interval of the
  admitted resource never depend on the submitted ones.
\<close>

lemma Prometheus_Default_overrides:
  "ps_IncludePending (pr_Spec (Prometheus_Default r)) = False"
  "ps_PollingInterval (pr_Spec (Prometheus_Default r)) = 15000000000"
  "Prometheus_Default (r\<lparr>pr_Spec := (pr_Spec r)\<lparr>ps_IncludePending := p, ps_PollingInterval := i\<rparr>\<rparr>) = Prometheus_Default r"
  by (simp_all add: Prometheus_Default_def Let_def)

end
