(* ===== verification/Reconciler.thy ===== *)
theory Reconciler
  imports Api_EventSource
begin

text \<open>
  \<open>pkg/reconciler/reconciler.go\<close>: helpers that the two reconcilers share.
\<close>

section \<open>Outcomes\<close>

text \<open>\<open>ctrl.Result\<close>; the callbacks of the base are arguments.\<close>

record Result =
  re_RequeueAfter :: int

definition zero_result :: Result where
  "zero_result = \<lparr>re_RequeueAfter = 0\<rparr>"

definition base_HandleError :: "(ObjectMeta \<Rightarrow> goerror \<Rightarrow> int \<Rightarrow> 's \<Rightarrow> 'r) \<Rightarrow> ObjectMeta \<Rightarrow> goerror \<Rightarrow> 's \<Rightarrow> 'r" where
  "base_HandleError OnError objectMeta err s = OnError objectMeta err 0 s"

definition HandleOutcome :: "(ObjectMeta \<Rightarrow> goerror \<Rightarrow> int \<Rightarrow> 's \<Rightarrow> 'r) \<Rightarrow> (ObjectMeta \<Rightarrow> 's \<Rightarrow> 'r) \<Rightarrow>
    ObjectMeta \<Rightarrow> goerror option \<Rightarrow> 's \<Rightarrow> 'r" where
  "HandleOutcome OnError OnSuccess objectMeta err s =
     (case err of
        Some e \<Rightarrow> base_HandleError OnError objectMeta e s
      | None \<Rightarrow> OnSuccess objectMeta s)"

section \<open>Secrets, keys and ports\<close>

text \<open>\<open>Get\<close> is the client's \<open>Get\<close> for secrets.\<close>

definition base_GetSecret :: "(NamespacedName \<Rightarrow> goerror + Secret) \<Rightarrow> SecretReference \<Rightarrow> goerror + Secret" where
  "base_GetSecret Get ref =
     (case Get \<lparr>nn_Namespace = sf_Namespace ref, nn_Name = sf_Name ref\<rparr> of
        Inl err \<Rightarrow> Inl err
      | Inr secret \<Rightarrow>
          if se_Type secret \<noteq> ''kubernetes.io/basic-auth''
          then Inl (Errorf ''only the basic auth type (kubernetes.io/basic-auth) is currently supported'')
          else Inr secret)"

definition ServiceToKey :: "ServiceReference \<Rightarrow> string" where
  "ServiceToKey svcRef =
     (if sr_Namespace svcRef = [] then sr_Name svcRef else sr_Namespace svcRef @ ''/'' @ sr_Name svcRef)"

definition ToNamespaceName :: "ObjectMeta \<Rightarrow> NamespacedName" where
  "ToNamespaceName objectMeta = \<lparr>nn_Namespace = om_Namespace objectMeta, nn_Name = om_Name objectMeta\<rparr>"

definition string_ToKey :: "ObjectMeta \<Rightarrow> string" where
  "string_ToKey objectMeta =
     (if om_Namespace objectMeta = [] then om_Name objectMeta else om_Namespace objectMeta @ ''/'' @ om_Name objectMeta)"

text \<open>The two indexes are in range because the key contains a slash.\<close>

definition SplitKey :: "string \<Rightarrow> NamespacedName" where
  "SplitKey key =
     (if CHR ''/'' \<in> set key
      then (let split = split_on CHR ''/'' key in \<lparr>nn_Namespace = split ! 0, nn_Name = split ! 1\<rparr>)
      else \<lparr>nn_Namespace = [], nn_Name = key\<rparr>)"

fun find_port_loop :: "ServicePort list \<Rightarrow> string \<Rightarrow> ServicePort option" where
  "find_port_loop [] namedPort = None"
| "find_port_loop (port # ports) namedPort =
     (if po_Name port = namedPort then Some port else find_port_loop ports namedPort)"

definition FindNamedPort :: "Service \<Rightarrow> string \<Rightarrow> ServicePort option" where
  "FindNamedPort service namedPort =
     (let portCount = length (sv_Ports service)
      in if portCount = 1 then Some (sv_Ports service ! 0)
         else if portCount > 1 then find_port_loop (sv_Ports service) namedPort
         else None)"

section \<open>Properties\<close>

lemma SplitKey_in_range: "CHR ''/'' \<in> set key \<Longrightarrow> 1 < length (split_on CHR ''/'' key)"
  by (simp add: length_split_gt_1)

text \<open>C40:
  A printed key reads back as the name it was printed from, for names and namespaces without
  a slash, also when the namespace is empty; and a key without a slash prints back as it was.
\<close>

theorem SplitKey_string_ToKey:
  assumes "CHR ''/'' \<notin> set (om_Namespace m)" and "CHR ''/'' \<notin> set (om_Name m)"
  shows "SplitKey (string_ToKey m) = ToNamespaceName m \<and>
    (CHR ''/'' \<notin> set key \<longrightarrow> nn_Namespace (SplitKey key) = [] \<and> nn_Name (SplitKey key) = key)"
  using assms by (auto simp: SplitKey_def string_ToKey_def ToNamespaceName_def split_on_append_sep split_on_no_sep Let_def)

theorem SplitKey_string_ToKey_witness:
  "SplitKey (string_ToKey \<lparr>om_Namespace = ''ns'', om_Name = ''cm'', om_Generation = 1\<rparr>) = \<lparr>nn_Namespace = ''ns'', nn_Name = ''cm''\<rparr>"
  using SplitKey_string_ToKey [of "\<lparr>om_Namespace = ''ns'', om_Name = ''cm'', om_Generation = 1\<rparr>"]
  by (simp add: ToNamespaceName_def)

lemma find_port_loop_find: "find_port_loop ports n = find (\<lambda>p. po_Name p = n) ports"
  by (induction ports) auto

lemma FindNamedPort_cases:
  "FindNamedPort s n = (case sv_Ports s of [p] \<Rightarrow> Some p | ps \<Rightarrow> find (\<lambda>p. po_Name p = n) ps)"
  by (auto simp: FindNamedPort_def find_port_loop_find Let_def split: list.split)

end
