(* ===== verification/Status_Update.thy ===== *)
theory Status_Update
  imports Reconciler Retry Runner
begin

text \<open>
  What \<open>countermeasure_controller.go\<close> and \<open>prometheus_controller.go\<close> have in common: the
  client for a kind of resource, the manager interface they hold, and the loop, written out
  in both files, that re-reads a resource and writes its status until no conflict is left.
\<close>

section \<open>The API server\<close>

text \<open>
  The client for one kind of resource: reading an object and updating its status. \<open>cr_Error\<close>
  is the text of an error, \<open>cr_SetStatusCondition\<close> the function of apimachinery, \<open>cr_Now\<close>
  the current time.
\<close>

record ('r, 'w) cr_api =
  cr_Get :: "NamespacedName \<Rightarrow> 'w \<Rightarrow> (goerror + 'r) \<times> 'w"
  cr_StatusUpdate :: "'r \<Rightarrow> 'w \<Rightarrow> goerror option \<times> 'w"
  cr_Error :: "goerror \<Rightarrow> string"
  cr_SetStatusCondition :: "Condition list \<Rightarrow> Condition \<Rightarrow> Condition list"
  cr_Now :: int

text \<open>\<open>manager.Manager[T]\<close>, as the reconcilers hold it.\<close>

record ('m, 't) manager_ops =
  mo_Add :: "'t \<Rightarrow> 'm \<Rightarrow> (goerror option \<times> 'm) go"
  mo_Remove :: "NamespacedName \<Rightarrow> 'm \<Rightarrow> (goerror option \<times> 'm) go"
  mo_Exists :: "ObjectMeta \<Rightarrow> 'm \<Rightarrow> bool"

section \<open>Writing the status\<close>

definition success_condition :: "('r, 'w) cr_api \<Rightarrow> string \<Rightarrow> ObjectMeta \<Rightarrow> Condition" where
  "success_condition api type objectMeta =
     \<lparr>co_Type = type, co_Status = ''True'', co_ObservedGeneration = om_Generation objectMeta,
      co_LastTransitionTime = cr_Now api, co_Reason = ReasonSucceeded, co_Message = []\<rparr>"

definition error_condition :: "('r, 'w) cr_api \<Rightarrow> string \<Rightarrow> ObjectMeta \<Rightarrow> goerror \<Rightarrow> Condition" where
  "error_condition api type objectMeta err =
     \<lparr>co_Type = type, co_Status = ''True'', co_ObservedGeneration = om_Generation objectMeta,
      co_LastTransitionTime = cr_Now api, co_Reason = ReasonSucceeded, co_Message = cr_Error api err\<rparr>"

definition initial_condition :: "string \<Rightarrow> ObjectMeta \<Rightarrow> Condition" where
  "initial_condition type objectMeta =
     \<lparr>co_Type = type, co_Status = ''Unknown'', co_ObservedGeneration = om_Generation objectMeta,
      co_LastTransitionTime = 0, co_Reason = ReasonReconciling, co_Message = ''Initializing''\<rparr>"

text \<open>One attempt of \<open>HandleSuccess\<close>: the status is set on the object as it is re-read.\<close>

definition success_attempt :: "('r, 'w) cr_api \<Rightarrow> NamespacedName \<Rightarrow> ('r \<Rightarrow> 'r) \<Rightarrow> 'w attempt" where
  "success_attempt api ns set_status w =
     (case cr_Get api ns w of
        (Inl err, w1) \<Rightarrow> Ret (Some err, w1)
      | (Inr cr, w1) \<Rightarrow> Ret (cr_StatusUpdate api (set_status cr) w1))"

definition update_success :: "'w retrier \<Rightarrow> ('r, 'w) cr_api \<Rightarrow> NamespacedName \<Rightarrow> ('r \<Rightarrow> 'r) \<Rightarrow> 'w \<Rightarrow>
    ((Result \<times> goerror option) \<times> 'w) go" where
  "update_success OnError api ns set_status w =
     go_bind (RetryOnConflict OnError (success_attempt api ns set_status) w) (\<lambda>(err, w'). Ret ((zero_result, err), w'))"

text \<open>
  One attempt of \<open>HandleErrorAndRequeue\<close>. The closure assigns the error of the update to the
  variable \<open>err\<close> of the surrounding function, so that variable is part of the state that the
  attempts share, with the events that are recorded.
\<close>

type_synonym 'w error_state = "goerror option \<times> 'w \<times> report list"

definition error_attempt :: "('r, 'w) cr_api \<Rightarrow> NamespacedName \<Rightarrow> (goerror \<Rightarrow> 'r \<Rightarrow> 'r) \<Rightarrow> 'w error_state attempt" where
  "error_attempt api ns set_status = (\<lambda>(err, w, out).
     (case cr_Get api ns w of
        (Inl e, w1) \<Rightarrow> Ret (Some e, (err, w1, out))
      | (Inr cr, w1) \<Rightarrow>
          (case err of
             None \<Rightarrow> Panics ''nil pointer dereference''
           | Some e \<Rightarrow>
               (case cr_StatusUpdate api (set_status e cr) w1 of
                  (None, w2) \<Rightarrow> Ret (None, (None, w2, out))
                | (Some e', w2) \<Rightarrow>
                    Ret (Some e', (Some e', w2, out @ [Recorded ''Warning'' ''ProcessingError'' (ErrorText e')]))))))"

definition update_error :: "'w error_state retrier \<Rightarrow> ('r, 'w) cr_api \<Rightarrow> NamespacedName \<Rightarrow> (goerror \<Rightarrow> 'r \<Rightarrow> 'r) \<Rightarrow>
    goerror \<Rightarrow> int \<Rightarrow> 'w \<Rightarrow> ((Result \<times> goerror option) \<times> 'w) go" where
  "update_error OnError api ns set_status err requeueAfter w =
     go_bind (RetryOnConflict OnError (error_attempt api ns set_status) (Some err, w, []))
       (\<lambda>(retryErr, (err', w', out)).
         (case retryErr of
            Some e \<Rightarrow> Ret ((zero_result, Some e), w')
          | None \<Rightarrow> Ret ((\<lparr>re_RequeueAfter = requeueAfter\<rparr>, None), w')))"

text \<open>
  One attempt of \<open>MarkInitializing\<close>: the object is passed by pointer, so the re-read one with
  its new status is part of the state.
\<close>

definition init_attempt :: "('r, 'w) cr_api \<Rightarrow> ('r \<Rightarrow> ObjectMeta) \<Rightarrow> ('r \<Rightarrow> 'r) \<Rightarrow> ('r \<times> 'w) attempt" where
  "init_attempt api meta set_status = (\<lambda>(cr, w).
     (case cr_Get api (meta_name (meta cr)) w of
        (Inl e, w1) \<Rightarrow> Ret (Some e, (cr, w1))
      | (Inr cr1, w1) \<Rightarrow>
          (let cr2 = set_status cr1; (r, w2) = cr_StatusUpdate api cr2 w1 in Ret (r, (cr2, w2)))))"

text \<open>The manager beside the result of a status update.\<close>

definition with_m :: "'m \<Rightarrow> ('a \<times> 'w) go \<Rightarrow> ('a \<times> 'm \<times> 'w) go" where
  "with_m m r = go_bind r (\<lambda>(a, w). Ret (a, m, w))"

section \<open>The loops return\<close>

text \<open>The server returns an object under its own name.\<close>

definition named_api :: "('r \<Rightarrow> ObjectMeta) \<Rightarrow> ('r, 'w) cr_api \<Rightarrow> bool" where
  "named_api meta api \<longleftrightarrow> (\<forall>n w cr w'. cr_Get api n w = (Inr cr, w') \<longrightarrow> meta_name (meta cr) = n)"

lemma named_apiD: "named_api meta api \<Longrightarrow> cr_Get api n w = (Inr cr, w') \<Longrightarrow> meta_name (meta cr) = n"
  unfolding named_api_def by blast

lemma update_success_returns: "retry_contract n OnError \<Longrightarrow> returns (update_success OnError api ns f w)"
proof -
  assume "retry_contract n OnError"
  moreover have "returns (success_attempt api ns f w)" for w
    by (simp add: success_attempt_def split: prod.split sum.split)
  then have "returns (bounded_attempts n IsConflict (success_attempt api ns f) w)"
    by (rule bounded_attempts_returns)
  ultimately show ?thesis
    by (auto simp: update_success_def RetryOnConflict_def retry_contract_def returns_iff)
qed

lemma error_attempt_step:
  "fst s \<noteq> None \<Longrightarrow> \<exists>r s'. error_attempt api ns f s = Ret (r, s') \<and> (r \<noteq> None \<longrightarrow> fst s' \<noteq> None)"
  by (cases s) (auto simp: error_attempt_def split: prod.split sum.split option.split)

lemma update_error_returns:
  assumes "retry_contract n OnError"
  shows "returns (update_error OnError api ns f err after w)"
proof -
  have "returns (bounded_attempts n IsConflict (error_attempt api ns f) (Some err, w, []))"
    by (rule bounded_attempts_returns_inv [where I = "\<lambda>s. fst s \<noteq> None"])
      (simp_all only: fst_conv option.distinct not_False_eq_True error_attempt_step)
  then show ?thesis
    using assms by (auto simp: update_error_def RetryOnConflict_def retry_contract_def returns_iff split: option.split)
qed

lemma with_m_returns: "returns r \<Longrightarrow> \<exists>x. with_m m r = Ret (fst x, m, snd x)"
  by (auto simp: with_m_def returns_iff)

lemma init_attempt_returns: "returns (init_attempt api meta f s)"
  by (cases s) (simp add: init_attempt_def Let_def split_beta split: prod.split sum.split)

lemma init_attempt_name:
  assumes "named_api meta api" and "\<And>cr. meta (f cr) = meta cr" and "init_attempt api meta f s = Ret (r, s')"
  shows "meta_name (meta (fst s')) = meta_name (meta (fst s))"
  using assms(2,3) named_apiD [OF assms(1)]
  by (cases s) (auto simp: init_attempt_def Let_def split: prod.split_asm sum.split_asm)

section \<open>A conflict replaces the reported error\<close>

lemma update_error_conflict:
  assumes "retry_contract (Suc n) OnError" and "cr_Get api ns w = (Inr cr, w1)"
    and "cr_StatusUpdate api (f err cr) w1 = (Some conflict, w2)" and "IsConflict conflict"
    and "cr_Get api ns w2 = (Inr cr', w3)" and "cr_StatusUpdate api (f conflict cr') w3 = (None, w4)"
  shows "update_error OnError api ns f err after w = Ret ((\<lparr>re_RequeueAfter = after\<rparr>, None), w4)"
proof -
  have "error_attempt api ns f (Some err, w, []) =
      Ret (Some conflict, (Some conflict, w2, [Recorded ''Warning'' ''ProcessingError'' (ErrorText conflict)]))"
    using assms(2,3) by (simp add: error_attempt_def)
  moreover have "error_attempt api ns f (Some conflict, w2, out) = Ret (None, (None, w4, out))" for out
    using assms(5,6) by (simp add: error_attempt_def)
  ultimately show ?thesis
    using assms(1,4) bounded_attempts_success [of "error_attempt api ns f"]
    by (simp add: update_error_def RetryOnConflict_def retry_contract_def)
qed

text \<open>The documented effect of \<open>SetStatusCondition\<close>: the list has the condition afterwards.\<close>

definition condition_contract :: "(Condition list \<Rightarrow> Condition \<Rightarrow> Condition list) \<Rightarrow> bool" where
  "condition_contract Set \<longleftrightarrow>
     (\<forall>cs c. \<exists>d \<in> set (Set cs c). co_Type d = co_Type c \<and> co_Status d = co_Status c \<and> co_Reason d = co_Reason c \<and>
        co_Message d = co_Message c \<and> co_ObservedGeneration d = co_ObservedGeneration c)"

lemma condition_contract_error:
  assumes "condition_contract (cr_SetStatusCondition api)"
  shows "\<exists>c \<in> set (cr_SetStatusCondition api cs (error_condition api type meta err)).
    co_Type c = type \<and> co_Status c = co_Status (success_condition api type meta) \<and>
    co_Reason c = co_Reason (success_condition api type meta) \<and> co_Message c = cr_Error api err"
proof -
  obtain d where "d \<in> set (cr_SetStatusCondition api cs (error_condition api type meta err))"
    "co_Type d = type" "co_Status d = ''True''" "co_Reason d = ReasonSucceeded" "co_Message d = cr_Error api err"
    using assms unfolding condition_contract_def error_condition_def by (metis Condition.select_convs(1,2,5,6))
  then show ?thesis
    by (auto simp: success_condition_def)
qed

end
