(* ===== verification/CM_Controller.thy ===== *)
theory CM_Controller
  imports Status_Update Action_Manager
begin

text \<open>
  \<open>controllers/countermeasure/countermeasure_controller.go\<close>: the reconciler of
  countermeasures. It sees the manager only through the interface \<open>Manager[T]\<close>, so the
  operations are an argument; the lemmas about it are proved in the locale of that interface
  and then used for the action manager.
\<close>

section \<open>Status updates\<close>

definition cm_success_status :: "(CounterMeasure, 'w) cr_api \<Rightarrow> ObjectMeta \<Rightarrow> CounterMeasure \<Rightarrow> CounterMeasure" where
  "cm_success_status api objectMeta cm =
     cm\<lparr>cm_Status := (cm_Status cm)\<lparr>
          cx_Conditions := cr_SetStatusCondition api (cx_Conditions (cm_Status cm)) (success_condition api TypeMonitoring objectMeta),
          cx_LastStatus := Monitoring, cx_LastStatusChangeTime := Some (cr_Now api)\<rparr>\<rparr>"

definition HandleSuccess :: "'w retrier \<Rightarrow> (CounterMeasure, 'w) cr_api \<Rightarrow> ObjectMeta \<Rightarrow> 'w \<Rightarrow> ((Result \<times> goerror option) \<times> 'w) go" where
  "HandleSuccess OnError api objectMeta w =
     update_success OnError api \<lparr>nn_Namespace = om_Namespace objectMeta, nn_Name = om_Name objectMeta\<rparr>
       (cm_success_status api objectMeta) w"

definition cm_error_status :: "(CounterMeasure, 'w) cr_api \<Rightarrow> ObjectMeta \<Rightarrow> goerror \<Rightarrow> CounterMeasure \<Rightarrow> CounterMeasure" where
  "cm_error_status api objectMeta err cm =
     cm\<lparr>cm_Status := (cm_Status cm)\<lparr>
          cx_Conditions := cr_SetStatusCondition api (cx_Conditions (cm_Status cm)) (error_condition api TypeMonitoring objectMeta err),
          cx_LastStatus := StatusError, cx_LastStatusChangeTime := Some (cr_Now api)\<rparr>\<rparr>"

definition HandleErrorAndRequeue :: "'w error_state retrier \<Rightarrow> (CounterMeasure, 'w) cr_api \<Rightarrow> ObjectMeta \<Rightarrow> goerror \<Rightarrow> int \<Rightarrow>
    'w \<Rightarrow> ((Result \<times> goerror option) \<times> 'w) go" where
  "HandleErrorAndRequeue OnError api objectMeta err requeueAfter w =
     update_error OnError api \<lparr>nn_Namespace = om_Namespace objectMeta, nn_Name = om_Name objectMeta\<rparr>
       (cm_error_status api objectMeta) err requeueAfter w"

definition cm_initial_status :: "(CounterMeasure, 'w) cr_api \<Rightarrow> CounterMeasure \<Rightarrow> CounterMeasure" where
  "cm_initial_status api cm =
     cm\<lparr>cm_Status := (cm_Status cm)\<lparr>
          cx_Conditions := cr_SetStatusCondition api (cx_Conditions (cm_Status cm)) (initial_condition TypeMonitoring (cm_ObjectMeta cm)),
          cx_LastStatus := StatusUnknown, cx_LastStatusChangeTime := Some (cr_Now api)\<rparr>\<rparr>"

definition MarkInitializing :: "(CounterMeasure \<times> 'w) retrier \<Rightarrow> (CounterMeasure, 'w) cr_api \<Rightarrow> CounterMeasure \<Rightarrow> 'w \<Rightarrow>
    (goerror option \<times> (CounterMeasure \<times> 'w)) go" where
  "MarkInitializing OnError api cm w =
     (if length (cx_Conditions (cm_Status cm)) = 0
      then RetryOnConflict OnError (init_attempt api cm_ObjectMeta (cm_initial_status api)) (cm, w)
      else Ret (None, (cm, w)))"

section \<open>Reconcile\<close>

text \<open>The three retriers are \<open>retry.OnError\<close> at the three types of state it is used with.\<close>

record 'w retriers =
  rt_success :: "'w retrier"
  rt_error :: "'w error_state retrier"
  rt_init :: "(CounterMeasure \<times> 'w) retrier"

definition isValid :: "(goerror list \<Rightarrow> goerror option) \<Rightarrow> CounterMeasure \<Rightarrow> bool \<times> goerror option" where
  "isValid NewAggregate cm = (let err = ValidateSpec NewAggregate (cm_Spec cm) in (err = None, err))"

definition Reconcile :: "'w retriers \<Rightarrow> (CounterMeasure, 'w) cr_api \<Rightarrow> (goerror list \<Rightarrow> goerror option) \<Rightarrow>
    ('m, CounterMeasure) manager_ops \<Rightarrow> NamespacedName \<Rightarrow> 'm \<times> 'w \<Rightarrow> ((Result \<times> goerror option) \<times> 'm \<times> 'w) go" where
  "Reconcile rt api NewAggregate ops req = (\<lambda>(m, w).
     (case cr_Get api req w of
        (Inl err, w1) \<Rightarrow>
          if IsNotFound err
          then go_bind (mo_Remove ops req m) (\<lambda>(e, m'). Ret ((zero_result, None), m', w1))
          else Ret ((zero_result, Some err), m, w1)
      | (Inr cr, w1) \<Rightarrow>
          if mo_Exists ops (cm_ObjectMeta cr) m
          then with_m m (HandleSuccess (rt_success rt) api (cm_ObjectMeta cr) w1)
          else go_bind (MarkInitializing (rt_init rt) api cr w1) (\<lambda>(err, cr', w2).
             (case err of
                Some e \<Rightarrow> Ret ((zero_result, Some e), m, w2)
              | None \<Rightarrow>
                  (case isValid NewAggregate cr' of
                     (False, Some e) \<Rightarrow>
                       with_m m (base_HandleError (HandleErrorAndRequeue (rt_error rt) api) (cm_ObjectMeta cr') e w2)
                   | _ \<Rightarrow>
                       go_bind (mo_Add ops cr' m) (\<lambda>(err, m').
                         (case err of
                            Some e \<Rightarrow>
                              with_m m' (base_HandleError (HandleErrorAndRequeue (rt_error rt) api) (cm_ObjectMeta cr') e w2)
                          | None \<Rightarrow> with_m m' (HandleSuccess (rt_success rt) api (cm_ObjectMeta cr') w2))))))))"

section \<open>The reconciler over the manager interface\<close>

definition retriers_contract :: "nat \<Rightarrow> 'w retriers \<Rightarrow> bool" where
  "retriers_contract n rt \<longleftrightarrow>
     retry_contract n (rt_success rt) \<and> retry_contract n (rt_error rt) \<and> retry_contract n (rt_init rt)"

lemma MarkInitializing_result:
  assumes "retry_contract n OnError" and "named_api cm_ObjectMeta api"
  obtains r cm' w' where "MarkInitializing OnError api cm w = Ret (r, cm', w')"
    and "meta_name (cm_ObjectMeta cm') = meta_name (cm_ObjectMeta cm)"
proof -
  let ?f = "init_attempt api cm_ObjectMeta (cm_initial_status api)"
  have "returns (MarkInitializing OnError api cm w)"
    using assms(1) bounded_attempts_returns [of ?f, OF init_attempt_returns]
    by (auto simp: MarkInitializing_def RetryOnConflict_def retry_contract_def)
  then obtain r cm' w' where res: "MarkInitializing OnError api cm w = Ret (r, cm', w')"
    by (auto simp: returns_iff)
  have "meta_name (cm_ObjectMeta cm') = meta_name (cm_ObjectMeta cm)"
  proof (cases "length (cx_Conditions (cm_Status cm)) = 0")
    case True
    then have "bounded_attempts n IsConflict ?f (cm, w) = Ret (r, cm', w')"
      using res assms(1) by (simp add: MarkInitializing_def RetryOnConflict_def retry_contract_def)
    from bounded_attempts_invar [OF this, where I = "\<lambda>s. meta_name (cm_ObjectMeta (fst s)) = meta_name (cm_ObjectMeta cm)"
        and Q = "\<lambda>r s. True"] init_attempt_name [OF assms(2), of "cm_initial_status api"]
    show ?thesis by (auto simp: cm_initial_status_def)
  next
    case False
    then show ?thesis
      using res by (simp add: MarkInitializing_def)
  qed
  with res that show ?thesis by blast
qed

lemma HandleSuccess_returns: "retry_contract n OnError \<Longrightarrow> returns (HandleSuccess OnError api meta w)"
  unfolding HandleSuccess_def by (rule update_success_returns)

lemma HandleErrorAndRequeue_returns: "retry_contract n OnError \<Longrightarrow> returns (HandleErrorAndRequeue OnError api meta err after w)"
  unfolding HandleErrorAndRequeue_def by (rule update_error_returns)

locale cm_manager = object_manager add remove present cm_ObjectMeta invar
  for add :: "CounterMeasure \<Rightarrow> 'm \<Rightarrow> (goerror option \<times> 'm) go"
    and remove :: "NamespacedName \<Rightarrow> 'm \<Rightarrow> (goerror option \<times> 'm) go"
    and present :: "ObjectMeta \<Rightarrow> 'm \<Rightarrow> bool"
    and invar :: "'m \<Rightarrow> bool"
begin

lemma reconcile_not_found:
  assumes "invar m" and "cr_Get api req w = (Inl e, w1)" and "IsNotFound e"
  shows "\<exists>m'. Reconcile rt api A \<lparr>mo_Add = add, mo_Remove = remove, mo_Exists = present\<rparr> req (m, w) =
      Ret ((zero_result, None), m', w1) \<and> remove req m = Ret (None, m') \<and> invar m'"
  using remove_returns [OF assms(1), of req] assms(2,3) by (auto simp: Reconcile_def)

lemma reconcile_present:
  assumes "retriers_contract n rt" and "cr_Get api req w = (Inr cr, w1)" and "present (cm_ObjectMeta cr) m"
  shows "\<exists>res w'. Reconcile rt api A \<lparr>mo_Add = add, mo_Remove = remove, mo_Exists = present\<rparr> req (m, w) = Ret (res, m, w')"
  using assms HandleSuccess_returns [of n "rt_success rt" api "cm_ObjectMeta cr" w1]
  by (auto simp: Reconcile_def with_m_def retriers_contract_def returns_iff)

lemma reconcile_absent:
  assumes "invar m" and "retriers_contract n rt" and "named_api cm_ObjectMeta api" and "aggregate_contract A"
    and "cr_Get api req w = (Inr cr, w1)" and "\<not> present (cm_ObjectMeta cr) m"
  shows "\<exists>res m' w'. Reconcile rt api A \<lparr>mo_Add = add, mo_Remove = remove, mo_Exists = present\<rparr> req (m, w) = Ret (res, m', w') \<and>
    (m' = m \<or> (\<exists>cm. add cm m = Ret (None, m') \<and> ValidateSpec A (cm_Spec cm) = None \<and> meta_name (cm_ObjectMeta cm) = req))"
proof -
  obtain r cr' w2 where mark: "MarkInitializing (rt_init rt) api cr w1 = Ret (r, cr', w2)"
    and name: "meta_name (cm_ObjectMeta cr') = req"
    using MarkInitializing_result [of n "rt_init rt" api cr w1] assms(2,3) named_apiD [OF assms(3,5)]
    unfolding retriers_contract_def by metis
  have ok: "\<exists>x. with_m m' (HandleSuccess (rt_success rt) api (cm_ObjectMeta cr') w2) = Ret (fst x, m', snd x)" for m' :: 'm
    using HandleSuccess_returns [of n "rt_success rt" api "cm_ObjectMeta cr'" w2] assms(2)
    by (auto simp: retriers_contract_def returns_iff with_m_def)
  have failed: "\<exists>x. with_m m' (base_HandleError (HandleErrorAndRequeue (rt_error rt) api) (cm_ObjectMeta cr') e w2) = Ret (fst x, m', snd x)"
    for m' :: 'm and e
    using HandleErrorAndRequeue_returns [of n "rt_error rt" api "cm_ObjectMeta cr'" e 0 w2] assms(2)
    by (auto simp: retriers_contract_def returns_iff with_m_def base_HandleError_def)
  obtain ra m1 where add: "add cr' m = Ret (ra, m1)"
    using add_returns [OF assms(1)] by blast
  show ?thesis
  proof (cases r)
    case (Some e)
    then show ?thesis
      using assms(5,6) mark by (simp add: Reconcile_def)
  next
    case None
    show ?thesis
    proof (cases "ValidateSpec A (cm_Spec cr')")
      case (Some e)
      then show ?thesis
        using assms(5,6) mark None failed [of m e] by (auto simp: Reconcile_def isValid_def Let_def)
    next
      case valid: None
      show ?thesis
      proof (cases ra)
        case (Some e)
        then have "m1 = m"
          using add_failed [OF assms(1)] add by simp
        then show ?thesis
          using assms(5,6) mark None valid add Some failed [of m e] by (auto simp: Reconcile_def isValid_def Let_def)
      next
        case added: None
        then show ?thesis
          using assms(5,6) mark None valid add name ok [of m1] by (auto simp: Reconcile_def isValid_def Let_def)
      qed
    qed
  qed
qed

end

interpretation reconciled: cm_manager "manager_Add asSelector List now" manager_Remove manager_Exists manager_inv
  for asSelector :: "LabelSelector \<Rightarrow> goerror + 'sel" and List now
  by unfold_locales

section \<open>Reconciling with the action manager\<close>

text \<open>The operations of the action manager as the reconciler holds them.\<close>

definition action_manager_ops :: "(LabelSelector \<Rightarrow> goerror + 'sel) \<Rightarrow> ('sel \<Rightarrow> goerror option) \<Rightarrow> string \<Rightarrow>
    (('q, 'w) Manager, CounterMeasure) manager_ops" where
  "action_manager_ops asSelector List now =
     \<lparr>mo_Add = manager_Add asSelector List now, mo_Remove = manager_Remove, mo_Exists = manager_Exists\<rparr>"

lemma present_iff_deployed: "manager_inv m \<Longrightarrow> manager_Exists obj m \<longleftrightarrow> deployed (am_state m) (meta_name obj) \<noteq> None"
  using manager_invD(4) [of m] unfolding manager_Exists_iff by metis

lemma deployed_after_Add:
  "manager_inv m \<Longrightarrow> manager_Add asSelector List now cm m = Ret (None, m') \<Longrightarrow>
   deployed (am_state m') = (deployed (am_state m))(meta_name (cm_ObjectMeta cm) \<mapsto> cm)"
  by (auto simp: manager_Add_cases added_def Let_def deployed_Add manager_invD(2) split: option.split_asm)

lemma deployed_after_Remove:
  "manager_inv m \<Longrightarrow> manager_Remove n m = Ret (r, m') \<Longrightarrow> deployed (am_state m') = (deployed (am_state m))(n := None)"
  using manager_Remove_Ret [of m n] deployed_Remove [OF manager_invD(2), of m n] by auto

lemma Reconcile_absent_effect:
  fixes m :: "('q, 'w) Manager"
  assumes "manager_inv m" and "retriers_contract n rt" and "named_api cm_ObjectMeta api" and "aggregate_contract A"
    and get: "cr_Get api req w = (Inr cr, w1)" and absent: "\<not> manager_Exists (cm_ObjectMeta cr) m"
  shows "\<exists>res m' w'. Reconcile rt api A (action_manager_ops asSelector List now) req (m, w) = Ret (res, m', w') \<and>
    manager_inv m' \<and> (m' = m \<or> (\<exists>cm. deployed (am_state m) req = None \<and> valid_spec (cm_Spec cm) \<and>
        deployed (am_state m') = (deployed (am_state m))(req \<mapsto> cm)))"
proof -
  have free: "deployed (am_state m) req = None"
    using absent present_iff_deployed [OF assms(1)] named_apiD [OF assms(3) get] by auto
  obtain res m' w' where rec: "Reconcile rt api A (action_manager_ops asSelector List now) req (m, w) = Ret (res, m', w')"
    and alt: "m' = m \<or> (\<exists>cm. manager_Add asSelector List now cm m = Ret (None, m') \<and>
      ValidateSpec A (cm_Spec cm) = None \<and> meta_name (cm_ObjectMeta cm) = req)"
    using reconciled.reconcile_absent [OF assms(1-4) get absent] unfolding action_manager_ops_def by blast
  from alt show ?thesis
  proof
    assume "m' = m"
    with rec assms(1) show ?thesis by blast
  next
    assume "\<exists>cm. manager_Add asSelector List now cm m = Ret (None, m') \<and>
      ValidateSpec A (cm_Spec cm) = None \<and> meta_name (cm_ObjectMeta cm) = req"
    then obtain cm where cm: "manager_Add asSelector List now cm m = Ret (None, m')"
      "ValidateSpec A (cm_Spec cm) = None" "meta_name (cm_ObjectMeta cm) = req"
      by blast
    have "valid_spec (cm_Spec cm)"
      using cm(2) assms(4) by (simp add: ValidateSpec_None)
    moreover have "manager_inv m'"
      using action_manager.add_returns [OF assms(1), of asSelector List now cm] cm(1) by auto
    ultimately show ?thesis
      using rec free deployed_after_Add [OF assms(1) cm(1)] cm(3) by metis
  qed
qed

text \<open>A concrete server: the world is the list of stored resources.\<close>

definition demo_cr_api :: "(CounterMeasure, CounterMeasure list) cr_api" where
  "demo_cr_api =
     \<lparr>cr_Get = (\<lambda>n w. (case find (\<lambda>cm. meta_name (cm_ObjectMeta cm) = n) w of None \<Rightarrow> Inl (NotFound ''cm'') | Some cm \<Rightarrow> Inr cm, w)),
      cr_StatusUpdate = (\<lambda>cm w. (None, map (\<lambda>c. if meta_name (cm_ObjectMeta c) = meta_name (cm_ObjectMeta cm) then cm else c) w)),
      cr_Error = (\<lambda>e. ''error''),
      cr_SetStatusCondition = (\<lambda>cs c. filter (\<lambda>d. co_Type d \<noteq> co_Type c) cs @ [c]),
      cr_Now = 0\<rparr>"

lemma demo_named: "named_api cm_ObjectMeta demo_cr_api"
  by (auto simp: named_api_def demo_cr_api_def find_Some_iff split: option.split_asm)

definition demo_retriers :: "'w retriers" where
  "demo_retriers = \<lparr>rt_success = bounded_attempts 3, rt_error = bounded_attempts 3, rt_init = bounded_attempts 3\<rparr>"

lemma demo_retriers_contract: "retriers_contract 3 demo_retriers"
  by (simp add: retriers_contract_def demo_retriers_def)

text \<open>C8:
  Reconciling is safe: from any consistent manager it returns without a panic and leaves a
  consistent manager, and it changes the deployed countermeasures in three ways only: not at
  all; by removing the requested name, when the server says the resource is gone; or by
  deploying a resource that passes validation under the requested name, when nothing was
  deployed under it.
\<close>

theorem Reconcile_effect:
  fixes m :: "('q, 'w) Manager"
  assumes "manager_inv m" and "retriers_contract n rt" and "named_api cm_ObjectMeta api" and "aggregate_contract NewAggregate"
  shows "\<exists>res m' w'. Reconcile rt api NewAggregate (action_manager_ops asSelector List now) req (m, w) = Ret (res, m', w') \<and>
    manager_inv m' \<and>
    (m' = m \<or>
     (\<exists>e w1. cr_Get api req w = (Inl e, w1) \<and> IsNotFound e) \<and> deployed (am_state m') = (deployed (am_state m))(req := None) \<or>
     (\<exists>cm. deployed (am_state m) req = None \<and> valid_spec (cm_Spec cm) \<and>
        deployed (am_state m') = (deployed (am_state m))(req \<mapsto> cm)))"
proof (cases "cr_Get api req w")
  case (Pair ans w1)
  show ?thesis
  proof (cases ans)
    case (Inl e)
    with Pair have get: "cr_Get api req w = (Inl e, w1)" by simp
    show ?thesis
    proof (cases "IsNotFound e")
      case True
      from reconciled.reconcile_not_found [OF assms(1) get True] obtain m' where
        "Reconcile rt api NewAggregate (action_manager_ops asSelector List now) req (m, w) = Ret ((zero_result, None), m', w1)"
        "manager_Remove req m = Ret (None, m')" "manager_inv m'"
        unfolding action_manager_ops_def by blast
      then show ?thesis
        using deployed_after_Remove [OF assms(1)] get True by blast
    next
      case False
      then show ?thesis
        using get assms(1) by (simp add: Reconcile_def)
    qed
  next
    case (Inr cr)
    with Pair have get: "cr_Get api req w = (Inr cr, w1)" by simp
    show ?thesis
    proof (cases "manager_Exists (cm_ObjectMeta cr) m")
      case True
      then show ?thesis
        using reconciled.reconcile_present [OF assms(2) get True] assms(1) unfolding action_manager_ops_def by blast
    next
      case False
      then show ?thesis
        using Reconcile_absent_effect [OF assms get False, of asSelector List now] by blast
    qed
  qed
qed

theorem Reconcile_effect_witness:
  "\<exists>res m' w'. Reconcile demo_retriers demo_cr_api plain_aggregate (action_manager_ops (\<lambda>ls. Inr ls) (\<lambda>ls. None) ''t'')
      (meta_name (cm_ObjectMeta sample_cm)) (demo_manager, [sample_cm]) = Ret (res, m', w') \<and> manager_inv m'"
  using Reconcile_effect [where asSelector = "\<lambda>ls. Inr ls" and List = "\<lambda>ls. None" and now = "''t''" and w = "[sample_cm]"
      and req = "meta_name (cm_ObjectMeta sample_cm)", OF demo_manager_inv demo_retriers_contract demo_named plain_aggregate_contract]
  by blast

text \<open>
  A changed countermeasure is not picked up: once a name is deployed, reconciling it leaves
  the manager as it is, whatever the spec and the generation are that the server returns, so
  the old spec stays in force until the resource is deleted.
\<close>

lemma Reconcile_ignores_updates:
  fixes m :: "('q, 'w) Manager"
  assumes "manager_inv m" and "retriers_contract n rt" and "cr_Get api req w = (Inr cr, w1)"
    and "meta_name (cm_ObjectMeta cr) = req" and "deployed (am_state m) req = Some old"
  shows "\<exists>res w'. Reconcile rt api NewAggregate (action_manager_ops asSelector List now) req (m, w) = Ret (res, m, w') \<and>
    deployed (am_state m) req = Some old"
proof -
  have "manager_Exists (cm_ObjectMeta cr) m"
    using assms by (simp add: present_iff_deployed)
  then show ?thesis
    using reconciled.reconcile_present [OF assms(2,3)] assms(5) unfolding action_manager_ops_def by blast
qed

section \<open>The status after an error\<close>

text \<open>
  A failed reconciliation is reported with the condition of a successful one: the status
  that is written has the last status \<open>Error\<close>, but its condition says \<open>Monitoring\<close>, status
  true, reason \<open>Succeeded\<close>, exactly as after a success; only the message tells the error.
  When the first update meets a conflict, the retried update carries the text of the conflict
  instead of the error that was to be reported.
\<close>

lemma error_status_looks_successful:
  assumes "condition_contract (cr_SetStatusCondition api)" and "retry_contract (Suc n) OnError"
    and "cr_Get api (meta_name meta) w = (Inr cm, w1)"
    and "cr_StatusUpdate api (cm_error_status api meta err cm) w1 = (Some conflict, w2)" and "IsConflict conflict"
    and "cr_Get api (meta_name meta) w2 = (Inr cm', w3)"
    and "cr_StatusUpdate api (cm_error_status api meta conflict cm') w3 = (None, w4)"
  shows "HandleErrorAndRequeue OnError api meta err after w = Ret ((\<lparr>re_RequeueAfter = after\<rparr>, None), w4) \<and>
    cx_LastStatus (cm_Status (cm_error_status api meta conflict cm')) = StatusError \<and>
    (\<exists>c \<in> set (cx_Conditions (cm_Status (cm_error_status api meta conflict cm'))).
       co_Type c = TypeMonitoring \<and> co_Status c = co_Status (success_condition api TypeMonitoring meta) \<and>
       co_Reason c = co_Reason (success_condition api TypeMonitoring meta) \<and> co_Message c = cr_Error api conflict)"
proof -
  have "HandleErrorAndRequeue OnError api meta err after w = Ret ((\<lparr>re_RequeueAfter = after\<rparr>, None), w4)"
    unfolding HandleErrorAndRequeue_def meta_name_def [symmetric] by (rule update_error_conflict [OF assms(2-7)])
  then show ?thesis
    using condition_contract_error [OF assms(1), of "cx_Conditions (cm_Status cm')" TypeMonitoring meta conflict]
    by (simp add: cm_error_status_def)
qed

end
