(* ===== verification/Whole_Operator.thy ===== *)
theory Whole_Operator
  imports Operator_System CM_Controller
begin

text \<open>
  The operator as one system: the composed system of bus, action manager and goroutines
  (theory Operator_System), the producer manager with its polling goroutines (theory
  Producer_Concurrency), and the reconciler of countermeasures
  (\<open>controllers/countermeasure/countermeasure_controller.go\<close>) with the API server, each step
  of which interleaves with everything else.
\<close>

section \<open>Reconciling step by step\<close>

text \<open>
  Where \<open>Reconcile\<close> is. \<open>RcCall ls pc\<close> is inside a call of the manager with the critical
  sections \<open>ls\<close> to come, after which it goes on at \<open>pc\<close>.
\<close>

datatype reconcile_pc =
    RcIdle
  | RcGet NamespacedName
  | RcExists CounterMeasure
  | RcInit CounterMeasure
  | RcValidate CounterMeasure
  | RcAdd CounterMeasure
  | RcCall "label list" reconcile_pc
  | RcSuccess ObjectMeta
  | RcError ObjectMeta goerror
  | RcReturn "Result \<times> goerror option"

text \<open>What the reconciler uses beside its manager; listing the event sources reads the server.\<close>

record ('x, 'sel) reconcile_env =
  rv_retriers :: "'x retriers"
  rv_api :: "(CounterMeasure, 'x) cr_api"
  rv_NewAggregate :: "goerror list \<Rightarrow> goerror option"
  rv_AsSelector :: "LabelSelector \<Rightarrow> goerror + 'sel"
  rv_List :: "'x \<Rightarrow> 'sel \<Rightarrow> goerror option"

text \<open>
  The steps that change neither the manager nor the bus; \<open>None\<close> where it takes no such step. A
  status update with its retries is one step here, since it does not touch the state that the
  reconciler shares with the goroutines; other clients of the API server act between the steps.
\<close>

fun rc_local :: "('x, 'sel) reconcile_env \<Rightarrow> string \<Rightarrow> ('q, 'w) Manager \<Rightarrow> reconcile_pc \<Rightarrow> 'x \<Rightarrow> (reconcile_pc \<times> 'x) go option" where
  "rc_local re now m (RcGet req) w =
     Some (case cr_Get (rv_api re) req w of
             (Inl err, w1) \<Rightarrow>
               Ret (if IsNotFound err then RcCall [LRemove req, LForget] (RcReturn (zero_result, None))
                    else RcReturn (zero_result, Some err), w1)
           | (Inr cr, w1) \<Rightarrow> Ret (RcExists cr, w1))"
| "rc_local re now m (RcExists cr) w =
     Some (Ret (if manager_Exists (cm_ObjectMeta cr) m then RcSuccess (cm_ObjectMeta cr) else RcInit cr, w))"
| "rc_local re now m (RcInit cr) w =
     Some (go_bind (MarkInitializing (rt_init (rv_retriers re)) (rv_api re) cr w) (\<lambda>(err, cr', w').
       Ret (case err of Some e \<Rightarrow> RcReturn (zero_result, Some e) | None \<Rightarrow> RcValidate cr', w')))"
| "rc_local re now m (RcValidate cr) w =
     Some (Ret (case isValid (rv_NewAggregate re) cr of
                  (False, Some e) \<Rightarrow> RcError (cm_ObjectMeta cr) e
                | _ \<Rightarrow> RcAdd cr, w))"
| "rc_local re now m (RcAdd cr) w =
     Some (Ret (case resolve_sources (rv_AsSelector re) (rv_List re w) (cs_OnEvent (cm_Spec cr)) of
                  Some e \<Rightarrow> RcError (cm_ObjectMeta cr) e
                | None \<Rightarrow> RcCall [LSubscribe now cr, LInstall, LInsert] (RcSuccess (cm_ObjectMeta cr)), w))"
| "rc_local re now m (RcSuccess meta) w =
     Some (go_bind (HandleSuccess (rt_success (rv_retriers re)) (rv_api re) meta w) (\<lambda>(res, w'). Ret (RcReturn res, w')))"
| "rc_local re now m (RcError meta e) w =
     Some (go_bind (base_HandleError (HandleErrorAndRequeue (rt_error (rv_retriers re)) (rv_api re)) meta e w)
       (\<lambda>(res, w'). Ret (RcReturn res, w')))"
| "rc_local re now m _ w = None"

definition after_call :: "label list \<Rightarrow> reconcile_pc \<Rightarrow> reconcile_pc" where
  "after_call ls pc = (case ls of [] \<Rightarrow> pc | _ \<Rightarrow> RcCall ls pc)"

section \<open>The whole operator\<close>

record ('q, 'w, 'x, 'y, 'api) operator =
  wo_op :: "('q, 'w) op_sys"
  wo_producers :: "('q, 'y, 'api) pm_sys"
  wo_pc :: reconcile_pc
  wo_server :: 'x
  wo_panicked :: bool \<comment> \<open>the reconciler has panicked\<close>

definition up :: "('q, 'w, 'x, 'y, 'api) operator \<Rightarrow> bool" where
  "up s \<longleftrightarrow> alive (wo_op s) \<and> \<not> wo_panicked s"

text \<open>
  The producers publish on the bus that the action manager uses; the calls that the
  reconciler of event sources makes are among the labels of \<open>pm_do\<close>. One reconciliation of
  countermeasures runs at a time. Other clients change what the API server holds at any time.
\<close>

definition publishing :: "('q, 'w, 'x, 'y, 'api) operator \<Rightarrow> ('q, 'y, 'api) pm_sys" where
  "publishing s = (wo_producers s)\<lparr>py_bus := bs_bus (bus_view (wo_op s))\<rparr>"

inductive wo_step :: "'q workqueue_ops \<Rightarrow> ('q \<Rightarrow> bool) \<Rightarrow> 'w cluster retrier \<Rightarrow> 'w env \<Rightarrow> ('x, 'sel) reconcile_env \<Rightarrow>
    ('api \<Rightarrow> 'y \<Rightarrow> (goerror + Alert list) \<times> 'y) \<Rightarrow> 'q EventBus retrier \<Rightarrow>
    ('q, 'w, 'x, 'y, 'api) operator \<Rightarrow> ('q, 'w, 'x, 'y, 'api) operator \<Rightarrow> bool"
    for wq finished OnError env re Alerts Retry where
  bus: "up s \<Longrightarrow> bus_internal wq finished (bus_view (wo_op s)) v \<Longrightarrow>
    wo_step wq finished OnError env re Alerts Retry s (s\<lparr>wo_op := with_view v (wo_op s)\<rparr>)"
| producers: "up s \<Longrightarrow> pm_do Alerts Retry wq l (publishing s) = Some t \<Longrightarrow>
    wo_step wq finished OnError env re Alerts Retry s
      (s\<lparr>wo_op := with_view (set_bus (py_bus t) (bus_view (wo_op s))) (wo_op s), wo_producers := t\<rparr>)"
| goroutine: "up s \<Longrightarrow> handler_of l \<noteq> None \<Longrightarrow> am_do OnError env l (os_am (wo_op s)) = Some am \<Longrightarrow>
    wo_step wq finished OnError env re Alerts Retry s (s\<lparr>wo_op := (wo_op s)\<lparr>os_am := am\<rparr>\<rparr>)"
| request: "up s \<Longrightarrow> wo_pc s = RcIdle \<Longrightarrow> wo_step wq finished OnError env re Alerts Retry s (s\<lparr>wo_pc := RcGet req\<rparr>)"
| local: "up s \<Longrightarrow> rc_local re now (sy_manager (os_am (wo_op s))) (wo_pc s) (wo_server s) = Some (Ret (pc, w)) \<Longrightarrow>
    wo_step wq finished OnError env re Alerts Retry s (s\<lparr>wo_pc := pc, wo_server := w\<rparr>)"
| local_panic: "up s \<Longrightarrow> rc_local re now (sy_manager (os_am (wo_op s))) (wo_pc s) (wo_server s) = Some (Panics p) \<Longrightarrow>
    wo_step wq finished OnError env re Alerts Retry s (s\<lparr>wo_panicked := True\<rparr>)"
| call: "up s \<Longrightarrow> wo_pc s = RcCall (l # ls) pc \<Longrightarrow> lock_free l (wo_op s) \<Longrightarrow> am_do OnError env l (os_am (wo_op s)) = Some am \<Longrightarrow>
    wo_step wq finished OnError env re Alerts Retry s (s\<lparr>wo_op := manager_moves l am (wo_op s), wo_pc := after_call ls pc\<rparr>)"
| call_panic: "up s \<Longrightarrow> wo_pc s = RcCall (LRemove name # ls) pc \<Longrightarrow> lock_free (LRemove name) (wo_op s) \<Longrightarrow>
    sy_reconciler (os_am (wo_op s)) = RIdle \<Longrightarrow> drop_consumer name (sy_manager (os_am (wo_op s))) = Panics p \<Longrightarrow>
    wo_step wq finished OnError env re Alerts Retry s (s\<lparr>wo_op := (wo_op s)\<lparr>os_bus_crashed := True\<rparr>\<rparr>)"
| return: "up s \<Longrightarrow> wo_pc s = RcReturn res \<Longrightarrow> wo_step wq finished OnError env re Alerts Retry s (s\<lparr>wo_pc := RcIdle\<rparr>)"
| server: "wo_step wq finished OnError env re Alerts Retry s (s\<lparr>wo_server := w\<rparr>)"

text \<open>The bus and the managers as \<open>main\<close> wires them, with the workers of the bus started.\<close>

definition wo_init :: "nat \<Rightarrow> 'q \<Rightarrow> 'w cluster \<Rightarrow> 'x \<Rightarrow> 'y \<Rightarrow> ('q, 'w, 'x, 'y, 'api) operator" where
  "wo_init n q cl x y = \<lparr>wo_op = op_init n q cl, wo_producers = pm_init (Start_launch (NewEventBus n q)) y,
     wo_pc = RcIdle, wo_server = x, wo_panicked = False\<rparr>"

inductive wo_reachable :: "'q workqueue_ops \<Rightarrow> ('q \<Rightarrow> bool) \<Rightarrow> 'w cluster retrier \<Rightarrow> 'w env \<Rightarrow> ('x, 'sel) reconcile_env \<Rightarrow>
    ('api \<Rightarrow> 'y \<Rightarrow> (goerror + Alert list) \<times> 'y) \<Rightarrow> 'q EventBus retrier \<Rightarrow> nat \<Rightarrow> 'q \<Rightarrow> 'w cluster \<Rightarrow> 'x \<Rightarrow> 'y \<Rightarrow>
    ('q, 'w, 'x, 'y, 'api) operator \<Rightarrow> bool"
    for wq finished OnError env re Alerts Retry n q cl x y where
  init: "wo_reachable wq finished OnError env re Alerts Retry n q cl x y (wo_init n q cl x y)"
| step: "wo_reachable wq finished OnError env re Alerts Retry n q cl x y s \<Longrightarrow>
    wo_step wq finished OnError env re Alerts Retry s s' \<Longrightarrow> wo_reachable wq finished OnError env re Alerts Retry n q cl x y s'"

section \<open>Its bus and goroutines are those of the composed system\<close>

text \<open>A call of the reconciler takes only the steps of the reconciler, with a resource that satisfies \<open>P\<close>.\<close>

fun call_ok :: "(CounterMeasure \<Rightarrow> bool) \<Rightarrow> label \<Rightarrow> bool" where
  "call_ok P (LSubscribe now cm) = P cm"
| "call_ok P (LSend c e) = False"
| "call_ok P l = (handler_of l = None)"

fun pc_ok :: "(CounterMeasure \<Rightarrow> bool) \<Rightarrow> reconcile_pc \<Rightarrow> bool" where
  "pc_ok P (RcAdd cm) = P cm"
| "pc_ok P (RcCall ls pc) = (list_all (call_ok P) ls \<and> pc_ok P pc)"
| "pc_ok P _ = True"

lemma call_ok_not_send: "call_ok P l \<Longrightarrow> \<not> is_send l"
  by (cases l) simp_all

lemma pc_ok_after_call: "pc_ok P (RcCall (l # ls) pc) \<Longrightarrow> pc_ok P (after_call ls pc)"
  by (auto simp: after_call_def split: list.split)

abbreviation validated :: "('x, 'sel) reconcile_env \<Rightarrow> CounterMeasure \<Rightarrow> bool" where
  "validated re cm \<equiv> ValidateSpec (rv_NewAggregate re) (cm_Spec cm) = None"

lemma pc_ok_local:
  "pc_ok (validated re) pc \<Longrightarrow> rc_local re now m pc w = Some (Ret (pc', w')) \<Longrightarrow> pc_ok (validated re) pc'"
  by (cases pc) (auto simp: isValid_def Let_def elim!: go_bind_RetE split: prod.split_asm sum.split_asm option.split_asm
      bool.split_asm if_split_asm)

lemma handler_starts_nothing: "handler_of l \<noteq> None \<Longrightarrow> manager_moves l am s = s\<lparr>os_am := am\<rparr>"
  by (cases s) (auto simp: started_by_def split: label.split)

lemma pm_inv_publishing: "pm_inv (wo_producers s) \<Longrightarrow> pm_inv (publishing s)"
  by (simp add: publishing_def pm_inv_rest)

lemma publishing_simps [simp]:
  "py_bus (publishing s) = bs_bus (bus_view (wo_op s))" "py_answers (publishing s) = py_answers (wo_producers s)"
  by (simp_all add: publishing_def)

lemma wo_step_op:
  assumes "wo_step wq finished OnError env re Alerts Retry s s'" and "retry_contract k Retry"
    and "op_reachable (from_alert (py_answers (wo_producers s))) wq finished OnError env n q cl (wo_op s)" and "pm_inv (wo_producers s)"
    and "pc_ok P (wo_pc s)"
  shows "op_reachable (from_alert (py_answers (wo_producers s'))) wq finished OnError env n q cl (wo_op s')"
  using assms
proof (induction rule: wo_step.induct)
  case (bus s v)
  then show ?case
    by (auto simp: up_def intro: op_reachable.step [OF _ op_step.bus])
next
  case (producers s l t)
  then show ?case
    using op_reachable_producers [OF _ _ pm_inv_publishing [OF producers(5)] publishing_simps(1) producers(2,3)] producers(4)
    by (simp add: up_def)
next
  case (goroutine s l am)
  then have "op_reachable (from_alert (py_answers (wo_producers s))) wq finished OnError env n q cl (manager_moves l am (wo_op s))"
    by (intro op_reachable.step [OF _ op_step.manager])
      (auto simp: up_def lock_free_def elim: handler_of.elims is_send.elims takes_lock.elims)
  then show ?case
    unfolding handler_starts_nothing [OF goroutine(2)] by simp
next
  case (call s l ls pc am)
  then show ?case
    by (auto simp: up_def dest: call_ok_not_send intro!: op_reachable.step [OF _ op_step.manager])
next
  case (call_panic s name ls pc p)
  then show ?case
    by (auto simp: up_def intro: op_reachable.step [OF _ op_step.remove_panic])
qed simp_all

section \<open>Only validated resources\<close>

text \<open>Every resource that the action state holds or the reconciler is installing satisfies \<open>P\<close>.\<close>

definition vetted :: "(CounterMeasure \<Rightarrow> bool) \<Rightarrow> ('q, 'w) am_sys \<Rightarrow> bool" where
  "vetted P am \<longleftrightarrow> am_ActionRegistry (sy_manager am) = Initialize empty_registry \<and>
     (\<forall>a e. as_entries (am_state (sy_manager am)) a = Some e \<longrightarrow> P (en_Countermeasure e)) \<and>
     (\<forall>cm c. sy_reconciler am = RSubscribed cm c \<or> sy_reconciler am = RInstalling cm c \<longrightarrow> P cm)"

text \<open>The operations of a goroutine leave the resource of every entry as it is.\<close>

definition same_resources :: "ActionState \<Rightarrow> ActionState \<Rightarrow> bool" where
  "same_resources st st' \<longleftrightarrow>
     (\<forall>a. map_option en_Countermeasure (as_entries st' a) = map_option en_Countermeasure (as_entries st a))"

lemma same_resources_refl [simp]: "same_resources st st"
  by (simp add: same_resources_def)

lemma same_resources_entry:
  "as_entries st a = Some e \<Longrightarrow> en_Countermeasure e' = en_Countermeasure e \<Longrightarrow> same_resources st (set_entry a e' st)"
  by (simp add: same_resources_def set_entry_def)

lemma same_resources_handler:
  "on_lookup now k ev st = (pc, st') \<Longrightarrow> same_resources st st'"
  "CounterMeasureStart now ev k st = Ret st' \<Longrightarrow> same_resources st st'"
  "CounterMeasureEnd ev k st = Ret st' \<Longrightarrow> same_resources st st'"
  by (auto simp: on_lookup_def GetCounterMeasure_def CounterMeasureStart_def CounterMeasureEnd_def Let_def entry_at_Some
      clearExpiredLastRuns_def intro!: same_resources_entry split: option.split_asm prod.split_asm)

text \<open>A goroutine also leaves the registry and the reconciler alone.\<close>

lemma handler_step_resources:
  assumes "handler_step OnError env l h s = Some s'"
  shows "same_resources (am_state (sy_manager s)) (am_state (sy_manager s')) \<and> sy_reconciler s' = sy_reconciler s \<and>
    am_ActionRegistry (sy_manager s') = am_ActionRegistry (sy_manager s)"
  using assms
  by (cases "(OnError, env, l, h, s)" rule: handler_step.cases)
    (auto simp: Let_def crashed_def dest: same_resources_handler
      split: if_split_asm recv.split_asm prod.split_asm handler_pc.split_asm option.split_asm go.split_asm)

lemma vetted_same:
  assumes "vetted P am" and "same_resources (am_state (sy_manager am)) (am_state (sy_manager am'))"
    and "sy_reconciler am' = sy_reconciler am" and "am_ActionRegistry (sy_manager am') = am_ActionRegistry (sy_manager am)"
  shows "vetted P am'"
proof -
  have "P (en_Countermeasure e)" if "as_entries (am_state (sy_manager am')) a = Some e" for a e
    using assms(1,2) that unfolding vetted_def same_resources_def by (metis map_option_eq_Some)
  then show ?thesis
    using assms(1,3,4) by (simp add: vetted_def)
qed

lemma vetted_outer:
  assumes "vetted P am" and "outer_step l am = Some am'" and "call_ok P l"
  shows "vetted P am' \<and> list_all P (started_by l am)"
proof (cases l)
  case (LSubscribe now cm)
  then show ?thesis
    using assms by (auto simp: vetted_def Let_def started_by_def split: if_split_asm prod.split_asm)
next
  case LInstall
  then show ?thesis
    using assms by (auto simp: vetted_def Let_def started_by_def state_Remove_def split: reconciler_pc.split_asm)
next
  case LInsert
  then show ?thesis
    using assms by (auto simp: vetted_def Let_def started_by_def state_insert_def new_entry_def split: reconciler_pc.split_asm if_split_asm)
next
  case (LRemove n)
  then show ?thesis
    using assms by (auto simp: vetted_def started_by_def drop_consumer_def elim!: go_bind_RetE
        split: if_split_asm go.split_asm prod.split_asm)
next
  case LForget
  then show ?thesis
    using assms by (auto simp: vetted_def Let_def started_by_def state_Remove_def split: reconciler_pc.split_asm)
qed (use assms in simp_all)

lemma vetted_do:
  assumes "vetted P am" and "am_do OnError env l am = Some am'" and "handler_of l \<noteq> None \<or> call_ok P l"
  shows "vetted P am' \<and> list_all P (started_by l am)"
proof (cases "handler_of l")
  case None
  then show ?thesis
    using assms vetted_outer by (auto simp: am_do_def split: if_split_asm)
next
  case (Some i)
  then have "started_by l am = []"
    by (auto simp: started_by_def split: label.split)
  moreover have "handler_step OnError env l (am_goroutines (sy_manager am) ! i) am = Some am'"
    using Some assms(2) by (simp add: am_do_def split: if_split_asm)
  then have "vetted P am'"
    using vetted_same [OF assms(1)] handler_step_resources by blast
  ultimately show ?thesis
    by simp
qed

text \<open>The runner of a validated resource is built without a panic, if a client can be made for debug actions.\<close>

lemma on_check_returns:
  assumes "aggregate_contract A" and "ValidateSpec A (cm_Spec (en_Countermeasure e)) = None" and "env_NewForConfig env = None"
  shows "on_check env (Initialize empty_registry) now ev e \<noteq> Panics p"
proof -
  let ?ctx = "\<lparr>ctx_env = env, ctx_CounterMeasure = en_Countermeasure e\<rparr>"
  obtain seq where "NewRunner (Initialize empty_registry) ?ctx = Ret (Inr seq)"
    using NewRunner_valid [of ?ctx empty_registry] ValidateSpec_actions [OF assms(1,2)] assms(3) by auto
  then show ?thesis
    by (simp add: on_check_def)
qed

lemma vetted_no_BuildPanic:
  assumes "vetted (\<lambda>cm. ValidateSpec A (cm_Spec cm) = None) am" and "aggregate_contract A" and "env_NewForConfig env = None"
    and "am_do OnError env l am = Some am'"
  shows "sy_crash am' \<noteq> Some BuildPanic"
proof (cases "handler_of l")
  case None
  with assms(4) have "sy_crash am = None" and "outer_step l am = Some am'"
    by (auto simp: am_do_def split: if_split_asm)
  then show ?thesis
    by (cases l) (auto simp: Let_def split: if_split_asm prod.split_asm reconciler_pc.split_asm go.split_asm bool.split_asm)
next
  case (Some i)
  with assms(4) have alive: "sy_crash am = None"
    and step: "handler_step OnError env l (am_goroutines (sy_manager am) ! i) am = Some am'"
    by (auto simp: am_do_def split: if_split_asm)
  have checked: "on_check env (am_ActionRegistry (sy_manager am)) now ev e \<noteq> Panics p"
    if "as_entries (am_state (sy_manager am)) a = Some e" for now ev e a p
    using on_check_returns [OF assms(2) _ assms(3)] assms(1) that by (simp add: vetted_def)
  show ?thesis
    using step alive checked
    by (cases "(OnError, env, l, am_goroutines (sy_manager am) ! i, am)" rule: handler_step.cases)
      (auto simp: Let_def crashed_def split: if_split_asm recv.split_asm prod.split_asm handler_pc.split_asm option.split_asm go.split_asm)
qed

lemma vetted_init: "vetted P (os_am (op_init n q cl))"
  by (simp add: vetted_def op_init_def am_init_def NewFromManager_def NewState_def)

lemma vetted_view [simp]: "vetted P (os_am (with_view v s)) = vetted P (os_am s)"
  by (simp add: vetted_def with_view_def)

section \<open>The reconciler does not panic\<close>

lemma MarkInitializing_returns: "retry_contract n OnError \<Longrightarrow> returns (MarkInitializing OnError api cr w)"
  using bounded_attempts_returns [of "init_attempt api cm_ObjectMeta (cm_initial_status api)", OF init_attempt_returns]
  by (auto simp: MarkInitializing_def RetryOnConflict_def retry_contract_def)

lemma rc_local_returns:
  assumes "retriers_contract n (rv_retriers re)" and "rc_local re now m pc w = Some r"
  shows "returns r"
proof -
  have phases: "returns (MarkInitializing (rt_init (rv_retriers re)) (rv_api re) cr w)"
    "returns (HandleSuccess (rt_success (rv_retriers re)) (rv_api re) meta w)"
    "returns (base_HandleError (HandleErrorAndRequeue (rt_error (rv_retriers re)) (rv_api re)) meta e w)" for cr meta e
    using assms(1) MarkInitializing_returns [of n "rt_init (rv_retriers re)"] HandleSuccess_returns [of n "rt_success (rv_retriers re)"]
      HandleErrorAndRequeue_returns [of n "rt_error (rv_retriers re)"]
    by (simp_all add: retriers_contract_def base_HandleError_def)
  show ?thesis
  proof (cases pc)
    case (RcInit cr)
    then show ?thesis
      using assms(2) phases(1) [of cr] by (auto simp: returns_iff)
  next
    case (RcSuccess meta)
    then show ?thesis
      using assms(2) phases(2) [of meta] by (auto simp: returns_iff)
  next
    case (RcError meta e)
    then show ?thesis
      using assms(2) phases(3) [of meta e] by (auto simp: returns_iff)
  qed (use assms(2) in \<open>auto split: prod.split sum.split\<close>)
qed

section \<open>The invariant\<close>

definition wo_inv :: "'w env \<Rightarrow> ('x, 'sel) reconcile_env \<Rightarrow> ('q, 'w, 'x, 'y, 'api) operator \<Rightarrow> bool" where
  "wo_inv env re s \<longleftrightarrow> pc_ok (validated re) (wo_pc s) \<and> pm_inv (wo_producers s) \<and>
     vetted (validated re) (os_am (wo_op s)) \<and> list_all (validated re) (os_origins (wo_op s)) \<and> \<not> wo_panicked s \<and>
     (env_NewForConfig env = None \<longrightarrow> sy_crash (os_am (wo_op s)) \<noteq> Some BuildPanic)"

lemma wo_inv_init: "wo_inv env re (wo_init n q cl x y)"
  by (simp add: wo_inv_def wo_init_def vetted_init pm_inv_init) (simp add: op_init_def am_init_def)

lemma with_view_crash [simp]: "sy_crash (os_am (with_view v s)) = sy_crash (os_am s)"
  by (simp add: with_view_def)

lemma wo_inv_step:
  assumes "wo_step wq finished OnError env re Alerts Retry s s'" and "wo_inv env re s"
    and "retriers_contract k (rv_retriers re)" and "aggregate_contract (rv_NewAggregate re)"
  shows "wo_inv env re s'"
  using assms
proof (induction rule: wo_step.induct)
  case (producers s l t)
  then show ?case
    using pm_inv_do [OF pm_inv_publishing producers(2)] by (simp add: wo_inv_def)
next
  case (goroutine s l am)
  then show ?case
    using vetted_do [OF _ goroutine(3)] vetted_no_BuildPanic [OF _ goroutine(6) _ goroutine(3)] by (simp add: wo_inv_def)
next
  case (local s now pc w)
  then show ?case
    using pc_ok_local [OF _ local(2)] by (simp add: wo_inv_def)
next
  case (local_panic s now p)
  then show ?case
    using rc_local_returns [OF local_panic(4,2)] by simp
next
  case (call s l ls pc am)
  then show ?case
    using vetted_do [OF _ call(4)] vetted_no_BuildPanic [OF _ call(7) _ call(4)] pc_ok_after_call [of "validated re" l ls pc]
    by (simp add: wo_inv_def)
qed (auto simp: wo_inv_def)

lemma wo_reachable_op:
  assumes "wo_reachable wq finished OnError env re Alerts Retry n q cl x y s"
    and "retriers_contract k (rv_retriers re)" and "aggregate_contract (rv_NewAggregate re)" and "retry_contract k' Retry"
  shows "wo_inv env re s \<and>
    op_reachable (from_alert (py_answers (wo_producers s))) wq finished OnError env n q cl (wo_op s)"
  using assms(1)
proof (induction rule: wo_reachable.induct)
  case init
  then show ?case
    using wo_inv_init [of env re n q cl x y] by (auto simp: wo_init_def intro: op_reachable.init)
next
  case (step s s')
  then show ?case
    using wo_inv_step [OF step(2) _ assms(2,3)] wo_step_op [OF step(2) assms(4), of n q cl "validated re"]
    by (simp add: wo_inv_def)
qed


section \<open>Schedules\<close>

text \<open>Schedules of the whole operator, for a bus whose workers take whole turns.\<close>

datatype 'api wo_label =
    WProducers "'api pm_label"
  | WTurn
  | WGoroutine label
  | WRequest NamespacedName
  | WLocal string
  | WCall
  | WReturn

fun wo_do :: "'q workqueue_ops \<Rightarrow> 'w cluster retrier \<Rightarrow> 'w env \<Rightarrow> ('x, 'sel) reconcile_env \<Rightarrow>
    ('api \<Rightarrow> 'y \<Rightarrow> (goerror + Alert list) \<times> 'y) \<Rightarrow> 'q EventBus retrier \<Rightarrow> 'api wo_label \<Rightarrow>
    ('q, 'w, 'x, 'y, 'api) operator \<Rightarrow> ('q, 'w, 'x, 'y, 'api) operator option" where
  "wo_do wq OnError env re Alerts Retry (WProducers l) s =
     map_option (\<lambda>t. s\<lparr>wo_op := with_view (set_bus (py_bus t) (bus_view (wo_op s))) (wo_op s), wo_producers := t\<rparr>)
       (pm_do Alerts Retry wq l (publishing s))"
| "wo_do wq OnError env re Alerts Retry WTurn s =
     (case processNextWorkItem wq (bs_bus (bus_view (wo_op s))) of
        Some (Ret (True, handled, b)) \<Rightarrow> Some (s\<lparr>wo_op := with_view (set_bus b (bus_view (wo_op s))) (wo_op s)\<rparr>)
      | _ \<Rightarrow> None)"
| "wo_do wq OnError env re Alerts Retry (WGoroutine l) s =
     (if handler_of l = None then None
      else map_option (\<lambda>am. s\<lparr>wo_op := (wo_op s)\<lparr>os_am := am\<rparr>\<rparr>) (am_do OnError env l (os_am (wo_op s))))"
| "wo_do wq OnError env re Alerts Retry (WRequest req) s =
     (case wo_pc s of RcIdle \<Rightarrow> Some (s\<lparr>wo_pc := RcGet req\<rparr>) | _ \<Rightarrow> None)"
| "wo_do wq OnError env re Alerts Retry (WLocal now) s =
     (case rc_local re now (sy_manager (os_am (wo_op s))) (wo_pc s) (wo_server s) of
        Some (Ret (pc, w)) \<Rightarrow> Some (s\<lparr>wo_pc := pc, wo_server := w\<rparr>) | _ \<Rightarrow> None)"
| "wo_do wq OnError env re Alerts Retry WCall s =
     (case wo_pc s of
        RcCall (l # ls) pc \<Rightarrow>
          map_option (\<lambda>am. s\<lparr>wo_op := manager_moves l am (wo_op s), wo_pc := after_call ls pc\<rparr>) (am_do OnError env l (os_am (wo_op s)))
      | _ \<Rightarrow> None)"
| "wo_do wq OnError env re Alerts Retry WReturn s =
     (case wo_pc s of RcReturn res \<Rightarrow> Some (s\<lparr>wo_pc := RcIdle\<rparr>) | _ \<Rightarrow> None)"

fun wo_run :: "'q workqueue_ops \<Rightarrow> 'w cluster retrier \<Rightarrow> 'w env \<Rightarrow> ('x, 'sel) reconcile_env \<Rightarrow>
    ('api \<Rightarrow> 'y \<Rightarrow> (goerror + Alert list) \<times> 'y) \<Rightarrow> 'q EventBus retrier \<Rightarrow> 'api wo_label list \<Rightarrow>
    ('q, 'w, 'x, 'y, 'api) operator \<Rightarrow> ('q, 'w, 'x, 'y, 'api) operator option" where
  "wo_run wq OnError env re Alerts Retry [] s = Some s"
| "wo_run wq OnError env re Alerts Retry (l # ls) s =
     (if up s then case wo_do wq OnError env re Alerts Retry l s of None \<Rightarrow> None | Some s' \<Rightarrow> wo_run wq OnError env re Alerts Retry ls s'
      else None)"

definition between_turns :: "('q, 'w) op_sys \<Rightarrow> bool" where
  "between_turns s \<longleftrightarrow> os_worker s = (\<lambda>_. Idle) \<and> os_stop s = Serving"

lemma between_turns_moves [simp]:
  "between_turns (s\<lparr>os_am := am\<rparr>) = between_turns s" "between_turns (s\<lparr>os_origins := cms\<rparr>) = between_turns s"
  "between_turns (with_view (set_bus b (bus_view s)) s) = between_turns s"
  by (simp_all add: between_turns_def with_view_def)

lemma between_turns_reader: "between_turns s \<Longrightarrow> no_reader (bus_view s)"
  by (simp add: between_turns_def quiet_reader)

lemma op_bus_steps:
  assumes "(bus_internal wq finished)\<^sup>*\<^sup>* (bus_view (wo_op s)) v" and "up s" and "\<not> bs_crashed v"
  shows "(wo_step wq finished OnError env re Alerts Retry)\<^sup>*\<^sup>* s (s\<lparr>wo_op := with_view v (wo_op s)\<rparr>)"
  using assms(1,3)
proof (induction rule: rtranclp_induct)
  case base
  have "s\<lparr>wo_op := with_view (bus_view (wo_op s)) (wo_op s)\<rparr> = s"
    by (simp add: with_view_def bus_view_def with_manager_def)
  then show ?case
    by simp
next
  case (step u v)
  let ?s = "s\<lparr>wo_op := with_view u (wo_op s)\<rparr>"
  have live: "\<not> bs_crashed u"
    using step(4) bus_internal_crashed [OF r_into_rtranclp [where r = "bus_internal wq finished", OF step(2)]] by blast
  then have "up ?s"
    using assms(2) by (simp add: up_def alive_def) (simp add: with_view_def)
  then have "wo_step wq finished OnError env re Alerts Retry ?s (?s\<lparr>wo_op := with_view v (wo_op ?s)\<rparr>)"
    using step(2) by (intro wo_step.bus) simp_all
  then show ?case
    using step(3) [OF live] by (simp add: rtranclp.rtrancl_into_rtrancl)
qed

lemma wo_do_steps:
  assumes "wo_do wq OnError env re Alerts Retry l s = Some s'" and "up s" and "between_turns (wo_op s)"
  shows "(wo_step wq finished OnError env re Alerts Retry)\<^sup>*\<^sup>* s s' \<and> between_turns (wo_op s')"
proof (cases l)
  case (WProducers pl)
  then show ?thesis
    using assms by (auto intro!: r_into_rtranclp wo_step.producers)
next
  case WTurn
  then obtain handled b where turn: "processNextWorkItem wq (bs_bus (bus_view (wo_op s))) = Some (Ret (True, handled, b))"
    and s': "s' = s\<lparr>wo_op := with_view (set_bus b (bus_view (wo_op s))) (wo_op s)\<rparr>"
    using assms(1) by (auto split: option.split_asm go.split_asm bool.split_asm)
  have "bs_worker (bus_view (wo_op s)) 0 = Idle" and "\<not> bs_crashed (set_bus b (bus_view (wo_op s)))"
    using assms(2,3) by (simp_all add: between_turns_def up_def alive_def)
  then show ?thesis
    using op_bus_steps [OF worker_turn_internal [OF _ turn] assms(2), of 0] assms(3) s' by simp
next
  case (WGoroutine gl)
  then show ?thesis
    using assms by (auto split: if_split_asm intro!: r_into_rtranclp wo_step.goroutine)
next
  case (WRequest req)
  then show ?thesis
    using assms by (auto split: reconcile_pc.split_asm intro!: r_into_rtranclp wo_step.request)
next
  case (WLocal now)
  then show ?thesis
    using assms by (auto split: option.split_asm go.split_asm intro!: r_into_rtranclp wo_step.local)
next
  case WCall
  then show ?thesis
    using assms between_turns_reader [OF assms(3)]
    by (auto simp: lock_free_def split: reconcile_pc.split_asm list.split_asm intro!: r_into_rtranclp wo_step.call)
next
  case WReturn
  then show ?thesis
    using assms by (auto split: reconcile_pc.split_asm intro!: r_into_rtranclp wo_step.return)
qed

lemma wo_run_steps:
  "wo_run wq OnError env re Alerts Retry ls s = Some s' \<Longrightarrow> between_turns (wo_op s) \<Longrightarrow>
   (wo_step wq finished OnError env re Alerts Retry)\<^sup>*\<^sup>* s s'"
proof (induction ls arbitrary: s)
  case (Cons l ls)
  then obtain s1 where "up s" and s1: "wo_do wq OnError env re Alerts Retry l s = Some s1"
    and run: "wo_run wq OnError env re Alerts Retry ls s1 = Some s'"
    by (auto split: if_split_asm option.split_asm)
  then show ?case
    using wo_do_steps [OF s1 _ Cons.prems(2), of finished] Cons.IH [OF run] by (auto intro: rtranclp_trans)
qed simp

lemma wo_run_reachable:
  assumes "wo_run wq OnError env re Alerts Retry ls (wo_init n q cl x y) = Some s"
  shows "wo_reachable wq finished OnError env re Alerts Retry n q cl x y s"
proof -
  have "(wo_step wq finished OnError env re Alerts Retry)\<^sup>*\<^sup>* (wo_init n q cl x y) s"
    using assms by (rule wo_run_steps) (simp add: wo_init_def op_init_def between_turns_def)
  then show ?thesis
    by (induction rule: rtranclp_induct) (auto intro: wo_reachable.intros)
qed

text \<open>
  A countermeasure and an event source are created, the source is polled, a worker of the bus
  delivers the alert and the goroutine of the countermeasure takes it.
\<close>

definition demo_re :: "(CounterMeasure list, LabelSelector) reconcile_env" where
  "demo_re = \<lparr>rv_retriers = demo_retriers, rv_api = demo_cr_api, rv_NewAggregate = plain_aggregate,
     rv_AsSelector = (\<lambda>ls. Inr ls), rv_List = (\<lambda>w ls. None)\<rparr>"

definition demo_installing :: "unit wo_label list" where
  "demo_installing = WRequest (meta_name (cm_ObjectMeta sample_cm)) #
     [WLocal ''t'', WLocal ''t'', WLocal ''t'', WLocal ''t'', WLocal ''t'', WCall, WCall, WCall, WLocal ''t'', WReturn]"

definition demo_alerting :: "unit wo_label list" where
  "demo_alerting = map WProducers [PStart, PNext, PAdd demo_producer, PBegin 0, PCheck 0, PFetch 0, PPublish 0] @
     [WTurn, WGoroutine (LReceive 0)]"

definition demo_start :: "(fifo, NamespacedName list, CounterMeasure list, unit, unit) operator" where
  "demo_start = wo_init 2 ([], False) demo_cluster [sample_cm] ()"

abbreviation demo_run where
  "demo_run \<equiv> wo_run fifo_ops (bounded_attempts 3) demo_env demo_re demo_api (bounded_attempts 3)"


end
