(* ===== verification/Whole_Reconcile.thy ===== *)
theory Whole_Reconcile
  imports Whole_Operator
begin

text \<open>
  The reconciler of the whole operator (theory Whole_Operator), whose calls of the manager are
  split into their critical sections, against the sequential \<open>Reconcile\<close> of theory
  CM_Controller: run without interruption, it does what \<open>Reconcile\<close> does.
\<close>

section \<open>A reconciliation without interruption\<close>

text \<open>\<open>Add\<close> and \<open>Remove\<close> are their critical sections one after the other.\<close>

lemma am_sys_idle: "sy_reconciler am = RIdle \<Longrightarrow> am\<lparr>sy_manager := m, sy_reconciler := RIdle\<rparr> = with_manager m am"
  by (cases am) (simp add: with_manager_def)

lemma Add_sections:
  assumes "manager_Add asSelector List now cm (sy_manager am) = Ret (None, m)" and "sy_reconciler am = RIdle" and "sy_crash am = None"
  shows "am_run OnError env [LSubscribe now cm, LInstall, LInsert] am = Some (with_manager m am)"
proof -
  have "m = added now cm (sy_manager am)"
    using assms(1) by (auto simp: manager_Add_cases split: option.split_asm)
  then show ?thesis
    using assms(2,3) am_sys_idle [OF assms(2)]
    by (simp add: am_do_def Let_def split_beta added_def with_manager_def state_Add_sections ToKey_def)
qed

lemma Remove_sections:
  assumes "manager_Remove n (sy_manager am) = Ret (r, m)" and "sy_reconciler am = RIdle" and "sy_crash am = None"
  shows "am_run OnError env [LRemove n, LForget] am = Some (with_manager m am)"
proof -
  obtain m1 where "drop_consumer n (sy_manager am) = Ret m1" and "m = m1\<lparr>am_state := state_Remove n (am_state m1)\<rparr>"
    using assms(1) by (auto simp: manager_Remove_sections elim!: go_bind_RetE)
  then show ?thesis
    using assms(2,3) am_sys_idle [OF assms(2)] by (simp add: am_do_def Let_def with_manager_def)
qed

abbreviation wo_steps where
  "wo_steps wq finished OnError env re Alerts Retry \<equiv> (wo_step wq finished OnError env re Alerts Retry)\<^sup>*\<^sup>*"

text \<open>The manager and the origins after the critical sections \<open>ls\<close>.\<close>

abbreviation ran_calls :: "'w cluster retrier \<Rightarrow> 'w env \<Rightarrow> label list \<Rightarrow> ('q, 'w) am_sys \<Rightarrow> ('q, 'w) op_sys \<Rightarrow> ('q, 'w) op_sys" where
  "ran_calls OnError env ls am o' \<equiv> o'\<lparr>os_am := am, os_origins := os_origins o' @ origins_run OnError env ls (os_am o')\<rparr>"

lemma call_steps:
  assumes "wo_pc s = RcCall (l # ls) pc" and "\<not> os_bus_crashed (wo_op s)" and "\<not> wo_panicked s" and "no_reader (bus_view (wo_op s))"
    and "am_run OnError env (l # ls) (os_am (wo_op s)) = Some am"
  shows "wo_steps wq finished OnError env re Alerts Retry s
    (s\<lparr>wo_op := ran_calls OnError env (l # ls) am (wo_op s), wo_pc := pc\<rparr>)"
  using assms
proof (induction ls arbitrary: l s)
  case Nil
  then have "am_do OnError env l (os_am (wo_op s)) = Some am"
    by (simp split: option.split_asm)
  moreover from this have "up s"
    using Nil by (simp add: up_def alive_def am_do_def split: if_split_asm)
  ultimately have "wo_step wq finished OnError env re Alerts Retry s (s\<lparr>wo_op := manager_moves l am (wo_op s), wo_pc := pc\<rparr>)"
    using wo_step.call [where s = s and l = l and ls = "[]" and pc = pc] Nil(1,4) by (simp add: lock_free_def after_call_def)
  then show ?case
    using \<open>am_do OnError env l (os_am (wo_op s)) = Some am\<close> by (simp add: r_into_rtranclp)
next
  case (Cons l' ls)
  then obtain am1 where am1: "am_do OnError env l (os_am (wo_op s)) = Some am1"
    and rest: "am_run OnError env (l' # ls) am1 = Some am"
    by (auto split: option.split_asm)
  let ?s = "s\<lparr>wo_op := manager_moves l am1 (wo_op s), wo_pc := RcCall (l' # ls) pc\<rparr>"
  have "up s"
    using am1 Cons.prems by (simp add: up_def alive_def am_do_def split: if_split_asm)
  then have "wo_step wq finished OnError env re Alerts Retry s ?s"
    using wo_step.call [OF _ Cons.prems(1) _ am1] Cons.prems(4) by (simp add: lock_free_def after_call_def)
  moreover have "wo_steps wq finished OnError env re Alerts Retry ?s
      (?s\<lparr>wo_op := ran_calls OnError env (l' # ls) am (wo_op ?s), wo_pc := pc\<rparr>)"
    using Cons.prems rest by (intro Cons.IH) simp_all
  ultimately show ?case
    using am1 by (simp add: converse_rtranclp_into_rtranclp)
qed

text \<open>Running alone, the reconciler comes to its end with the given result, manager and server.\<close>

definition finishes where
  "finishes wq finished OnError env re Alerts Retry s res m w \<longleftrightarrow>
     (\<exists>o'. wo_steps wq finished OnError env re Alerts Retry s (s\<lparr>wo_op := o', wo_pc := RcReturn res, wo_server := w\<rparr>) \<and>
        sy_manager (os_am o') = m \<and> sy_reconciler (os_am o') = RIdle)"

lemma finishes_local:
  assumes "up s" and "rc_local re now (sy_manager (os_am (wo_op s))) (wo_pc s) (wo_server s) = Some (Ret (pc, v))"
    and "finishes wq finished OnError env re Alerts Retry (s\<lparr>wo_pc := pc, wo_server := v\<rparr>) res m w"
  shows "finishes wq finished OnError env re Alerts Retry s res m w"
proof -
  have "wo_step wq finished OnError env re Alerts Retry s (s\<lparr>wo_pc := pc, wo_server := v\<rparr>)"
    by (rule wo_step.local [OF assms(1,2)])
  then show ?thesis
    using assms(3) by (auto simp: finishes_def intro: converse_rtranclp_into_rtranclp)
qed

lemma finishes_return:
  assumes "wo_pc s = RcReturn res" and "sy_reconciler (os_am (wo_op s)) = RIdle"
  shows "finishes wq finished OnError env re Alerts Retry s res (sy_manager (os_am (wo_op s))) (wo_server s)"
proof -
  have "s\<lparr>wo_op := wo_op s, wo_pc := RcReturn res, wo_server := wo_server s\<rparr> = s"
    using assms(1) by (cases s) simp
  then show ?thesis
    using assms(2) unfolding finishes_def by (metis rtranclp.rtrancl_refl)
qed

lemma finishes_call:
  assumes "wo_pc s = RcCall (l # ls) pc" and "up s" and "no_reader (bus_view (wo_op s))"
    and "am_run OnError env (l # ls) (os_am (wo_op s)) = Some am"
    and "\<And>o'. os_am o' = am \<Longrightarrow> alive o' \<Longrightarrow> finishes wq finished OnError env re Alerts Retry (s\<lparr>wo_op := o', wo_pc := pc\<rparr>) res m w"
    and "sy_crash am = None"
  shows "finishes wq finished OnError env re Alerts Retry s res m w"
proof -
  let ?o = "ran_calls OnError env (l # ls) am (wo_op s)"
  have "wo_steps wq finished OnError env re Alerts Retry s (s\<lparr>wo_op := ?o, wo_pc := pc\<rparr>)"
    using assms(1-4) by (intro call_steps) (simp_all add: up_def alive_def)
  moreover have "finishes wq finished OnError env re Alerts Retry (s\<lparr>wo_op := ?o, wo_pc := pc\<rparr>) res m w"
    using assms(2,6) by (intro assms(5)) (simp_all add: up_def alive_def)
  ultimately show ?thesis
    by (auto simp: finishes_def intro: rtranclp_trans)
qed

lemma finishes_status:
  assumes "up s" and "sy_reconciler (os_am (wo_op s)) = RIdle" and "rc_local re now (sy_manager (os_am (wo_op s))) (wo_pc s) (wo_server s) =
      Some (go_bind r (\<lambda>(res, w). Ret (RcReturn res, w)))" and "with_m (sy_manager (os_am (wo_op s))) r = Ret (res, m, w)"
  shows "finishes wq finished OnError env re Alerts Retry s res m w"
proof -
  have "r = Ret (res, w)" and m: "m = sy_manager (os_am (wo_op s))"
    using assms(4) by (auto simp: with_m_def elim!: go_bind_RetE)
  then have "rc_local re now (sy_manager (os_am (wo_op s))) (wo_pc s) (wo_server s) = Some (Ret (RcReturn res, w))"
    using assms(3) by simp
  then show ?thesis
    using finishes_return [of "s\<lparr>wo_pc := RcReturn res, wo_server := w\<rparr>" res] assms(2)
    by (intro finishes_local [OF assms(1)]) (simp_all add: m)
qed

lemma finishes_success:
  "up s \<Longrightarrow> sy_reconciler (os_am (wo_op s)) = RIdle \<Longrightarrow> wo_pc s = RcSuccess meta \<Longrightarrow>
   with_m (sy_manager (os_am (wo_op s))) (HandleSuccess (rt_success (rv_retriers re)) (rv_api re) meta (wo_server s)) = Ret (res, m, w) \<Longrightarrow>
   finishes wq finished OnError env re Alerts Retry s res m w"
  by (rule finishes_status [where r = "HandleSuccess (rt_success (rv_retriers re)) (rv_api re) meta (wo_server s)"]) simp_all

lemma finishes_error:
  "up s \<Longrightarrow> sy_reconciler (os_am (wo_op s)) = RIdle \<Longrightarrow> wo_pc s = RcError meta e \<Longrightarrow>
   with_m (sy_manager (os_am (wo_op s)))
     (base_HandleError (HandleErrorAndRequeue (rt_error (rv_retriers re)) (rv_api re)) meta e (wo_server s)) = Ret (res, m, w) \<Longrightarrow>
   finishes wq finished OnError env re Alerts Retry s res m w"
  by (rule finishes_status [where r = "base_HandleError (HandleErrorAndRequeue (rt_error (rv_retriers re)) (rv_api re)) meta e (wo_server s)"])
    simp_all

lemma up_simps [simp]:
  "up (s\<lparr>wo_pc := pc\<rparr>) = up s" "up (s\<lparr>wo_server := w\<rparr>) = up s"
  by (simp_all add: up_def)

text \<open>The rest of \<open>Reconcile\<close> from the call of \<open>Add\<close> on, from the validation on, and from \<open>MarkInitializing\<close> on.\<close>

definition from_add :: "('x, 'sel) reconcile_env \<Rightarrow> ('sel \<Rightarrow> goerror option) \<Rightarrow> string \<Rightarrow> CounterMeasure \<Rightarrow> ('q, 'w) Manager \<Rightarrow> 'x \<Rightarrow>
    ((Result \<times> goerror option) \<times> ('q, 'w) Manager \<times> 'x) go" where
  "from_add re List now cr m w =
     go_bind (manager_Add (rv_AsSelector re) List now cr m) (\<lambda>(err, m').
       (case err of
          Some e \<Rightarrow> with_m m' (base_HandleError (HandleErrorAndRequeue (rt_error (rv_retriers re)) (rv_api re)) (cm_ObjectMeta cr) e w)
        | None \<Rightarrow> with_m m' (HandleSuccess (rt_success (rv_retriers re)) (rv_api re) (cm_ObjectMeta cr) w)))"

definition from_validate :: "('x, 'sel) reconcile_env \<Rightarrow> ('sel \<Rightarrow> goerror option) \<Rightarrow> string \<Rightarrow> CounterMeasure \<Rightarrow> ('q, 'w) Manager \<Rightarrow> 'x \<Rightarrow>
    ((Result \<times> goerror option) \<times> ('q, 'w) Manager \<times> 'x) go" where
  "from_validate re List now cr m w =
     (case isValid (rv_NewAggregate re) cr of
        (False, Some e) \<Rightarrow>
          with_m m (base_HandleError (HandleErrorAndRequeue (rt_error (rv_retriers re)) (rv_api re)) (cm_ObjectMeta cr) e w)
      | _ \<Rightarrow> from_add re List now cr m w)"

definition from_init :: "('x, 'sel) reconcile_env \<Rightarrow> ('sel \<Rightarrow> goerror option) \<Rightarrow> string \<Rightarrow> CounterMeasure \<Rightarrow> ('q, 'w) Manager \<Rightarrow> 'x \<Rightarrow>
    ((Result \<times> goerror option) \<times> ('q, 'w) Manager \<times> 'x) go" where
  "from_init re List now cr m w =
     go_bind (MarkInitializing (rt_init (rv_retriers re)) (rv_api re) cr w) (\<lambda>(err, cr', w2).
       (case err of Some e \<Rightarrow> Ret ((zero_result, Some e), m, w2) | None \<Rightarrow> from_validate re List now cr' m w2))"

lemma Reconcile_from:
  "Reconcile (rv_retriers re) (rv_api re) (rv_NewAggregate re) (action_manager_ops (rv_AsSelector re) List now) req (m, w) =
     (case cr_Get (rv_api re) req w of
        (Inl err, w1) \<Rightarrow>
          if IsNotFound err then go_bind (manager_Remove req m) (\<lambda>(e, m'). Ret ((zero_result, None), m', w1))
          else Ret ((zero_result, Some err), m, w1)
      | (Inr cr, w1) \<Rightarrow>
          if manager_Exists (cm_ObjectMeta cr) m
          then with_m m (HandleSuccess (rt_success (rv_retriers re)) (rv_api re) (cm_ObjectMeta cr) w1)
          else from_init re List now cr m w1)"
  by (simp only: Reconcile_def action_manager_ops_def from_init_def from_validate_def from_add_def manager_ops.select_convs prod.case)

lemma finishes_add:
  assumes "up s" and "wo_pc s = RcAdd cr" and "no_reader (bus_view (wo_op s))" and "sy_reconciler (os_am (wo_op s)) = RIdle"
    and "rv_List re = (\<lambda>_. List)"
    and "from_add re List now cr (sy_manager (os_am (wo_op s))) (wo_server s) = Ret (res, m, w)"
  shows "finishes wq finished OnError env re Alerts Retry s res m w"
proof -
  let ?m = "sy_manager (os_am (wo_op s))"
  have crash: "sy_crash (os_am (wo_op s)) = None"
    using assms(1) by (simp add: up_def alive_def)
  show ?thesis
  proof (cases "resolve_sources (rv_AsSelector re) List (cs_OnEvent (cm_Spec cr))")
    case (Some e)
    let ?s = "s\<lparr>wo_pc := RcError (cm_ObjectMeta cr) e, wo_server := wo_server s\<rparr>"
    have "rc_local re now ?m (wo_pc s) (wo_server s) = Some (Ret (RcError (cm_ObjectMeta cr) e, wo_server s))"
      using assms(2,5) Some by simp
    moreover have "finishes wq finished OnError env re Alerts Retry ?s res m w"
      using assms(1,4,6) Some
      by (intro finishes_error [where s = ?s and meta = "cm_ObjectMeta cr" and e = e]) (simp_all add: from_add_def manager_Add_cases)
    ultimately show ?thesis
      by (rule finishes_local [OF assms(1)])
  next
    case None
    let ?s = "s\<lparr>wo_pc := RcCall [LSubscribe now cr, LInstall, LInsert] (RcSuccess (cm_ObjectMeta cr)), wo_server := wo_server s\<rparr>"
    have add: "manager_Add (rv_AsSelector re) List now cr ?m = Ret (None, added now cr ?m)"
      using None by (simp add: manager_Add_cases)
    have "rc_local re now ?m (wo_pc s) (wo_server s) =
        Some (Ret (RcCall [LSubscribe now cr, LInstall, LInsert] (RcSuccess (cm_ObjectMeta cr)), wo_server s))"
      using assms(2,5) None by simp
    moreover have "finishes wq finished OnError env re Alerts Retry (?s\<lparr>wo_op := o', wo_pc := RcSuccess (cm_ObjectMeta cr)\<rparr>) res m w"
      if "os_am o' = with_manager (added now cr ?m) (os_am (wo_op s))" "alive o'" for o'
      using assms(1,4,6) add that
      by (intro finishes_success [where s = "?s\<lparr>wo_op := o', wo_pc := RcSuccess (cm_ObjectMeta cr)\<rparr>" and meta = "cm_ObjectMeta cr"]) (simp_all add: up_def from_add_def)
    then have "finishes wq finished OnError env re Alerts Retry ?s res m w"
      using Add_sections [OF add assms(4) crash, of OnError env] assms(1,3) crash
      by (intro finishes_call [of ?s "LSubscribe now cr" "[LInstall, LInsert]" "RcSuccess (cm_ObjectMeta cr)" OnError env
            "with_manager (added now cr ?m) (os_am (wo_op s))"]) simp_all
    ultimately show ?thesis
      by (rule finishes_local [OF assms(1)])
  qed
qed

lemma finishes_remove:
  assumes "up s" and "wo_pc s = RcCall [LRemove n, LForget] (RcReturn res)" and "no_reader (bus_view (wo_op s))"
    and "sy_reconciler (os_am (wo_op s)) = RIdle" and "manager_Remove n (sy_manager (os_am (wo_op s))) = Ret (e, m)"
  shows "finishes wq finished OnError env re Alerts Retry s res m (wo_server s)"
proof -
  have crash: "sy_crash (os_am (wo_op s)) = None"
    using assms(1) by (simp add: up_def alive_def)
  have "finishes wq finished OnError env re Alerts Retry (s\<lparr>wo_op := o', wo_pc := RcReturn res\<rparr>) res m (wo_server s)"
    if "os_am o' = with_manager m (os_am (wo_op s))" for o'
    using finishes_return [of "s\<lparr>wo_op := o', wo_pc := RcReturn res\<rparr>" res] assms(4) that by simp
  then show ?thesis
    using Remove_sections [OF assms(5,4) crash, of OnError env] crash
    by (intro finishes_call [OF assms(2,1,3), of OnError env "with_manager m (os_am (wo_op s))"]) simp_all
qed

lemma finishes_validate:
  assumes "up s" and "wo_pc s = RcValidate cr" and "no_reader (bus_view (wo_op s))" and "sy_reconciler (os_am (wo_op s)) = RIdle"
    and "rv_List re = (\<lambda>_. List)"
    and "from_validate re List now cr (sy_manager (os_am (wo_op s))) (wo_server s) = Ret (res, m, w)"
  shows "finishes wq finished OnError env re Alerts Retry s res m w"
proof (cases "ValidateSpec (rv_NewAggregate re) (cm_Spec cr)")
  case (Some e)
  let ?s = "s\<lparr>wo_pc := RcError (cm_ObjectMeta cr) e, wo_server := wo_server s\<rparr>"
  have "rc_local re now (sy_manager (os_am (wo_op s))) (wo_pc s) (wo_server s) = Some (Ret (RcError (cm_ObjectMeta cr) e, wo_server s))"
    using assms(2) Some by (simp add: isValid_def)
  moreover have "finishes wq finished OnError env re Alerts Retry ?s res m w"
    using assms(1,4,6) Some
    by (intro finishes_error [where s = ?s and meta = "cm_ObjectMeta cr" and e = e]) (simp_all add: from_validate_def isValid_def)
  ultimately show ?thesis
    by (rule finishes_local [OF assms(1)])
next
  case None
  let ?s = "s\<lparr>wo_pc := RcAdd cr, wo_server := wo_server s\<rparr>"
  have "rc_local re now (sy_manager (os_am (wo_op s))) (wo_pc s) (wo_server s) = Some (Ret (RcAdd cr, wo_server s))"
    using assms(2) None by (simp add: isValid_def)
  moreover have "finishes wq finished OnError env re Alerts Retry ?s res m w"
    using assms(1,3-6) None by (intro finishes_add [where s = ?s and cr = cr and List = List and now = now]) (simp_all add: from_validate_def isValid_def)
  ultimately show ?thesis
    by (rule finishes_local [OF assms(1)])
qed

lemma finishes_init:
  assumes "up s" and "wo_pc s = RcInit cr" and "no_reader (bus_view (wo_op s))" and "sy_reconciler (os_am (wo_op s)) = RIdle"
    and "rv_List re = (\<lambda>_. List)"
    and "from_init re List now cr (sy_manager (os_am (wo_op s))) (wo_server s) = Ret (res, m, w)"
  shows "finishes wq finished OnError env re Alerts Retry s res m w"
proof -
  let ?m = "sy_manager (os_am (wo_op s))"
  obtain err cr' w2 where mark: "MarkInitializing (rt_init (rv_retriers re)) (rv_api re) cr (wo_server s) = Ret (err, cr', w2)"
    using assms(6) by (auto simp: from_init_def elim!: go_bind_RetE)
  show ?thesis
  proof (cases err)
    case (Some e)
    let ?s = "s\<lparr>wo_pc := RcReturn (zero_result, Some e), wo_server := w2\<rparr>"
    have "rc_local re now ?m (wo_pc s) (wo_server s) = Some (Ret (RcReturn (zero_result, Some e), w2))"
      using assms(2) mark Some by simp
    moreover have "finishes wq finished OnError env re Alerts Retry ?s res m w"
      using finishes_return [of ?s "(zero_result, Some e)" wq finished OnError env re Alerts Retry] assms(4,6) mark Some by (simp add: from_init_def)
    ultimately show ?thesis
      by (rule finishes_local [OF assms(1)])
  next
    case None
    let ?s = "s\<lparr>wo_pc := RcValidate cr', wo_server := w2\<rparr>"
    have "rc_local re now ?m (wo_pc s) (wo_server s) = Some (Ret (RcValidate cr', w2))"
      using assms(2) mark None by simp
    moreover have "finishes wq finished OnError env re Alerts Retry ?s res m w"
      using assms(1,3-6) mark None by (intro finishes_validate [where s = ?s and cr = cr' and List = List and now = now]) (simp_all add: from_init_def)
    ultimately show ?thesis
      by (rule finishes_local [OF assms(1)])
  qed
qed

lemma finishes_gone:
  assumes "up s" and "wo_pc s = RcGet req" and "no_reader (bus_view (wo_op s))" and "sy_reconciler (os_am (wo_op s)) = RIdle"
    and get: "cr_Get (rv_api re) req (wo_server s) = (Inl err, w1)"
    and "Reconcile (rv_retriers re) (rv_api re) (rv_NewAggregate re) (action_manager_ops (rv_AsSelector re) List now) req
        (sy_manager (os_am (wo_op s)), wo_server s) = Ret (res, m, w)"
  shows "finishes wq finished OnError env re Alerts Retry s res m w"
proof -
  let ?pc = "if IsNotFound err then RcCall [LRemove req, LForget] (RcReturn (zero_result, None)) else RcReturn (zero_result, Some err)"
  let ?t = "s\<lparr>wo_pc := ?pc, wo_server := w1\<rparr>"
  have "rc_local re now (sy_manager (os_am (wo_op s))) (wo_pc s) (wo_server s) = Some (Ret (?pc, w1))"
    using get assms(2) by simp
  moreover have "finishes wq finished OnError env re Alerts Retry ?t res m w"
  proof (cases "IsNotFound err")
    case True
    then obtain e where "manager_Remove req (sy_manager (os_am (wo_op s))) = Ret (e, m)" and "res = (zero_result, None)" and "w = w1"
      using assms(6) get by (auto simp: Reconcile_from elim!: go_bind_RetE)
    then show ?thesis
      using finishes_remove [of ?t req "(zero_result, None)" e m wq finished OnError env re Alerts Retry] assms(1,3,4) True by simp
  next
    case False
    then show ?thesis
      using finishes_return [of ?t "(zero_result, Some err)" wq finished OnError env re Alerts Retry] assms(4,6) get
      by (simp add: Reconcile_from)
  qed
  ultimately show ?thesis
    by (rule finishes_local [OF assms(1)])
qed

lemma finishes_found:
  assumes "up s" and "wo_pc s = RcGet req" and "no_reader (bus_view (wo_op s))" and "sy_reconciler (os_am (wo_op s)) = RIdle"
    and "rv_List re = (\<lambda>_. List)" and get: "cr_Get (rv_api re) req (wo_server s) = (Inr cr, w1)"
    and "Reconcile (rv_retriers re) (rv_api re) (rv_NewAggregate re) (action_manager_ops (rv_AsSelector re) List now) req
        (sy_manager (os_am (wo_op s)), wo_server s) = Ret (res, m, w)"
  shows "finishes wq finished OnError env re Alerts Retry s res m w"
proof -
  let ?m = "sy_manager (os_am (wo_op s))"
  let ?t = "s\<lparr>wo_pc := RcExists cr, wo_server := w1\<rparr>"
  let ?pc = "if manager_Exists (cm_ObjectMeta cr) ?m then RcSuccess (cm_ObjectMeta cr) else RcInit cr"
  let ?u = "?t\<lparr>wo_pc := ?pc, wo_server := w1\<rparr>"
  have found: "rc_local re now ?m (wo_pc s) (wo_server s) = Some (Ret (RcExists cr, w1))"
    using get assms(2) by simp
  have asked: "rc_local re now (sy_manager (os_am (wo_op ?t))) (wo_pc ?t) (wo_server ?t) = Some (Ret (?pc, w1))"
    by simp
  have "finishes wq finished OnError env re Alerts Retry ?u res m w"
  proof (cases "manager_Exists (cm_ObjectMeta cr) ?m")
    case True
    then show ?thesis
      using assms(1,4,7) get
      by (intro finishes_success [where s = ?u and meta = "cm_ObjectMeta cr"]) (simp_all add: Reconcile_from)
  next
    case False
    then show ?thesis
      using assms(1,3-5,7) get
      by (intro finishes_init [where s = ?u and cr = cr and List = List and now = now]) (simp_all add: Reconcile_from)
  qed
  then have "finishes wq finished OnError env re Alerts Retry ?t res m w"
    using finishes_local [OF _ asked] assms(1) by simp
  then show ?thesis
    by (rule finishes_local [OF assms(1) found])
qed

text \<open>C3:
  The sequential reconciler is among the runs of the whole operator. From a state in which the
  operator is up, the reconciler is idle and no call of the manager is under way, no publisher
  or worker reads the subscribers of the bus, and when the listing of sources does not depend
  on the state of the API server, one schedule of the operator, which runs the steps of the
  reconciliation without interruption and its calls of the manager one critical section after
  the other, leads to the state with exactly the result, the manager and the API server that
  \<open>Reconcile\<close> of theory CM_Controller gives: the resource read, marked, validated and installed,
  or removed, or the error reported. Other schedules interleave with the goroutines; what holds
  of all of them are the invariants of theory Whole_Operator.
\<close>

theorem Reconcile_simulated:
  assumes "up s" and "wo_pc s = RcIdle" and "no_reader (bus_view (wo_op s))" and "sy_reconciler (os_am (wo_op s)) = RIdle"
    and "rv_List re = (\<lambda>_. List)"
    and "Reconcile (rv_retriers re) (rv_api re) (rv_NewAggregate re) (action_manager_ops (rv_AsSelector re) List now) req
        (sy_manager (os_am (wo_op s)), wo_server s) = Ret (res, m, w)"
  shows "\<exists>o'. (wo_step wq finished OnError env re Alerts Retry)\<^sup>*\<^sup>* s (s\<lparr>wo_op := o', wo_pc := RcReturn res, wo_server := w\<rparr>) \<and>
    sy_manager (os_am o') = m \<and> sy_reconciler (os_am o') = RIdle"
proof -
  let ?s = "s\<lparr>wo_pc := RcGet req\<rparr>"
  have start: "wo_step wq finished OnError env re Alerts Retry s ?s"
    by (rule wo_step.request [OF assms(1,2)])
  obtain got w1 where get: "cr_Get (rv_api re) req (wo_server s) = (got, w1)"
    by fastforce
  have "finishes wq finished OnError env re Alerts Retry ?s res m w"
  proof (cases got)
    case (Inl err)
    then show ?thesis
      using finishes_gone [of ?s req re err w1 List now res m w] get assms(1,3,4,6) by simp
  next
    case (Inr cr)
    then show ?thesis
      using finishes_found [of ?s req re List cr w1 now res m w] get assms(1,3-6) by simp
  qed
  with start show ?thesis
    by (auto simp: finishes_def intro: converse_rtranclp_into_rtranclp)
qed

text \<open>The whole reconciliation of the demo resource.\<close>

theorem Reconcile_simulated_witness:
  "\<exists>m w o'. Reconcile demo_retriers demo_cr_api plain_aggregate (action_manager_ops (\<lambda>ls. Inr ls) (\<lambda>ls. None) ''t'')
       (meta_name (cm_ObjectMeta sample_cm)) (sy_manager (os_am (wo_op demo_start)), [sample_cm]) = Ret ((zero_result, None), m, w) \<and>
     (wo_step fifo_ops fifo_finished (bounded_attempts 3) demo_env demo_re demo_api (bounded_attempts 3))\<^sup>*\<^sup>*
       demo_start (demo_start\<lparr>wo_op := o', wo_pc := RcReturn (zero_result, None), wo_server := w\<rparr>) \<and>
     sy_manager (os_am o') = m \<and> manager_Exists (cm_ObjectMeta sample_cm) m"
proof -
  let ?r = "Reconcile demo_retriers demo_cr_api plain_aggregate (action_manager_ops (\<lambda>ls. Inr ls) (\<lambda>ls. None) ''t'')
       (meta_name (cm_ObjectMeta sample_cm)) (sy_manager (os_am (wo_op demo_start)), [sample_cm])"
  have "case ?r of Panics p \<Rightarrow> False | Ret (res, m, w) \<Rightarrow> res = (zero_result, None) \<and> manager_Exists (cm_ObjectMeta sample_cm) m"
    by code_simp
  then obtain m w where r: "?r = Ret ((zero_result, None), m, w)" "manager_Exists (cm_ObjectMeta sample_cm) m"
    by (auto split: go.split_asm)
  have start: "up demo_start" "wo_pc demo_start = RcIdle" "no_reader (bus_view (wo_op demo_start))"
    "sy_reconciler (os_am (wo_op demo_start)) = RIdle" "wo_server demo_start = [sample_cm]"
    by (simp_all add: demo_start_def wo_init_def op_init_def am_init_def up_def alive_def no_reader_def)
  have "rv_List demo_re = (\<lambda>_. \<lambda>ls. None)"
    by (simp add: demo_re_def)
  from Reconcile_simulated [OF start(1-4) this, where req = "meta_name (cm_ObjectMeta sample_cm)" and now = "''t''"] r start(5) show ?thesis
    by (fastforce simp: demo_re_def)
qed

end
