(* ===== verification/Handler_Shutdown.thy ===== *)
theory Handler_Shutdown
  imports Operator_System
begin

text \<open>
  The goroutines of the countermeasures (\<open>pkg/actions/manager.go\<close>) at the end of their life in
  the composed system: what they wait for, and why all of them end when the bus has shut down.
\<close>

section \<open>A goroutine waits only for a live subscription\<close>

definition listening :: "'q EventBus \<Rightarrow> chan_id \<Rightarrow> bool" where
  "listening b c \<longleftrightarrow> chan_cap (eb_store b) c \<noteq> 0 \<and> (c \<in> set (subscribed b) \<or> \<not> chan_open (eb_store b) c)"

text \<open>While \<open>Start\<close> closes the channels, those that it has passed are closed.\<close>

definition attended :: "chan_id set \<Rightarrow> 'q bus_sys \<Rightarrow> bool" where
  "attended C v \<longleftrightarrow> (\<forall>c \<in> C. c < st_next (eb_store (bs_bus v)) \<and> listening (bs_bus v) c) \<and>
     (\<forall>cs. bs_stop v = Closing cs \<longrightarrow> (\<forall>c \<in> set (subscribed (bs_bus v)). c \<in> set cs \<or> \<not> chan_open (eb_store (bs_bus v)) c))"

lemma subscribed_cleared [simp]: "subscribed (b\<lparr>eb_subscribers := []\<rparr>) = []"
  by (simp add: subscribed_def)

lemma attended_internal: "bus_internal wq finished v v' \<Longrightarrow> attended C v \<Longrightarrow> attended C v'"
proof (induction rule: bus_internal.induct)
  case (close v c cs st)
  then show ?case
    by (auto simp: attended_def listening_def close_chan_frame(1,2,4))
next
  case (clear v)
  then show ?case
    by (auto simp: attended_def listening_def)
qed (auto simp: attended_def listening_def queue_done_def crash_def try_send_frame(1,2,4) subscribed_def)

lemma attended_publish: "attended C v \<Longrightarrow> attended C (set_bus (snd (Publish wq t e (bs_bus v))) v)"
  by (simp add: attended_def listening_def Publish_def subscribed_def)

lemma attended_receive:
  "attended C v \<Longrightarrow> attended C (set_bus ((bs_bus v)\<lparr>eb_store := snd (recv c (eb_store (bs_bus v)))\<rparr>) v)"
  by (simp add: attended_def listening_def recv_frame(1,2,4))

lemma attended_subscribe:
  assumes "attended C v" and "no_reader v" and "bus_inv (bs_bus v)"
  shows "attended (insert (st_next (eb_store (bs_bus v))) C) (set_bus (snd (Subscribe t (bs_bus v))) v)"
proof -
  let ?b = "bs_bus v" and ?b' = "snd (Subscribe t (bs_bus v))" and ?c = "st_next (eb_store (bs_bus v))"
  have subs: "set (subscribed ?b') = insert ?c (set (subscribed ?b))"
    using arg_cong [OF mset_subscribed_Subscribe [OF assms(3), of t], of set_mset] by simp
  have store: "chan_open (eb_store ?b') d \<longleftrightarrow> d = ?c \<or> chan_open (eb_store ?b) d" "st_next (eb_store ?b') = Suc ?c"
    "chan_cap (eb_store ?b') d = (if d = ?c then CONSUMER_BUFFER_SIZE else chan_cap (eb_store ?b) d)" for d
    by (simp_all add: Subscribe_def Let_def split_beta chan_open_make_chan chan_cap_make_chan) (simp add: make_chan_def)
  have "listening ?b' d" "d < Suc ?c" if "d \<in> insert ?c C" for d
    using assms(1) that subs store by (auto simp: attended_def listening_def CONSUMER_BUFFER_SIZE_def)
  moreover have "bs_stop v \<noteq> Closing cs" for cs
    using assms(2) by (auto simp: no_reader_def)
  ultimately show ?thesis
    using store by (simp add: attended_def)
qed

lemma attended_released:
  assumes "attended C v" and "no_reader v" and "released L (bs_bus v) b" and "same_chans (eb_store (bs_bus v)) (eb_store b)"
    and "wf_map (eb_subscribers (bs_bus v))" and "wf_map (eb_subscribers b)"
  shows "attended C (set_bus b v)"
proof -
  have subs: "c \<in> set (subscribed x) \<longleftrightarrow> (\<exists>t. c \<in> set (subs_at (eb_subscribers x) t))"
    if "wf_map (eb_subscribers x)" for x :: "'a EventBus" and c
    using that subs_at_subscribed [of c x]
    by (auto simp: subscribed_def subs_at_def) (metis map_of_is_SomeI option.simps(5))
  have "listening b c" if "listening (bs_bus v) c" for c
    using assms(3,4) that subs [OF assms(5)] subs [OF assms(6)] by (auto simp: listening_def released_def same_chans_def)
  moreover have "bs_stop v \<noteq> Closing cs" for cs
    using assms(2) by (auto simp: no_reader_def)
  ultimately show ?thesis
    using assms(1,4) by (simp add: attended_def same_chans_def)
qed

section \<open>In the composed system\<close>

text \<open>The channels of the goroutines, and the one that the reconciler is about to give to one.\<close>

fun pending_chan :: "reconciler_pc \<Rightarrow> chan_id set" where
  "pending_chan RIdle = {}"
| "pending_chan (RSubscribed cm c) = {OnEvent c}"
| "pending_chan (RInstalling cm c) = {OnEvent c}"
| "pending_chan (RRemoving name) = {}"

definition op_chans :: "('q, 'w) am_sys \<Rightarrow> chan_id set" where
  "op_chans am = h_chan ` set (am_goroutines (sy_manager am)) \<union> pending_chan (sy_reconciler am)"

text \<open>A goroutine that goes on with an entry has its address from the state, which forgets none.\<close>

definition entries_live :: "('q, 'w) am_sys \<Rightarrow> bool" where
  "entries_live am \<longleftrightarrow> (\<forall>h \<in> set (am_goroutines (sy_manager am)). \<forall>ev a. h_pc h = HEntry ev a \<longrightarrow>
     as_entries (am_state (sy_manager am)) a \<noteq> None)"

definition live_inv :: "('q, 'w) op_sys \<Rightarrow> bool" where
  "live_inv s \<longleftrightarrow> attended (op_chans (os_am s)) (bus_view s) \<and> entries_live (os_am s)"

definition keeps_entries :: "ActionState \<Rightarrow> ActionState \<Rightarrow> bool" where
  "keeps_entries st st' \<longleftrightarrow> (\<forall>a. as_entries st a \<noteq> None \<longrightarrow> as_entries st' a \<noteq> None)"

lemma keeps_entries_simps [simp]:
  "keeps_entries st st" "keeps_entries st (state_Remove n st)" "keeps_entries st (state_insert cm st)"
  by (simp_all add: keeps_entries_def state_insert_def state_Remove_def)

lemma on_lookup_entries:
  "on_lookup now k ev st = (pc, st') \<Longrightarrow> keeps_entries st st' \<and> (\<forall>e a. pc = HEntry e a \<longrightarrow> as_entries st' a \<noteq> None)"
  by (auto simp: on_lookup_def GetCounterMeasure_def keeps_entries_def set_entry_def split: option.split_asm)

lemma bookkeeping_entries:
  "CounterMeasureStart now ev k st = Ret st' \<Longrightarrow> keeps_entries st st'"
  "CounterMeasureEnd ev k st = Ret st' \<Longrightarrow> keeps_entries st st'"
  by (auto simp: CounterMeasureStart_def CounterMeasureEnd_def keeps_entries_def set_entry_def Let_def split: option.split_asm)

lemma on_check_entry: "on_check env reg now ev e = Ret (pc, out) \<Longrightarrow> pc \<noteq> HEntry ev' a"
  by (auto simp: on_check_def elim!: go_bind_RetE split: if_split_asm sum.split_asm)

text \<open>A step of a goroutine changes one control point, keeps the entries, and takes at most one event from a channel.\<close>

definition handler_moved :: "nat \<Rightarrow> ('q, 'w) am_sys \<Rightarrow> ('q, 'w) am_sys \<Rightarrow> bool" where
  "handler_moved i am am' \<longleftrightarrow> sy_reconciler am' = sy_reconciler am \<and>
     keeps_entries (am_state (sy_manager am)) (am_state (sy_manager am')) \<and>
     (\<exists>pc. (am_goroutines (sy_manager am') = (am_goroutines (sy_manager am))[i := (am_goroutines (sy_manager am) ! i)\<lparr>h_pc := pc\<rparr>]) \<and>
        (\<forall>ev a. pc = HEntry ev a \<longrightarrow> as_entries (am_state (sy_manager am')) a \<noteq> None)) \<and>
     (am_eventbus (sy_manager am') = am_eventbus (sy_manager am) \<or>
      (\<exists>c. am_eventbus (sy_manager am') = (am_eventbus (sy_manager am))
         \<lparr>eb_store := snd (recv c (eb_store (am_eventbus (sy_manager am))))\<rparr>))"

lemma handler_moved_pc:
  assumes "am' = with_manager (set_pc i pc m) am\<lparr>sy_cluster := cl, sy_reports := out\<rparr>"
    and "am_goroutines m = am_goroutines (sy_manager am)" and "keeps_entries (am_state (sy_manager am)) (am_state m)"
    and "\<And>ev a. pc = HEntry ev a \<Longrightarrow> as_entries (am_state m) a \<noteq> None"
    and "am_eventbus m = am_eventbus (sy_manager am) \<or> (\<exists>c. am_eventbus m = (am_eventbus (sy_manager am))
         \<lparr>eb_store := snd (recv c (eb_store (am_eventbus (sy_manager am))))\<rparr>)"
  shows "handler_moved i am am'"
  using assms by (auto simp: handler_moved_def with_manager_def set_pc_def)

lemma handler_moved_crash:
  assumes "entries_live am" and "i < length (am_goroutines (sy_manager am))"
  shows "handler_moved i am (crashed c am)"
proof -
  let ?gs = "am_goroutines (sy_manager am)"
  have "as_entries (am_state (sy_manager am)) a \<noteq> None" if "h_pc (?gs ! i) = HEntry ev a" for ev a
    using assms that unfolding entries_live_def by (metis nth_mem)
  then show ?thesis
    by (auto simp: handler_moved_def crashed_def intro!: exI [of _ "h_pc (?gs ! i)"])
qed

lemma moved_receive:
  assumes "handler_step OnError env (LReceive i) (am_goroutines (sy_manager am) ! i) am = Some am'"
    and "entries_live am" and "i < length (am_goroutines (sy_manager am))"
  shows "handler_moved i am am'"
proof -
  let ?m = "sy_manager am" and ?h = "am_goroutines (sy_manager am) ! i"
  let ?m' = "?m\<lparr>am_eventbus := (am_eventbus ?m)\<lparr>eb_store := snd (recv (h_chan ?h) (eb_store (am_eventbus ?m)))\<rparr>\<rparr>"
  have "\<exists>pc. (pc = HDone \<or> (\<exists>ev. pc = HEvent ev)) \<and> am' = with_manager (set_pc i pc ?m') am"
    using assms(1) by (auto simp: Let_def split_beta split: if_split_asm recv.split_asm)
  then obtain pc where "pc = HDone \<or> (\<exists>ev. pc = HEvent ev)" "am' = with_manager (set_pc i pc ?m') am"
    by blast
  then show ?thesis
    by (intro handler_moved_pc [where pc = pc and m = ?m' and cl = "sy_cluster am" and out = "sy_reports am"])
      (auto simp: with_manager_def)
qed

lemma moved_lookup:
  assumes "handler_step OnError env (LLookup i now) (am_goroutines (sy_manager am) ! i) am = Some am'"
    and "entries_live am" and "i < length (am_goroutines (sy_manager am))"
  shows "handler_moved i am am'"
proof -
  from assms(1) obtain ev pc st where "on_lookup now (h_key (am_goroutines (sy_manager am) ! i)) ev (am_state (sy_manager am)) = (pc, st)"
    "am' = with_manager (set_pc i pc ((sy_manager am)\<lparr>am_state := st\<rparr>)) am"
    using assms(1) by (auto simp: Let_def split: handler_pc.split_asm prod.split_asm)
  then show ?thesis
    using on_lookup_entries
    by (intro handler_moved_pc [where pc = pc and m = "(sy_manager am)\<lparr>am_state := st\<rparr>" and cl = "sy_cluster am" and out = "sy_reports am"])
      (auto simp: with_manager_def)
qed

lemma moved_check:
  assumes "handler_step OnError env (LCheck i now) (am_goroutines (sy_manager am) ! i) am = Some am'"
    and "entries_live am" and "i < length (am_goroutines (sy_manager am))"
  shows "handler_moved i am am'"
proof -
  from assms(1) consider "am' = crashed BuildPanic am"
    | ev e pc out where "on_check env (am_ActionRegistry (sy_manager am)) now ev e = Ret (pc, out)"
      "am' = with_manager (set_pc i pc (sy_manager am)) am\<lparr>sy_reports := sy_reports am @ out\<rparr>"
    by (auto simp: Let_def split: handler_pc.split_asm option.split_asm go.split_asm)
  then show ?thesis
  proof cases
    case 1
    then show ?thesis
      by (simp add: handler_moved_crash assms(2,3))
  next
    case (2 ev e pc out)
    then show ?thesis
      by (intro handler_moved_pc [where pc = pc and m = "sy_manager am" and cl = "sy_cluster am" and out = "sy_reports am @ out"])
        (auto simp: with_manager_def dest: on_check_entry)
  qed
qed

lemma moved_start:
  assumes "handler_step OnError env (LStart i now) (am_goroutines (sy_manager am) ! i) am = Some am'"
    and "entries_live am" and "i < length (am_goroutines (sy_manager am))"
  shows "handler_moved i am am'"
proof -
  from assms(1) consider "am' = crashed BookkeepingPanic am"
    | ev cm seq st where "CounterMeasureStart now ev (h_key (am_goroutines (sy_manager am) ! i)) (am_state (sy_manager am)) = Ret st"
      "am' = with_manager (set_pc i (HRunning ev cm seq) ((sy_manager am)\<lparr>am_state := st\<rparr>)) am"
    by (auto simp: Let_def split: handler_pc.split_asm go.split_asm)
  then show ?thesis
  proof cases
    case 1
    then show ?thesis
      by (simp add: handler_moved_crash assms(2,3))
  next
    case (2 ev cm seq st)
    then show ?thesis
      by (intro handler_moved_pc [where pc = "HRunning ev cm seq" and m = "(sy_manager am)\<lparr>am_state := st\<rparr>" and cl = "sy_cluster am" and out = "sy_reports am"])
        (auto simp: with_manager_def bookkeeping_entries)
  qed
qed

lemma moved_run:
  assumes "handler_step OnError env (LRun i) (am_goroutines (sy_manager am) ! i) am = Some am'"
    and "entries_live am" and "i < length (am_goroutines (sy_manager am))"
  shows "handler_moved i am am'"
proof -
  from assms(1) consider "am' = crashed RunPanic am"
    | ev cl out where "am' = with_manager (set_pc i (HRan ev) (sy_manager am)) am\<lparr>sy_cluster := cl, sy_reports := out\<rparr>"
    by (auto simp: Let_def split: handler_pc.split_asm go.split_asm)
  then show ?thesis
  proof cases
    case 1
    then show ?thesis
      by (simp add: handler_moved_crash assms(2,3))
  next
    case (2 ev cl out)
    then show ?thesis
      by (intro handler_moved_pc [where pc = "HRan ev" and m = "sy_manager am"]) auto
  qed
qed

lemma moved_end:
  assumes "handler_step OnError env (LEnd i) (am_goroutines (sy_manager am) ! i) am = Some am'"
    and "entries_live am" and "i < length (am_goroutines (sy_manager am))"
  shows "handler_moved i am am'"
proof -
  from assms(1) consider "am' = crashed BookkeepingPanic am"
    | ev st where "CounterMeasureEnd ev (h_key (am_goroutines (sy_manager am) ! i)) (am_state (sy_manager am)) = Ret st"
      "am' = with_manager (set_pc i HWait ((sy_manager am)\<lparr>am_state := st\<rparr>)) am"
    by (auto simp: Let_def split: handler_pc.split_asm go.split_asm)
  then show ?thesis
  proof cases
    case 1
    then show ?thesis
      by (simp add: handler_moved_crash assms(2,3))
  next
    case (2 ev st)
    then show ?thesis
      by (intro handler_moved_pc [where pc = HWait and m = "(sy_manager am)\<lparr>am_state := st\<rparr>" and cl = "sy_cluster am" and out = "sy_reports am"])
        (auto simp: with_manager_def bookkeeping_entries)
  qed
qed

lemma handler_step_moved_live:
  assumes "handler_step OnError env l (am_goroutines (sy_manager am) ! i) am = Some am'" and "handler_of l = Some i"
    and "entries_live am" and "i < length (am_goroutines (sy_manager am))"
  shows "handler_moved i am am'"
  using assms by (cases l) (auto intro: moved_receive moved_lookup moved_check moved_start moved_run moved_end simp del: handler_step.simps)

lemma handler_moved_live:
  assumes "handler_moved i am am'" and "entries_live am" and "i < length (am_goroutines (sy_manager am))"
  shows "entries_live am' \<and> op_chans am' = op_chans am"
proof -
  obtain pc where gs: "am_goroutines (sy_manager am') = (am_goroutines (sy_manager am))[i := (am_goroutines (sy_manager am) ! i)\<lparr>h_pc := pc\<rparr>]"
    and pc: "\<And>ev a. pc = HEntry ev a \<Longrightarrow> as_entries (am_state (sy_manager am')) a \<noteq> None"
    using assms(1) by (auto simp: handler_moved_def)
  have keeps: "as_entries (am_state (sy_manager am)) a \<noteq> None \<Longrightarrow> as_entries (am_state (sy_manager am')) a \<noteq> None" for a
    using assms(1) by (simp add: handler_moved_def keeps_entries_def)
  have "entries_live am'"
    using assms(2) pc keeps unfolding entries_live_def gs by (fastforce elim!: in_updateE)
  moreover have "map h_chan (am_goroutines (sy_manager am')) = map h_chan (am_goroutines (sy_manager am))"
    by (simp add: gs map_update list_update_same_conv assms(3))
  then have "op_chans am' = op_chans am"
    using assms(1) by (simp add: op_chans_def handler_moved_def flip: set_map)
  ultimately show ?thesis ..
qed

lemma live_inv_remove:
  assumes "op_inv may pend finished f s" and "live_inv s" and "lock_free (LRemove n) s"
    and "outer_step (LRemove n) (os_am s) = Some am"
  shows "live_inv (manager_moves (LRemove n) am s)"
proof -
  let ?m = "sy_manager (os_am s)"
  obtain m where m: "drop_consumer n ?m = Ret m" and idle: "sy_reconciler (os_am s) = RIdle"
    and am: "am = with_manager m (os_am s)\<lparr>sy_reconciler := RRemoving n\<rparr>"
    using assms(4) by (auto split: if_split_asm go.split_asm)
  note gs = drop_consumer_state [OF m]
  have same: "entries_live am" "op_chans am = op_chans (os_am s)"
    using assms(2) gs idle by (auto simp: am live_inv_def entries_live_def op_chans_def)
  have "attended (op_chans (os_am s)) (set_bus (am_eventbus m) (bus_view s))"
  proof (cases "map_of (am_consumers ?m) n")
    case None
    with m have "am_eventbus m = am_eventbus ?m"
      by (auto simp: drop_consumer_def)
    then show ?thesis
      using assms(2) by (simp add: live_inv_def set_bus_same)
  next
    case (Some c)
    with assms(3) have idle: "no_reader (bus_view s)"
      by (simp add: lock_free_def)
    note inv = op_inv_open [OF assms(1) idle]
    obtain b where b: "UnSubscribe c (am_eventbus ?m) = Ret (None, b)" "bus_inv b" "released (leaves c) (am_eventbus ?m) b"
      using UnSubscribe_released(1) [OF inv, of c] by blast
    with m Some have "am_eventbus m = b"
      by (auto simp: drop_consumer_def)
    then show ?thesis
      using assms(2) attended_released [OF _ idle, of "op_chans (os_am s)" "leaves c" b] b UnSubscribe_next(1) [OF b(1)]
        bus_invD(1) [OF inv] bus_invD(1) [OF b(2)] by (simp add: live_inv_def)
  qed
  then show ?thesis
    using same by (simp add: live_inv_def bus_view_moves am with_manager_def)
qed

lemma live_inv_manager:
  assumes "op_inv may pend finished f s" and "live_inv s" and "\<not> is_send l" and "lock_free l s"
    and "am_do OnError env l (os_am s) = Some am"
  shows "live_inv (manager_moves l am s)"
proof (cases "handler_of l")
  case (Some i)
  with assms(5) have i: "i < length (am_goroutines (sy_manager (os_am s)))"
    and step: "handler_step OnError env l (am_goroutines (sy_manager (os_am s)) ! i) (os_am s) = Some am"
    by (simp_all add: am_do_def split: if_split_asm)
  have moved: "handler_moved i (os_am s) am"
    using handler_step_moved_live [OF step Some _ i] assms(2) by (simp add: live_inv_def)
  have "entries_live am" "op_chans am = op_chans (os_am s)"
    using handler_moved_live [OF moved _ i] assms(2) by (simp_all add: live_inv_def)
  moreover have "attended (op_chans (os_am s)) (bus_view (manager_moves l am s))"
    using moved assms(2) attended_receive [of "op_chans (os_am s)" "bus_view s"]
    by (auto simp: live_inv_def handler_moved_def bus_view_moves set_bus_same)
  ultimately show ?thesis
    by (simp add: live_inv_def)
next
  case None
  with assms(5) have step: "outer_step l (os_am s) = Some am"
    by (simp add: am_do_def split: if_split_asm)
  let ?m = "sy_manager (os_am s)"
  show ?thesis
  proof (cases l)
    case (LSubscribe now cm)
    then have idle: "no_reader (bus_view s)"
      using assms(4) by (simp add: lock_free_def)
    have am: "sy_manager am = ?m\<lparr>am_eventbus := snd (Subscribe (event_name cm) (am_eventbus ?m))\<rparr>"
      "sy_reconciler am = RSubscribed cm (NewConsumer now (event_name cm) (next_chan s))" "sy_reconciler (os_am s) = RIdle"
      using step LSubscribe by (auto simp: Let_def split_beta split: if_split_asm)
    then have "op_chans am = insert (next_chan s) (op_chans (os_am s))"
      by (simp add: op_chans_def NewConsumer_def)
    then show ?thesis
      using assms(2) am attended_subscribe [of "op_chans (os_am s)" "bus_view s" "event_name cm", OF _ idle]
        op_inv_open [OF assms(1) idle] by (simp add: live_inv_def bus_view_moves entries_live_def)
  next
    case LInstall
    then show ?thesis
      using step assms(2) by (auto simp: live_inv_def bus_view_moves Let_def op_chans_def entries_live_def state_Remove_def set_bus_same
          split: reconciler_pc.split_asm)
  next
    case LInsert
    then show ?thesis
      using step assms(2) by (auto simp: live_inv_def bus_view_moves Let_def op_chans_def entries_live_def state_insert_def new_handler_def
          set_bus_same split: reconciler_pc.split_asm)
  next
    case LForget
    then show ?thesis
      using step assms(2) by (auto simp: live_inv_def bus_view_moves Let_def op_chans_def entries_live_def state_Remove_def set_bus_same
          split: reconciler_pc.split_asm)
  next
    case (LRemove n)
    then show ?thesis
      using step assms live_inv_remove by blast
  qed (use None assms(3) in simp_all)
qed

lemma with_view_live [simp]:
  "op_chans (os_am (with_view v s)) = op_chans (os_am s)" "entries_live (os_am (with_view v s)) = entries_live (os_am s)"
  by (simp_all add: with_view_def op_chans_def entries_live_def)

lemma live_inv_step:
  assumes "op_step may wq finished OnError env s s'" and "op_inv may pend finished f s" and "live_inv s"
  shows "live_inv s'"
  using assms
proof (induction rule: op_step.induct)
  case (bus s v)
  then show ?case
    using attended_internal [OF bus(2)] by (simp add: live_inv_def)
next
  case (publish s t e)
  then show ?case
    using attended_publish [of "op_chans (os_am s)" "bus_view s" wq t e] by (simp add: live_inv_def)
next
  case (manager s l am)
  then show ?case
    using live_inv_manager by blast
next
  case (remove_panic s n p)
  then show ?case
    using op_inv_no_panic by blast
qed

lemma live_inv_reachable:
  assumes "drain_contract wq finished" and "source_contract wq pend" and "pend q = {}"
    and "op_reachable may wq finished OnError env n q cl s"
  shows "live_inv s"
  using assms(4)
proof (induction rule: op_reachable.induct)
  case init
  show ?case
    by (simp add: live_inv_def attended_def op_chans_def entries_live_def op_init_def am_init_def NewFromManager_def bus_view_def)
next
  case (step s s')
  then show ?case
    using live_inv_step op_inv_reachable [OF assms(1-3) step(1)] by blast
qed

section \<open>The goroutines run out of work\<close>

fun pc_steps :: "handler_pc \<Rightarrow> nat" where
  "pc_steps (HEvent ev) = 6"
| "pc_steps (HEntry ev a) = 5"
| "pc_steps (HBuilt ev cm seq) = 4"
| "pc_steps (HRunning ev cm seq) = 3"
| "pc_steps (HRan ev) = 2"
| "pc_steps HWait = 1"
| "pc_steps HDone = 0"

definition buffered :: "('q, 'w) am_sys \<Rightarrow> nat" where
  "buffered am = (\<Sum>c \<in> h_chan ` set (am_goroutines (sy_manager am)). length (buf (eb_store (am_eventbus (sy_manager am))) c))"

definition handlers_left :: "('q, 'w) am_sys \<Rightarrow> nat" where
  "handlers_left am = sum_list (map (pc_steps \<circ> h_pc) (am_goroutines (sy_manager am)))"

abbreviation running :: "('q, 'w) am_sys \<Rightarrow> nat" where
  "running am \<equiv> of_bool (sy_crash am = None)"

definition goroutine_step :: "'w cluster retrier \<Rightarrow> 'w env \<Rightarrow> (('q, 'w) am_sys \<times> ('q, 'w) am_sys) set" where
  "goroutine_step OnError env = {(am', am). \<exists>l. handler_of l \<noteq> None \<and> am_do OnError env l am = Some am'}"

lemma handlers_left_update:
  assumes "am_goroutines (sy_manager am') = (am_goroutines (sy_manager am))[i := (am_goroutines (sy_manager am) ! i)\<lparr>h_pc := pc\<rparr>]"
    and "i < length (am_goroutines (sy_manager am))" and "pc_steps pc < pc_steps (h_pc (am_goroutines (sy_manager am) ! i))"
  shows "handlers_left am' < handlers_left am"
  using assms(2,3) elem_le_sum_list [of i "map (pc_steps \<circ> h_pc) (am_goroutines (sy_manager am))"]
  by (simp add: handlers_left_def assms(1) map_update sum_list_update)

text \<open>Moving the goroutine with number \<open>i\<close> leaves the channels of all goroutines as they are.\<close>

lemma chans_update:
  assumes "am_goroutines (sy_manager am') = (am_goroutines (sy_manager am))[i := (am_goroutines (sy_manager am) ! i)\<lparr>h_pc := pc\<rparr>]"
    and "i < length (am_goroutines (sy_manager am))"
  shows "h_chan ` set (am_goroutines (sy_manager am')) = h_chan ` set (am_goroutines (sy_manager am))"
proof -
  have "map h_chan (am_goroutines (sy_manager am')) = map h_chan (am_goroutines (sy_manager am))"
    using assms(2) by (simp add: assms(1) map_update list_update_same_conv)
  then show ?thesis
    by (metis set_map)
qed

lemma buffered_recv:
  assumes "recv c (eb_store (am_eventbus (sy_manager am))) = (Received ev, st)"
    and "am_eventbus (sy_manager am') = (am_eventbus (sy_manager am))\<lparr>eb_store := st\<rparr>"
    and "c \<in> h_chan ` set (am_goroutines (sy_manager am))"
    and "h_chan ` set (am_goroutines (sy_manager am')) = h_chan ` set (am_goroutines (sy_manager am))"
  shows "buffered am' < buffered am"
proof -
  let ?st = "eb_store (am_eventbus (sy_manager am))"
  have less: "length (buf st c) < length (buf ?st c)"
    using recv_buf [OF assms(1)] by simp
  have "length (buf st d) \<le> length (buf ?st d)" for d
  proof (cases "d = c")
    case False
    then show ?thesis
      using recv_frame(3) [of d c ?st] assms(1) by (simp add: buf_def)
  qed (use less in simp)
  then have "(\<Sum>d \<in> h_chan ` set (am_goroutines (sy_manager am)). length (buf st d)) <
      (\<Sum>d \<in> h_chan ` set (am_goroutines (sy_manager am)). length (buf ?st d))"
    using assms(3) less by (intro sum_strict_mono_ex1) auto
  then show ?thesis
    by (simp add: buffered_def assms(2,4))
qed

lemma buffered_same:
  assumes "am_eventbus (sy_manager am') = am_eventbus (sy_manager am)"
    and "h_chan ` set (am_goroutines (sy_manager am')) = h_chan ` set (am_goroutines (sy_manager am))"
  shows "buffered am' = buffered am"
  by (simp add: buffered_def assms)

text \<open>Every step of a goroutine ends the process, takes an event from a channel, or gets on.\<close>

definition gets_on :: "nat \<Rightarrow> ('q, 'w) am_sys \<Rightarrow> ('q, 'w) am_sys \<Rightarrow> handler_pc \<Rightarrow> bool" where
  "gets_on i am am' pc \<longleftrightarrow>
     am_goroutines (sy_manager am') = (am_goroutines (sy_manager am))[i := (am_goroutines (sy_manager am) ! i)\<lparr>h_pc := pc\<rparr>] \<and>
     ((\<exists>ev st. recv (h_chan (am_goroutines (sy_manager am) ! i)) (eb_store (am_eventbus (sy_manager am))) = (Received ev, st) \<and>
         am_eventbus (sy_manager am') = (am_eventbus (sy_manager am))\<lparr>eb_store := st\<rparr>) \<or>
      am_eventbus (sy_manager am') = am_eventbus (sy_manager am) \<and>
        pc_steps pc < pc_steps (h_pc (am_goroutines (sy_manager am) ! i)))"

lemma on_lookup_steps: "on_lookup now k ev st = (pc, st') \<Longrightarrow> pc_steps pc < 6"
  by (auto simp: on_lookup_def split: prod.split_asm option.split_asm)

lemma on_check_steps: "on_check env reg now ev e = Ret (pc, out) \<Longrightarrow> pc_steps pc < 5"
  by (auto simp: on_check_def elim!: go_bind_RetE split: if_split_asm sum.split_asm)

lemma handler_step_gets_on:
  assumes "handler_step OnError env l (am_goroutines (sy_manager am) ! i) am = Some am'" and "handler_of l = Some i"
  shows "sy_crash am' \<noteq> None \<or> (\<exists>pc. gets_on i am am' pc)"
proof (cases l)
  case (LReceive j)
  let ?h = "am_goroutines (sy_manager am) ! i" and ?st = "eb_store (am_eventbus (sy_manager am))"
  obtain r st where recv: "recv (h_chan ?h) ?st = (r, st)"
    by fastforce
  then have "st = ?st" if "r = Closed"
    using that by (auto simp: recv_def split: option.split_asm list.split_asm if_split_asm)
  then show ?thesis
    using assms LReceive recv by (auto simp: Let_def gets_on_def split: if_split_asm recv.split_asm)
next
  case (LLookup j now)
  with assms show ?thesis
    by (auto simp: Let_def gets_on_def dest!: on_lookup_steps split: handler_pc.split_asm prod.split_asm)
next
  case (LCheck j now)
  with assms show ?thesis
    by (auto simp: Let_def gets_on_def crashed_def dest!: on_check_steps split: handler_pc.split_asm option.split_asm go.split_asm)
next
  case (LStart j now)
  with assms show ?thesis
    by (auto simp: Let_def gets_on_def crashed_def split: handler_pc.split_asm go.split_asm)
next
  case (LRun j)
  with assms show ?thesis
    by (auto simp: Let_def gets_on_def crashed_def split: handler_pc.split_asm go.split_asm)
next
  case (LEnd j)
  with assms show ?thesis
    by (auto simp: Let_def gets_on_def crashed_def split: handler_pc.split_asm go.split_asm)
qed (use assms in simp_all)

lemma gets_on_decreases:
  assumes "gets_on i am am' pc" and "i < length (am_goroutines (sy_manager am))"
  shows "buffered am' < buffered am \<or> (buffered am' = buffered am \<and> handlers_left am' < handlers_left am)"
proof -
  let ?gs = "am_goroutines (sy_manager am)"
  have gs: "am_goroutines (sy_manager am') = ?gs[i := (?gs ! i)\<lparr>h_pc := pc\<rparr>]"
    using assms(1) by (simp add: gets_on_def)
  have mem: "h_chan (?gs ! i) \<in> h_chan ` set ?gs"
    using assms(2) by simp
  show ?thesis
    using assms(1) buffered_recv [OF _ _ mem chans_update [OF gs assms(2)]] buffered_same [OF _ chans_update [OF gs assms(2)]]
      handlers_left_update [OF gs assms(2)] unfolding gets_on_def by blast
qed

lemma goroutine_stepE:
  assumes "(am', am) \<in> goroutine_step OnError env"
  obtains l i where "handler_of l = Some i" "sy_crash am = None" "i < length (am_goroutines (sy_manager am))"
    "handler_step OnError env l (am_goroutines (sy_manager am) ! i) am = Some am'"
  using assms by (auto simp: goroutine_step_def am_do_def split: if_split_asm)

lemma wf_goroutine_step: "wf (goroutine_step OnError env)"
proof (rule wf_subset [OF wf_measures])
  show "goroutine_step OnError env \<subseteq> measures [running, buffered, handlers_left]"
  proof (rule subrelI)
    fix am' am
    assume "(am', am) \<in> goroutine_step OnError env"
    then obtain l i where "handler_of l = Some i" "sy_crash am = None" "i < length (am_goroutines (sy_manager am))"
      "handler_step OnError env l (am_goroutines (sy_manager am) ! i) am = Some am'"
      by (rule goroutine_stepE)
    then show "(am', am) \<in> measures [running, buffered, handlers_left]"
      using handler_step_gets_on [of OnError env l am i am'] gets_on_decreases [of i am am'] by auto
  qed
qed

section \<open>Where they stop\<close>

text \<open>The goroutine has ended, or waits for an event of a live subscription and has none.\<close>

definition at_rest :: "'q EventBus \<Rightarrow> handler \<Rightarrow> bool" where
  "at_rest b h \<longleftrightarrow> h_pc h = HDone \<or>
     h_pc h = HWait \<and> h_chan h \<in> set (subscribed b) \<and> chan_open (eb_store b) (h_chan h) \<and> buf (eb_store b) (h_chan h) = []"

definition attentive :: "('q, 'w) am_sys \<Rightarrow> bool" where
  "attentive am \<longleftrightarrow> entries_live am \<and> (\<forall>h \<in> set (am_goroutines (sy_manager am)). listening (am_eventbus (sy_manager am)) (h_chan h))"

lemma attentive_live: "live_inv s \<Longrightarrow> attentive (os_am s)"
  by (auto simp: live_inv_def attended_def attentive_def op_chans_def)

lemma listening_recv: "listening (b\<lparr>eb_store := snd (recv c (eb_store b))\<rparr>) d = listening b d"
  by (simp add: listening_def subscribed_def recv_frame(2,4))

lemma attentive_goroutine_step:
  assumes "(am', am) \<in> goroutine_step OnError env" and "attentive am"
  shows "attentive am' \<and> eb_subscribers (am_eventbus (sy_manager am')) = eb_subscribers (am_eventbus (sy_manager am))"
proof -
  obtain l i where i: "i < length (am_goroutines (sy_manager am))" and
    step: "handler_of l = Some i" "handler_step OnError env l (am_goroutines (sy_manager am) ! i) am = Some am'"
    using assms(1) by (rule goroutine_stepE)
  have moved: "handler_moved i am am'"
    using handler_step_moved_live [OF step(2,1) _ i] assms(2) by (simp add: attentive_def)
  obtain pc where "am_goroutines (sy_manager am') = (am_goroutines (sy_manager am))[i := (am_goroutines (sy_manager am) ! i)\<lparr>h_pc := pc\<rparr>]"
    using moved by (auto simp: handler_moved_def)
  note chans = chans_update [OF this i]
  have bus: "eb_subscribers (am_eventbus (sy_manager am')) = eb_subscribers (am_eventbus (sy_manager am))"
    "listening (am_eventbus (sy_manager am')) c = listening (am_eventbus (sy_manager am)) c" for c
    using moved by (auto simp: handler_moved_def listening_recv)
  have "\<forall>c \<in> h_chan ` set (am_goroutines (sy_manager am)). listening (am_eventbus (sy_manager am)) c"
    using assms(2) by (simp add: attentive_def)
  then have "\<forall>c \<in> h_chan ` set (am_goroutines (sy_manager am')). listening (am_eventbus (sy_manager am')) c"
    unfolding chans bus(2) .
  then show ?thesis
    using handler_moved_live [OF moved _ i] assms(2) bus(1) by (simp add: attentive_def)
qed

lemma attentive_goroutine_steps:
  assumes "(am', am) \<in> (goroutine_step OnError env)\<^sup>*" and "attentive am"
  shows "attentive am' \<and> eb_subscribers (am_eventbus (sy_manager am')) = eb_subscribers (am_eventbus (sy_manager am))"
  using assms by (induction rule: converse_rtrancl_induct) (auto dest: attentive_goroutine_step)

text \<open>Whoever is not at rest can take a step.\<close>

lemma handler_enabled:
  assumes "attentive am" and "sy_crash am = None" and "h \<in> set (am_goroutines (sy_manager am))"
    and "\<not> at_rest (am_eventbus (sy_manager am)) h"
  shows "am \<in> Range (goroutine_step OnError env)"
proof -
  obtain i where i: "i < length (am_goroutines (sy_manager am))" and h: "h = am_goroutines (sy_manager am) ! i"
    using assms(3) by (auto simp: in_set_conv_nth)
  have enabled: "am \<in> Range (goroutine_step OnError env)"
    if l: "handler_of l = Some i" and step: "handler_step OnError env l h am \<noteq> None" for l
  proof -
    obtain am' where "handler_step OnError env l h am = Some am'"
      using step by auto
    then have "am_do OnError env l am = Some am'"
      using l i assms(2) by (simp add: am_do_def h)
    then have "(am', am) \<in> goroutine_step OnError env"
      using l by (auto simp: goroutine_step_def)
    then show ?thesis
      by (rule RangeI)
  qed
  show ?thesis
  proof (cases "h_pc h")
    case HWait
    have "fst (recv (h_chan h) (eb_store (am_eventbus (sy_manager am)))) \<noteq> NotReady"
      using assms(1,3,4) HWait by (auto simp: at_rest_def attentive_def listening_def recv_def buf_def chan_open_def chan_cap_def
          split: option.splits list.splits)
    then show ?thesis
      using enabled [of "LReceive i"] HWait by (auto simp: split_beta Let_def split: recv.splits)
  next
    case (HEvent ev)
    then show ?thesis
      using enabled [of "LLookup i 0"] by (simp add: split_beta Let_def)
  next
    case (HEntry ev a)
    then have "as_entries (am_state (sy_manager am)) a \<noteq> None"
      using assms(1,3) by (simp add: attentive_def entries_live_def)
    then show ?thesis
      using enabled [of "LCheck i 0"] HEntry by (auto simp: Let_def split: go.splits)
  next
    case (HBuilt ev cm seq)
    then show ?thesis
      using enabled [of "LStart i 0"] by (simp add: Let_def split: go.splits)
  next
    case (HRunning ev cm seq)
    then show ?thesis
      using enabled [of "LRun i"] by (simp add: Let_def split: go.splits prod.splits)
  next
    case (HRan ev)
    then show ?thesis
      using enabled [of "LEnd i"] by (simp add: Let_def split: go.splits)
  qed (use assms(4) in \<open>simp add: at_rest_def\<close>)
qed

lemma resting_reached: "\<exists>am'. (am', am) \<in> (goroutine_step OnError env)\<^sup>* \<and> am' \<notin> Range (goroutine_step OnError env)"
proof -
  let ?later = "{am'. (am', am) \<in> (goroutine_step OnError env)\<^sup>*}"
  have "am \<in> ?later"
    by simp
  then obtain am' where am': "am' \<in> ?later" and last: "\<And>y. (y, am') \<in> goroutine_step OnError env \<Longrightarrow> y \<notin> ?later"
    using wfE_min [OF wf_goroutine_step] by metis
  have "(y, am') \<notin> goroutine_step OnError env" for y
    using last [of y] am' converse_rtrancl_into_rtrancl [of y am' "goroutine_step OnError env" am] by blast
  then show ?thesis
    using am' by (intro exI [of _ am'] conjI) auto
qed

text \<open>C15:
  No goroutine of a countermeasure is left behind. From every reachable state of the composed
  system the goroutines, left to themselves, cannot run forever, and unless one of them
  panics they stop only where each has ended or waits, with nothing to read, for a channel
  that the bus still lists and has not closed. So once the bus lists no channel, as after
  its shutdown and after the last removal, all of them end.
\<close>

theorem goroutines_come_to_rest:
  assumes "drain_contract wq finished" and "source_contract wq pend" and "pend q = {}"
    and "op_reachable may wq finished OnError env n q cl s" and "am0 = os_am s"
  shows "wf (goroutine_step OnError env) \<and>
    (\<exists>am. (am, am0) \<in> (goroutine_step OnError env)\<^sup>* \<and> am \<notin> Range (goroutine_step OnError env)) \<and>
    (\<forall>am. (am, am0) \<in> (goroutine_step OnError env)\<^sup>* \<and> am \<notin> Range (goroutine_step OnError env) \<and> sy_crash am = None \<longrightarrow>
       (\<forall>h \<in> set (am_goroutines (sy_manager am)). at_rest (am_eventbus (sy_manager am)) h) \<and>
       (subscribed (am_eventbus (sy_manager am0)) = [] \<longrightarrow> (\<forall>h \<in> set (am_goroutines (sy_manager am)). h_pc h = HDone)))"
proof (intro conjI allI impI)
  fix am
  assume am: "(am, am0) \<in> (goroutine_step OnError env)\<^sup>* \<and> am \<notin> Range (goroutine_step OnError env) \<and> sy_crash am = None"
  have "attentive am0"
    using live_inv_reachable [OF assms(1-4)] attentive_live assms(5) by blast
  with am have att: "attentive am" "eb_subscribers (am_eventbus (sy_manager am)) = eb_subscribers (am_eventbus (sy_manager am0))"
    using attentive_goroutine_steps by blast+
  then show rest: "\<forall>h \<in> set (am_goroutines (sy_manager am)). at_rest (am_eventbus (sy_manager am)) h"
    using am handler_enabled by blast
  show "\<forall>h \<in> set (am_goroutines (sy_manager am)). h_pc h = HDone" if "subscribed (am_eventbus (sy_manager am0)) = []"
    using rest that att(2) by (simp add: at_rest_def subscribed_def)
qed (use wf_goroutine_step resting_reached in blast)+

text \<open>A countermeasure that is removed while its goroutine has an event in hand: the goroutine ends.\<close>

definition removed_am :: "(fifo, NamespacedName list) am_sys" where
  "removed_am = the (am_run (bounded_attempts 3) demo_env [LRemove (meta_name (cm_ObjectMeta sample_cm)), LForget] (os_am holding_sys))"

definition ended_am :: "(fifo, NamespacedName list) am_sys" where
  "ended_am = the (am_run (bounded_attempts 3) demo_env [LLookup 0 0, LReceive 0] removed_am)"

lemma removed_sys_reachable:
  "op_reachable (from_alert demo_answers) fifo_ops fifo_finished (bounded_attempts 3) demo_env 2 ([], False) demo_cluster
     (holding_sys\<lparr>os_am := removed_am\<rparr>)"
proof -
  have idle: "os_worker holding_sys = (\<lambda>_. Idle)" "os_stop holding_sys = Serving" "\<not> os_bus_crashed holding_sys"
    by (simp_all add: holding_sys_def)
  let ?ls = "[LRemove (meta_name (cm_ObjectMeta sample_cm)), LForget]"
  have "am_run (bounded_attempts 3) demo_env ?ls (os_am holding_sys) \<noteq> None"
    and runs: "origins_run (bounded_attempts 3) demo_env ?ls (os_am holding_sys) = []"
    by code_simp+
  then have run: "am_run (bounded_attempts 3) demo_env ?ls (os_am holding_sys) = Some removed_am"
    by (auto simp: removed_am_def)
  show ?thesis
    using op_reachable_manager [OF holding_sys_reachable quiet_reader [OF idle(1,2)] idle(3) _ run] unfolding runs by simp
qed

theorem goroutines_come_to_rest_witness:
  "list_all (\<lambda>h. h_pc h = HDone) (am_goroutines (sy_manager ended_am)) \<and>
   (\<exists>am. (am, removed_am) \<in> (goroutine_step (bounded_attempts 3) demo_env)\<^sup>* \<and>
      (sy_crash am \<noteq> None \<or> list_all (\<lambda>h. h_pc h = HDone) (am_goroutines (sy_manager am))))"
proof -
  have "list_all (\<lambda>h. h_pc h = HDone) (am_goroutines (sy_manager ended_am))"
    by code_simp
  moreover have "subscribed (am_eventbus (sy_manager removed_am)) = []"
    by code_simp
  ultimately show ?thesis
    using goroutines_come_to_rest [OF fifo_drain fifo_source _ removed_sys_reachable refl] by (auto simp: list_all_iff)
qed

end
