(* ===== verification/Worker_Shutdown.thy ===== *)
theory Worker_Shutdown
  imports Eventbus
begin

text \<open>
  \<open>runWorker\<close> of \<open>pkg/eventbus/eventbus.go\<close> may run for ever while the queue is open. Once the
  queue shuts down it ends: a queue that shuts down takes no items back, and \<open>Get\<close> does not
  wait.
\<close>

definition get_contract :: "'q workqueue_ops \<Rightarrow> ('q \<Rightarrow> item set) \<Rightarrow> ('q \<Rightarrow> bool) \<Rightarrow> bool" where
  "get_contract wq pend closing \<longleftrightarrow> (\<forall>q. closing q \<longrightarrow> wq_Get wq q \<noteq> None) \<and>
     (\<forall>q q'. wq_Get wq q = Some (None, q') \<longrightarrow> pend q' = pend q)"

lemma fifo_get: "get_contract fifo_ops (\<lambda>q. set (fst q)) snd"
  by (auto simp: get_contract_def fifo_ops_def split: list.splits if_splits)

lemma turn_foreign:
  "wq_Get wq (eb_workqueue b) = Some (Some (ForeignItem x), q) \<Longrightarrow>
   processNextWorkItem wq b = Some (Ret (True, [Errorf (''expected Event in workqueue but got '' @ x)],
     b\<lparr>eb_workqueue := wq_Done wq (ForeignItem x) (wq_Forget wq (ForeignItem x) q)\<rparr>))"
  by (simp add: processNextWorkItem_def process_item_def)

text \<open>A turn while the queue shuts down uses up the item, whether or not it could be delivered.\<close>

lemma turn_while_closing:
  assumes "workqueue_contract wq pend closing" and "bus_inv b" and "closing (eb_workqueue b)"
    and "wq_Get wq (eb_workqueue b) = Some (Some obj, q)"
  shows "\<exists>handled b'. processNextWorkItem wq b = Some (Ret (True, handled, b')) \<and> bus_inv b' \<and>
    closing (eb_workqueue b') \<and> pend (eb_workqueue b') = pend (eb_workqueue b) - {obj} \<and> obj \<in> pend (eb_workqueue b)"
proof -
  note wqD = workqueue_contractD [OF assms(1)]
  have q: "closing q" "pend q = pend (eb_workqueue b) - {obj}" "obj \<in> pend (eb_workqueue b)"
    using wqD(3,6) [OF assms(4)] assms(3) by auto
  obtain handled b' where turn: "processNextWorkItem wq b = Some (Ret (True, handled, b'))"
    and queue: "eb_workqueue b' = wq_Done wq obj (wq_Forget wq obj q) \<or> eb_workqueue b' = wq_Done wq obj (wq_AddRateLimited wq obj q)"
  proof (cases obj)
    case (MessageItem m)
    with that turn_message [OF assms(2), of wq m q] assms(4) show ?thesis
      by (auto simp: Let_def split: if_splits)
  next
    case (ForeignItem x)
    with that turn_foreign [of wq b x q] assms(4) show ?thesis
      by auto
  qed
  have "bus_inv b'"
    using bus_inv_processNextWorkItem [OF assms(2) turn] by auto
  moreover have "closing (eb_workqueue b') \<and> pend (eb_workqueue b') = pend q"
    using queue q(1) by (auto simp: wqD(2,4,5,7,8,9))
  ultimately show ?thesis
    using turn q by auto
qed

text \<open>C22:
  A worker ends after shutdown: when the queue shuts down with finitely many items waiting,
  the loop of a worker returns after at most one turn per waiting item and one more, whatever
  the subscribers do; it does not panic, keeps the bus consistent, and has only taken items.
\<close>

theorem runWorker_ends:
  assumes "workqueue_contract wq pend closing" and "get_contract wq pend closing"
    and "bus_inv b" and "closing (eb_workqueue b)" and "finite (pend (eb_workqueue b))"
    and "card (pend (eb_workqueue b)) < n"
  shows "\<exists>b'. runWorker n wq b = Some (Ret b') \<and> bus_inv b' \<and> closing (eb_workqueue b') \<and>
    pend (eb_workqueue b') \<subseteq> pend (eb_workqueue b)"
  using assms(3-6)
proof (induction n arbitrary: b)
  case (Suc n)
  obtain r q where get: "wq_Get wq (eb_workqueue b) = Some (r, q)"
    using assms(2) Suc.prems(2) by (auto simp: get_contract_def)
  show ?case
  proof (cases r)
    case None
    then have "processNextWorkItem wq b = Some (Ret (False, [], b\<lparr>eb_workqueue := q\<rparr>))"
      using get by (simp add: processNextWorkItem_def)
    moreover have "closing q" and "pend q = pend (eb_workqueue b)"
      using workqueue_contractD(6) [OF assms(1) get] assms(2) Suc.prems(2) get None by (auto simp: get_contract_def)
    ultimately show ?thesis
      using Suc.prems(1) by simp
  next
    case (Some obj)
    obtain handled b' where turn: "processNextWorkItem wq b = Some (Ret (True, handled, b'))"
      and b': "bus_inv b'" "closing (eb_workqueue b')" "pend (eb_workqueue b') = pend (eb_workqueue b) - {obj}"
      and obj: "obj \<in> pend (eb_workqueue b)"
      using turn_while_closing [OF assms(1) Suc.prems(1,2), of obj q] get Some by auto
    have "card (pend (eb_workqueue b')) < card (pend (eb_workqueue b))"
      unfolding b'(3) using Suc.prems(3) obj by (rule card_Diff1_less)
    then have "card (pend (eb_workqueue b')) < n" and "finite (pend (eb_workqueue b'))"
      using Suc.prems(3,4) b'(3) by simp_all
    with Suc.IH [OF b'(1,2)] turn b'(3) show ?thesis
      by auto
  qed
qed simp

text \<open>The bus with one message, and a subscriber that cannot take it, when the shutdown has begun.\<close>

definition closing_bus :: "fifo EventBus" where
  "closing_bus = full_bus\<lparr>eb_workqueue := wq_ShutDownWithDrain fifo_ops (eb_workqueue full_bus)\<rparr>"

theorem runWorker_ends_witness:
  "\<exists>b'. runWorker 2 fifo_ops closing_bus = Some (Ret b') \<and> bus_inv b' \<and> snd (eb_workqueue b')"
proof -
  have "bus_inv closing_bus"
    by (simp add: closing_bus_def full_bus_inv)
  moreover have "snd (eb_workqueue closing_bus)" and "fst (eb_workqueue closing_bus) = [MessageItem demo_message]"
    by (simp_all add: closing_bus_def full_bus_def demo_bus_def demo_message_def Publish_def NewEventBus_def
        fifo_ops_def fifo_add_def)
  ultimately show ?thesis
    using runWorker_ends [OF fifo_contract fifo_get, of closing_bus 2] by auto
qed

end
