(* ===== verification/Exclusive_Runs.thy ===== *)
theory Exclusive_Runs
  imports Manager_Concurrency
begin

text \<open>
  Whether runs of one countermeasure can overlap. The test for a running action and the start
  of the run in the goroutine of \<open>pkg/actions/manager.go\<close> are two critical sections, so what
  excludes overlapping runs is that each key has one goroutine. That is so while no key is
  installed a second time; a resource that is deleted and created again has its old key, and
  its old goroutine still has the events in its channel.
\<close>

section \<open>Keys that are installed once\<close>

fun fresh_keys :: "('q, 'w) am_sys \<Rightarrow> label \<Rightarrow> bool" where
  "fresh_keys s LInsert =
     (case sy_reconciler s of
        RInstalling cm c \<Rightarrow> ToKey (cm_ObjectMeta cm) \<notin> h_key ` set (am_goroutines (sy_manager s))
      | _ \<Rightarrow> True)"
| "fresh_keys s _ = True"

fun in_run :: "handler_pc \<Rightarrow> bool" where
  "in_run (HRunning ev cm seq) = True"
| "in_run (HRan ev) = True"
| "in_run (HEntry ev a) = False"
| "in_run (HBuilt ev cm seq) = False"
| "in_run HWait = False"
| "in_run (HEvent ev) = False"
| "in_run HDone = False"

text \<open>
  Every deployed key has a goroutine, no two goroutines have the same key, and the running flag
  of a deployed countermeasure is set exactly while its goroutine is in its run.
\<close>

definition exclusive_inv :: "('q, 'w) am_sys \<Rightarrow> bool" where
  "exclusive_inv s \<longleftrightarrow>
     (let m = sy_manager s; gs = am_goroutines m
      in state_inv (am_state m) \<and> distinct (map h_key gs) \<and>
         (\<forall>k. IsDeployed k (am_state m) \<longrightarrow> k \<in> h_key ` set gs) \<and>
         (\<forall>h \<in> set gs. IsDeployed (h_key h) (am_state m) \<longrightarrow> IsRunning (h_key h) (am_state m) = in_run (h_pc h)))"

lemma exclusive_invI:
  assumes "state_inv (am_state (sy_manager s))" and "distinct (map h_key (am_goroutines (sy_manager s)))"
    and "\<And>k. IsDeployed k (am_state (sy_manager s)) \<Longrightarrow> k \<in> h_key ` set (am_goroutines (sy_manager s))"
    and "\<And>h. h \<in> set (am_goroutines (sy_manager s)) \<Longrightarrow> IsDeployed (h_key h) (am_state (sy_manager s)) \<Longrightarrow>
      IsRunning (h_key h) (am_state (sy_manager s)) = in_run (h_pc h)"
  shows "exclusive_inv s"
  using assms by (simp add: exclusive_inv_def Let_def)

lemma exclusive_invD:
  assumes "exclusive_inv s"
  shows "state_inv (am_state (sy_manager s))" "distinct (map h_key (am_goroutines (sy_manager s)))"
    "IsDeployed k (am_state (sy_manager s)) \<Longrightarrow> k \<in> h_key ` set (am_goroutines (sy_manager s))"
    "h \<in> set (am_goroutines (sy_manager s)) \<Longrightarrow> IsDeployed (h_key h) (am_state (sy_manager s)) \<Longrightarrow>
      IsRunning (h_key h) (am_state (sy_manager s)) = in_run (h_pc h)"
  using assms by (simp_all add: exclusive_inv_def Let_def)

section \<open>The running flag under the operations\<close>

lemma IsRunning_iff: "IsRunning k st \<longleftrightarrow> (\<exists>a e. map_of (as_counterMeasures st) k = Some a \<and> as_entries st a = Some e \<and> en_running e)"
  by (auto simp: IsRunning_def entry_at_def split: option.splits)

lemma addresses_distinct:
  "state_inv st \<Longrightarrow> map_of (as_counterMeasures st) k = Some a \<Longrightarrow> map_of (as_counterMeasures st) k' = Some a \<Longrightarrow> k' = k"
  using state_invD(2) by (metis option.inject)

lemma IsRunning_set_entry:
  assumes "state_inv st" and "map_of (as_counterMeasures st) k = Some a"
  shows "IsRunning k' (set_entry a e st) \<longleftrightarrow> (if k' = k then en_running e else IsRunning k' st)"
proof (cases "k' = k")
  case True
  with assms(2) show ?thesis
    by (simp add: IsRunning_def entry_at_def set_entry_def)
next
  case False
  then have "map_of (as_counterMeasures st) k' \<noteq> Some a"
    using addresses_distinct [OF assms] by blast
  with False show ?thesis
    by (auto simp: IsRunning_def entry_at_def set_entry_def split: option.splits)
qed

lemma IsRunning_Start:
  assumes "state_inv st" and "CounterMeasureStart now ev k st = Ret st'"
  shows "IsRunning k' st' \<longleftrightarrow> k' = k \<or> IsRunning k' st"
  using assms by (auto simp: CounterMeasureStart_def entry_at_Some Let_def IsRunning_set_entry split: option.splits if_splits)

lemma IsRunning_End:
  assumes "state_inv st" and "CounterMeasureEnd ev k st = Ret st'"
  shows "IsRunning k' st' \<longleftrightarrow> k' \<noteq> k \<and> IsRunning k' st"
  using assms by (auto simp: CounterMeasureEnd_def entry_at_Some IsRunning_set_entry split: option.splits if_splits)

lemma IsRunning_lookup:
  assumes "state_inv st" and "GetCounterMeasure now k st = (r, st')"
  shows "IsRunning k' st' \<longleftrightarrow> IsRunning k' st"
  using assms
  by (auto simp: GetCounterMeasure_def entry_at_Some IsRunning_set_entry clearExpiredLastRuns_def IsRunning_iff split: option.splits if_splits)

lemma IsRunning_Remove: "IsRunning k (state_Remove n st) \<longleftrightarrow> IsRunning k st \<and> ok_NamespacedName k \<noteq> n"
  by (auto simp: IsRunning_iff state_Remove_def go_map_simps)

lemma IsRunning_insert:
  assumes "state_inv st" and "\<not> IsDeployed (ToKey (cm_ObjectMeta cm)) st"
  shows "IsRunning k (state_insert cm st) \<longleftrightarrow> IsRunning k st"
  using assms state_invD(4) [OF assms(1), of "as_next st"]
  by (auto simp: IsRunning_def entry_at_def state_insert_def go_map_simps new_entry_def IsDeployed_def split: option.splits)

section \<open>The invariant\<close>

lemma exclusive_inv_handler:
  assumes inv: "exclusive_inv s" and i: "i < length (am_goroutines (sy_manager s))"
    and keys: "same_keys (am_state (sy_manager s)) st"
    and gs: "am_goroutines (sy_manager s') = (am_goroutines (sy_manager s))[i := (am_goroutines (sy_manager s) ! i)\<lparr>h_pc := pc\<rparr>]"
    and st: "am_state (sy_manager s') = st"
    and others: "\<And>k. k \<noteq> h_key (am_goroutines (sy_manager s) ! i) \<Longrightarrow> IsRunning k st = IsRunning k (am_state (sy_manager s))"
    and own: "IsDeployed (h_key (am_goroutines (sy_manager s) ! i)) st \<Longrightarrow>
      IsRunning (h_key (am_goroutines (sy_manager s) ! i)) st = in_run pc"
  shows "exclusive_inv s'"
proof -
  let ?gs = "am_goroutines (sy_manager s)"
  have keys_eq: "map h_key (am_goroutines (sy_manager s')) = map h_key ?gs"
    by (rule nth_equalityI) (use i in \<open>auto simp: gs nth_list_update\<close>)
  then have keys_image: "h_key ` set (am_goroutines (sy_manager s')) = h_key ` set ?gs"
    by (metis set_map)
  show ?thesis
  proof (rule exclusive_invI)
    fix h
    assume "h \<in> set (am_goroutines (sy_manager s'))" and dep: "IsDeployed (h_key h) (am_state (sy_manager s'))"
    then obtain j where j: "j < length ?gs" "h = (?gs[i := (?gs ! i)\<lparr>h_pc := pc\<rparr>]) ! j"
      using gs by (metis in_set_conv_nth length_list_update)
    show "IsRunning (h_key h) (am_state (sy_manager s')) = in_run (h_pc h)"
    proof (cases "j = i")
      case True
      then show ?thesis
        using j i st own dep by simp
    next
      case False
      then have h: "h = ?gs ! j" and "h_key (?gs ! j) \<noteq> h_key (?gs ! i)"
        using j i exclusive_invD(2) [OF inv] by (auto simp: distinct_conv_nth)
      moreover have "IsDeployed (h_key h) (am_state (sy_manager s))"
        using dep same_keys_Deployed [OF keys] st by simp
      ultimately show ?thesis
        using others st exclusive_invD(4) [OF inv, of h] j(1) by simp
    qed
  qed (use exclusive_invD [OF inv] keys st keys_eq keys_image same_keys_Deployed [OF keys] in \<open>simp_all add: same_keys_def\<close>)
qed

lemma exclusive_inv_unchanged:
  assumes "exclusive_inv s" and "am_goroutines (sy_manager s') = am_goroutines (sy_manager s)"
    and "am_state (sy_manager s') = am_state (sy_manager s)"
  shows "exclusive_inv s'"
  using assms by (simp add: exclusive_inv_def Let_def)

lemma exclusive_inv_crashed: "exclusive_inv s \<Longrightarrow> exclusive_inv (crashed c s)"
  by (rule exclusive_inv_unchanged) (simp_all add: crashed_def)

text \<open>A goroutine that goes on without touching the state.\<close>

lemma exclusive_inv_pc:
  assumes "exclusive_inv s" and "i < length (am_goroutines (sy_manager s))"
    and "am_goroutines (sy_manager s') = (am_goroutines (sy_manager s))[i := (am_goroutines (sy_manager s) ! i)\<lparr>h_pc := pc\<rparr>]"
    and "am_state (sy_manager s') = am_state (sy_manager s)"
    and "in_run pc = in_run (h_pc (am_goroutines (sy_manager s) ! i))"
  shows "exclusive_inv s'"
  using assms(1,2) same_keys_refl assms(3,4) refl
  by (rule exclusive_inv_handler) (use assms exclusive_invD(4) [OF assms(1)] in simp)

lemma on_lookup_running:
  assumes "state_inv st" and "on_lookup now k ev st = (pc, st')"
  shows "same_keys st st'" "\<not> in_run pc" "IsRunning k' st' = IsRunning k' st"
  using assms on_lookup_result [OF assms(2)] IsRunning_lookup [OF assms(1)]
  by (auto simp: on_lookup_def split: option.splits prod.splits)

lemma on_check_pc: "on_check env reg now ev e = Ret (pc, out) \<Longrightarrow> \<not> in_run pc"
  by (auto simp: on_check_def split: if_split_asm sum.split_asm elim!: go_bind_RetE)

lemma exclusive_inv_handler_step:
  assumes inv: "exclusive_inv s" and i: "i < length (am_goroutines (sy_manager s))" and "handler_of l = Some i"
    and step: "handler_step OnError env l (am_goroutines (sy_manager s) ! i) s = Some s'"
  shows "exclusive_inv s'"
proof -
  let ?m = "sy_manager s" and ?h = "am_goroutines (sy_manager s) ! i"
  note st = exclusive_invD(1) [OF inv]
  note pc = exclusive_inv_pc [OF inv i] and handler = exclusive_inv_handler [OF inv i]
  have l: "l \<in> {LReceive i, LRun i, LEnd i} \<or> (\<exists>now. l \<in> {LLookup i now, LCheck i now, LStart i now})"
    using assms(3) by (cases l) auto
  show ?thesis
  proof (cases l)
    case (LReceive j)
    then show ?thesis
      using l step by (auto simp: Let_def intro!: pc split: if_split_asm recv.split_asm prod.split_asm)
  next
    case (LLookup j now)
    with l step obtain ev pc st' where "h_pc ?h = HEvent ev" and look: "on_lookup now (h_key ?h) ev (am_state ?m) = (pc, st')"
      and s': "s' = with_manager (set_pc i pc (?m\<lparr>am_state := st'\<rparr>)) s"
      by (auto simp: Let_def split: handler_pc.split_asm prod.split_asm)
    note r = on_lookup_running [OF st look]
    have "IsDeployed (h_key ?h) st' \<Longrightarrow> IsRunning (h_key ?h) st' = in_run pc"
      using r(2,3) same_keys_Deployed [OF r(1)] exclusive_invD(4) [OF inv, of ?h] i \<open>h_pc ?h = HEvent ev\<close> by simp
    then show ?thesis
      using s' r by (intro handler [OF r(1), of s' pc]) simp_all
  next
    case (LCheck j now)
    then show ?thesis
      using l step by (auto simp: Let_def dest!: on_check_pc intro!: pc exclusive_inv_crashed [OF inv]
          split: handler_pc.split_asm option.split_asm go.split_asm)
  next
    case (LRun j)
    then show ?thesis
      using l step by (auto simp: Let_def intro!: pc exclusive_inv_crashed [OF inv] split: handler_pc.split_asm go.split_asm)
  next
    case (LStart j now)
    then show ?thesis
      using l step by (auto simp: Let_def IsRunning_Start [OF st] intro!: handler [OF same_keys_Start] exclusive_inv_crashed [OF inv]
          split: handler_pc.split_asm go.split_asm)
  next
    case (LEnd j)
    then show ?thesis
      using l step by (auto simp: Let_def IsRunning_End [OF st] intro!: handler [OF same_keys_End] exclusive_inv_crashed [OF inv]
          split: handler_pc.split_asm go.split_asm)
  qed (use l in simp_all)
qed

text \<open>The reconciler: a removed name, an inserted key.\<close>

lemma exclusive_inv_removed:
  assumes "exclusive_inv s" and "am_state (sy_manager s') = state_Remove n (am_state (sy_manager s))"
    and "am_goroutines (sy_manager s') = am_goroutines (sy_manager s)"
  shows "exclusive_inv s'"
  using exclusive_invD [OF assms(1)] assms(2,3)
  by (intro exclusive_invI) (auto simp: state_inv_Remove IsDeployed_Remove IsRunning_Remove)

lemma IsDeployed_insert: "IsDeployed k (state_insert cm st) \<longleftrightarrow> k = ToKey (cm_ObjectMeta cm) \<or> IsDeployed k st"
  by (auto simp: IsDeployed_def state_insert_def go_map_simps)

lemma exclusive_inv_inserted:
  assumes inv: "exclusive_inv s" and fresh: "ToKey (cm_ObjectMeta cm) \<notin> h_key ` set (am_goroutines (sy_manager s))"
    and absent: "name_absent (meta_name (cm_ObjectMeta cm)) (am_state (sy_manager s))"
    and st: "am_state (sy_manager s') = state_insert cm (am_state (sy_manager s))"
    and gs: "am_goroutines (sy_manager s') = am_goroutines (sy_manager s) @ [new_handler c (ToKey (cm_ObjectMeta cm))]"
  shows "exclusive_inv s'"
proof -
  have nd: "\<not> IsDeployed (ToKey (cm_ObjectMeta cm)) (am_state (sy_manager s))"
    using exclusive_invD(3) [OF inv] fresh by blast
  have "IsRunning k (state_insert cm (am_state (sy_manager s))) = IsRunning k (am_state (sy_manager s))" for k
    using IsRunning_insert [OF exclusive_invD(1) [OF inv] nd] .
  moreover have "\<not> IsRunning (ToKey (cm_ObjectMeta cm)) (am_state (sy_manager s))"
    using nd by (auto simp: IsRunning_iff IsDeployed_def)
  moreover have "state_inv (state_insert cm (am_state (sy_manager s)))"
    unfolding state_insert_Add [OF absent] using exclusive_invD(1) [OF inv] by (rule state_inv_Add)
  ultimately show ?thesis
    using exclusive_invD [OF inv] fresh st gs by (intro exclusive_invI) (force simp: IsDeployed_insert new_handler_def)+
qed

text \<open>Between its two critical sections \<open>state.Add\<close> has removed every key of the name.\<close>

definition installing_inv :: "('q, 'w) am_sys \<Rightarrow> bool" where
  "installing_inv s \<longleftrightarrow> (\<forall>cm c. sy_reconciler s = RInstalling cm c \<longrightarrow>
     name_absent (meta_name (cm_ObjectMeta cm)) (am_state (sy_manager s)))"

lemma installing_inv_handler_step:
  assumes "installing_inv s" and "handler_step OnError env l h s = Some s'"
  shows "installing_inv s'"
proof -
  have "same_keys (am_state (sy_manager s)) (am_state (sy_manager s')) \<and> sy_reconciler s' = sy_reconciler s"
    using assms(2)
    by (cases "(OnError, env, l, h, s)" rule: handler_step.cases)
      (auto simp: Let_def crashed_def same_keys_refl dest: on_lookup_result same_keys_Start same_keys_End
        split: if_split_asm recv.split_asm prod.split_asm handler_pc.split_asm option.split_asm go.split_asm)
  moreover from this have "IsDeployed k (am_state (sy_manager s')) = IsDeployed k (am_state (sy_manager s))" for k
    using same_keys_Deployed by blast
  ultimately show ?thesis
    using assms(1) by (simp add: installing_inv_def name_absent_def)
qed

lemma exclusive_inv_outer_step:
  assumes inv: "exclusive_inv s" "installing_inv s" and step: "outer_step l s = Some s'" and fresh: "fresh_keys s l"
  shows "exclusive_inv s' \<and> installing_inv s'"
proof (cases l)
  case (LSubscribe now cm)
  then show ?thesis
    using inv step by (auto simp: Let_def installing_inv_def intro: exclusive_inv_unchanged split: if_split_asm prod.split_asm)
next
  case LInstall
  then show ?thesis
    using inv step
    by (auto simp: Let_def installing_inv_def name_absent_Remove intro: exclusive_inv_removed split: reconciler_pc.split_asm)
next
  case LInsert
  then show ?thesis
    using inv step fresh
    by (auto simp: Let_def installing_inv_def intro: exclusive_inv_inserted [OF inv(1)] split: reconciler_pc.split_asm)
next
  case (LRemove n)
  then show ?thesis
    using inv step
    by (auto simp: installing_inv_def dest!: drop_consumer_state intro: exclusive_inv_unchanged split: if_split_asm go.split_asm)
next
  case LForget
  then show ?thesis
    using inv step
    by (auto simp: Let_def installing_inv_def intro: exclusive_inv_removed split: reconciler_pc.split_asm)
next
  case (LSend c ev)
  then show ?thesis
    using inv step
    by (auto simp: Let_def installing_inv_def intro: exclusive_inv_unchanged split: go.split_asm prod.split_asm bool.split_asm)
qed (use step in simp_all)

lemma exclusive_inv_reachable: "am_reachable fresh_keys OnError env s \<Longrightarrow> exclusive_inv s \<and> installing_inv s"
proof (induction rule: am_reachable.induct)
  case (init bus cl)
  show ?case
    by (simp add: exclusive_inv_def installing_inv_def am_init_def NewFromManager_def state_inv_New)
      (simp add: IsDeployed_def NewState_def)
next
  case (step s l s')
  show ?case
  proof (cases "handler_of l")
    case None
    then show ?thesis
      using step exclusive_inv_outer_step [of s l s'] by (simp add: am_do_def split: if_split_asm)
  next
    case (Some i)
    then show ?thesis
      using step exclusive_inv_handler_step [of s i l OnError env s'] installing_inv_handler_step
      by (simp add: am_do_def split: if_split_asm) blast
  qed
qed

section \<open>Runs of one countermeasure\<close>

text \<open>C12:
  As long as no key is installed twice, runs of a countermeasure never overlap, however the
  reconciler, the bus and the goroutines interleave: at most one goroutine has the key, and
  the running flag of a deployed countermeasure is set exactly while that goroutine is
  between the start and the end of a run.
\<close>

theorem runs_are_exclusive:
  assumes "am_reachable fresh_keys OnError env s" and "IsDeployed k (am_state (sy_manager s))"
  shows "\<exists>i. i < length (am_goroutines (sy_manager s)) \<and> h_key (am_goroutines (sy_manager s) ! i) = k \<and>
    (IsRunning k (am_state (sy_manager s)) \<longleftrightarrow> in_run (h_pc (am_goroutines (sy_manager s) ! i))) \<and>
    (\<forall>j < length (am_goroutines (sy_manager s)). h_key (am_goroutines (sy_manager s) ! j) = k \<longrightarrow> j = i)"
proof -
  have inv: "exclusive_inv s"
    using exclusive_inv_reachable [OF assms(1)] by simp
  obtain i where "i < length (am_goroutines (sy_manager s))" "h_key (am_goroutines (sy_manager s) ! i) = k"
    using exclusive_invD(3) [OF inv assms(2)] by (auto simp: in_set_conv_nth)
  then show ?thesis
    using exclusive_invD(2,4) [OF inv] assms(2) by (intro exI [of _ i]) (auto simp: distinct_conv_nth)
qed

theorem runs_are_exclusive_witness:
  "\<exists>s :: (fifo, NamespacedName list) am_sys. am_run (bounded_attempts 3) demo_env running_schedule demo_sys = Some s \<and>
     IsRunning (ToKey (cm_ObjectMeta sample_cm)) (am_state (sy_manager s)) \<and>
     (\<exists>i. i < length (am_goroutines (sy_manager s)) \<and>
        h_key (am_goroutines (sy_manager s) ! i) = ToKey (cm_ObjectMeta sample_cm) \<and> in_run (h_pc (am_goroutines (sy_manager s) ! i)))"
proof -
  let ?r = "am_run (bounded_attempts 3) demo_env running_schedule demo_sys" and ?k = "ToKey (cm_ObjectMeta sample_cm)"
  have "?r \<noteq> None \<and> IsRunning ?k (am_state (sy_manager (the ?r))) \<and> IsDeployed ?k (am_state (sy_manager (the ?r)))"
    by code_simp
  then obtain s where s: "?r = Some s" "IsRunning ?k (am_state (sy_manager s))" "IsDeployed ?k (am_state (sy_manager s))"
    by auto
  have "guarded_run fresh_keys (bounded_attempts 3) demo_env running_schedule demo_sys"
    by code_simp
  then show ?thesis
    using runs_are_exclusive [OF guarded_run_reachable [OF demo_sys_reachable _ s(1)] s(3)] s by blast
qed

text \<open>
  The schedule in which a countermeasure is deleted and created again with its first generation
  while an event is still in the channel of its old goroutine.
\<close>

definition recreate_schedule :: "label list" where
  "recreate_schedule =
     [LSubscribe ''t'' sample_cm, LInstall, LInsert, LSend 0 demo_event, LRemove (meta_name (cm_ObjectMeta sample_cm)), LForget,
      LSubscribe ''u'' sample_cm, LInstall, LInsert, LSend 1 demo_event,
      LReceive 0, LReceive 1, LLookup 0 0, LLookup 1 0, LCheck 0 0, LCheck 1 0, LStart 0 0, LStart 1 0]"

text \<open>
  When a countermeasure is deleted and created again, its runs can overlap, even if names are
  only removed while idle: the old goroutine still drains the events in its channel, finds
  the new entry under the same key, and both goroutines pass the test before either of them
  sets the flag.
\<close>

lemma recreated_runs_overlap:
  "\<exists>s :: (fifo, NamespacedName list) am_sys. am_reachable disciplined (bounded_attempts 3) demo_env s \<and>
     map (\<lambda>h. (h_key h, in_run (h_pc h))) (am_goroutines (sy_manager s)) =
       [(ToKey (cm_ObjectMeta sample_cm), True), (ToKey (cm_ObjectMeta sample_cm), True)]"
proof -
  let ?r = "am_run (bounded_attempts 3) demo_env recreate_schedule demo_sys" and ?k = "ToKey (cm_ObjectMeta sample_cm)"
  have "?r \<noteq> None \<and> map (\<lambda>h. (h_key h, in_run (h_pc h))) (am_goroutines (sy_manager (the ?r))) = [(?k, True), (?k, True)]"
    by code_simp
  then obtain s where s: "?r = Some s" "map (\<lambda>h. (h_key h, in_run (h_pc h))) (am_goroutines (sy_manager s)) = [(?k, True), (?k, True)]"
    by auto
  have "guarded_run disciplined (bounded_attempts 3) demo_env recreate_schedule demo_sys"
    by code_simp
  from guarded_run_reachable [OF demo_sys_reachable this s(1)] s(2) show ?thesis
    by (intro exI [of _ s] conjI)
qed

end
