(* ===== verification/Handler_Runs.thy ===== *)
theory Handler_Runs
  imports Manager_Concurrency
begin

text \<open>
  The body of the event loop, handled without interruption (\<open>handle_event\<close> of theory
  Action_Manager), is one of the interleavings of Manager_Concurrency: the steps of the
  goroutine one after the other lead to the same state, the same requests and the same
  reports.
\<close>

lemma am_do_handler:
  "sy_crash s = None \<Longrightarrow> handler_of l = Some i \<Longrightarrow> i < length (am_goroutines (sy_manager s)) \<Longrightarrow>
   am_do OnError env l s = handler_step OnError env l (am_goroutines (sy_manager s) ! i) s"
  by (simp add: am_do_def)

text \<open>The system in which goroutine \<open>i\<close> is at \<open>pc\<close>, with the given state, cluster and reports.\<close>

definition at_pc :: "nat \<Rightarrow> handler_pc \<Rightarrow> ActionState \<Rightarrow> 'w cluster \<Rightarrow> report list \<Rightarrow> ('q, 'w) am_sys \<Rightarrow> ('q, 'w) am_sys" where
  "at_pc i pc st cl out s =
     s\<lparr>sy_manager := set_pc i pc ((sy_manager s)\<lparr>am_state := st\<rparr>), sy_cluster := cl, sy_reports := sy_reports s @ out\<rparr>"

lemma set_pc_goroutines_again:
  "(hs[i := (hs ! i)\<lparr>h_pc := pc'\<rparr>])[i := (hs[i := (hs ! i)\<lparr>h_pc := pc'\<rparr>] ! i)\<lparr>h_pc := pc\<rparr>] = hs[i := (hs ! i)\<lparr>h_pc := pc\<rparr>]"
proof (cases "i < length hs")
  case True
  then show ?thesis
    by (simp only: nth_list_update_eq list_update_overwrite) simp
qed (simp add: list_update_beyond)

lemma set_pc_again: "set_pc i pc (set_pc i pc' m) = set_pc i pc m"
  using set_pc_goroutines_again [of "am_goroutines m" i pc' pc] by (simp add: set_pc_def)

lemma set_pc_state: "(set_pc i pc m)\<lparr>am_state := st\<rparr> = set_pc i pc (m\<lparr>am_state := st\<rparr>)"
  by (simp add: set_pc_def)

lemma at_pc_simps [simp]:
  "am_state (sy_manager (at_pc i pc st cl out s)) = st" "sy_cluster (at_pc i pc st cl out s) = cl"
  "sy_crash (at_pc i pc st cl out s) = sy_crash s"
  "am_ActionRegistry (sy_manager (at_pc i pc st cl out s)) = am_ActionRegistry (sy_manager s)"
  "length (am_goroutines (sy_manager (at_pc i pc st cl out s))) = length (am_goroutines (sy_manager s))"
  "i < length (am_goroutines (sy_manager s)) \<Longrightarrow>
   am_goroutines (sy_manager (at_pc i pc st cl out s)) ! i = (am_goroutines (sy_manager s) ! i)\<lparr>h_pc := pc\<rparr>"
  by (simp_all add: at_pc_def)

lemma at_pc_update:
  "with_manager (set_pc i pc' (sy_manager (at_pc i pc st cl out s))) (at_pc i pc st cl out s) = at_pc i pc' st cl out s"
  "with_manager (set_pc i pc' ((sy_manager (at_pc i pc st cl out s))\<lparr>am_state := st'\<rparr>)) (at_pc i pc st cl out s) =
     at_pc i pc' st' cl out s"
  by (simp_all add: at_pc_def with_manager_def set_pc_state set_pc_again)

lemma lookup_step:
  assumes "sy_crash s = None" and "i < length (am_goroutines (sy_manager s))" and "h_pc (am_goroutines (sy_manager s) ! i) = HEvent ev"
    and "on_lookup t (h_key (am_goroutines (sy_manager s) ! i)) ev (am_state (sy_manager s)) = (pc, st)"
  shows "am_do OnError env (LLookup i t) s = Some (at_pc i pc st (sy_cluster s) [] s)"
  using assms by (simp add: am_do_handler Let_def at_pc_def with_manager_def)

lemma check_step:
  assumes "sy_crash s = None" and "i < length (am_goroutines (sy_manager s))" and "as_entries st a = Some e"
    and "on_check env (am_ActionRegistry (sy_manager s)) t ev e = Ret (pc, out)"
  shows "am_do OnError env (LCheck i t) (at_pc i (HEntry ev a) st cl [] s) = Some (at_pc i pc st cl out s)"
  using assms by (simp add: am_do_handler Let_def at_pc_update(1)) (simp add: at_pc_def)

lemma start_step:
  assumes "sy_crash s = None" and "i < length (am_goroutines (sy_manager s))"
    and "CounterMeasureStart t ev (h_key (am_goroutines (sy_manager s) ! i)) st = Ret st'"
  shows "am_do OnError env (LStart i t) (at_pc i (HBuilt ev cm seq) st cl out s) = Some (at_pc i (HRunning ev cm seq) st' cl out s)"
  using assms by (simp add: am_do_handler Let_def at_pc_update)

lemma run_step:
  assumes "sy_crash s = None" and "i < length (am_goroutines (sy_manager s))"
    and "Run OnError seq \<lparr>ctx_env = env, ctx_CounterMeasure = cm\<rparr> ev cl = Ret (cl', out)"
  shows "am_do OnError env (LRun i) (at_pc i (HRunning ev cm seq) st cl [] s) = Some (at_pc i (HRan ev) st cl' out s)"
  using assms by (simp add: am_do_handler Let_def at_pc_update(1)) (simp add: at_pc_def)

lemma end_step:
  assumes "sy_crash s = None" and "i < length (am_goroutines (sy_manager s))"
    and "CounterMeasureEnd ev (h_key (am_goroutines (sy_manager s) ! i)) st = Ret st'"
  shows "am_do OnError env (LEnd i) (at_pc i (HRan ev) st cl out s) = Some (at_pc i HWait st' cl out s)"
  using assms by (simp add: am_do_handler Let_def at_pc_update)

lemma on_check_cases:
  assumes "on_check env reg t ev e = Ret (pc, out)"
  obtains "pc = HWait" | cm seq where "pc = HBuilt ev cm seq" "out = []"
  using assms by (auto simp: on_check_def split: if_split_asm sum.split_asm elim!: go_bind_RetE)

text \<open>C21:
  The sequential body of the event loop is refined by the interleaved system: if handling an
  event without interruption returns, then the goroutine's own steps, with the same readings
  of the clock, lead to the state, cluster and reports it returns, and to waiting for the
  next event.
\<close>

theorem handle_event_simulated:
  assumes "sy_crash s = None" and "i < length (am_goroutines (sy_manager s))"
    and "h_pc (am_goroutines (sy_manager s) ! i) = HEvent ev"
    and "handle_event OnError env (am_ActionRegistry (sy_manager s)) t1 t2 t3 (h_key (am_goroutines (sy_manager s) ! i)) ev
      (am_state (sy_manager s)) (sy_cluster s) = Ret (st, cl, out)"
  shows "\<exists>ls \<in> {[LLookup i t1], [LLookup i t1, LCheck i t2], [LLookup i t1, LCheck i t2, LStart i t3, LRun i, LEnd i]}.
    am_run OnError env ls s = Some (at_pc i HWait st cl out s)"
proof (cases "GetCounterMeasure t1 (h_key (am_goroutines (sy_manager s) ! i)) (am_state (sy_manager s))")
  case (Pair r s1)
  note look = lookup_step [OF assms(1-3), of t1]
  show ?thesis
  proof (cases r)
    case None
    then show ?thesis
      using assms(4) Pair look [of HWait s1] by (simp add: handle_event_def on_lookup_def)
  next
    case (Some a)
    then obtain e pc out1 where e: "as_entries s1 a = Some e"
      and check: "on_check env (am_ActionRegistry (sy_manager s)) t2 ev e = Ret (pc, out1)"
      and rest: "(case pc of
          HBuilt e cm seq \<Rightarrow>
            go_bind (CounterMeasureStart t3 ev (h_key (am_goroutines (sy_manager s) ! i)) s1) (\<lambda>s2.
            go_bind (Run OnError seq \<lparr>ctx_env = env, ctx_CounterMeasure = cm\<rparr> ev (sy_cluster s)) (\<lambda>(cl', out').
            go_bind (CounterMeasureEnd ev (h_key (am_goroutines (sy_manager s) ! i)) s2) (\<lambda>s3. Ret (s3, cl', out'))))
        | _ \<Rightarrow> Ret (s1, sy_cluster s, out1)) = Ret (st, cl, out)"
      using assms(4) Pair by (auto simp: handle_event_def go_bind_Ret_iff split: option.split_asm)
    have steps: "am_do OnError env (LLookup i t1) s = Some (at_pc i (HEntry ev a) s1 (sy_cluster s) [] s)"
      "am_do OnError env (LCheck i t2) (at_pc i (HEntry ev a) s1 (sy_cluster s) [] s) = Some (at_pc i pc s1 (sy_cluster s) out1 s)"
      using look [of "HEntry ev a" s1] Some Pair check_step [OF assms(1,2) e check] by (simp_all add: on_lookup_def)
    from check show ?thesis
    proof (rule on_check_cases)
      assume "pc = HWait"
      with rest steps show ?thesis
        by simp
    next
      fix cm seq
      assume built: "pc = HBuilt ev cm seq" "out1 = []"
      with rest obtain s2 where "CounterMeasureStart t3 ev (h_key (am_goroutines (sy_manager s) ! i)) s1 = Ret s2"
        and "Run OnError seq \<lparr>ctx_env = env, ctx_CounterMeasure = cm\<rparr> ev (sy_cluster s) = Ret (cl, out)"
        and "CounterMeasureEnd ev (h_key (am_goroutines (sy_manager s) ! i)) s2 = Ret st"
        by (auto simp: go_bind_Ret_iff)
      with steps built show ?thesis
        using start_step [OF assms(1,2)] run_step [OF assms(1,2)] end_step [OF assms(1,2)] by simp
    qed
  qed
qed

text \<open>Up to the receipt of the event.\<close>

definition received_sys :: "(fifo, NamespacedName list) am_sys" where
  "received_sys = the (am_run (bounded_attempts 3) demo_env (take 5 running_schedule) demo_sys)"

definition handled :: "(ActionState \<times> NamespacedName list cluster \<times> report list) go" where
  "handled = handle_event (bounded_attempts 3) demo_env (am_ActionRegistry (sy_manager received_sys)) 0 0 0
     (h_key (am_goroutines (sy_manager received_sys) ! 0)) demo_event (am_state (sy_manager received_sys)) (sy_cluster received_sys)"

theorem handle_event_simulated_witness:
  "\<exists>st cl out. handled = Ret (st, cl, out) \<and> cl_log cl \<noteq> [] \<and>
     (\<exists>ls \<in> {[LLookup 0 0], [LLookup 0 0, LCheck 0 0], [LLookup 0 0, LCheck 0 0, LStart 0 0, LRun 0, LEnd 0]}.
        am_run (bounded_attempts 3) demo_env ls received_sys = Some (at_pc 0 HWait st cl out received_sys))"
proof -
  have start: "sy_crash received_sys = None" "0 < length (am_goroutines (sy_manager received_sys))"
    "h_pc (am_goroutines (sy_manager received_sys) ! 0) = HEvent demo_event"
    by code_simp+
  have "case handled of Ret (st, cl, out) \<Rightarrow> cl_log cl \<noteq> [] | Panics p \<Rightarrow> False"
    by code_simp
  then obtain st cl out where ran: "handled = Ret (st, cl, out)" "cl_log cl \<noteq> []"
    by (auto split: go.split_asm)
  from handle_event_simulated [OF start ran(1) [unfolded handled_def]] ran show ?thesis
    by blast
qed

end
