(* ===== verification/Convergence.thy ===== *)
theory Convergence
  imports CM_Controller
begin

text \<open>
  Where the reconciler of countermeasures leads: against a server whose specs do not change,
  reconciling a set of names, in any order and any number of times, ends with the
  countermeasures that the resources ask for.
\<close>

section \<open>A server at rest\<close>

text \<open>
  \<open>view w n\<close> is the spec that the server holds under the name \<open>n\<close>. Reading finds it, and writing
  the status of a resource leaves every spec as it is; requests do not fail. \<open>ok\<close> is an invariant
  of the world of the server.
\<close>

definition steady_server :: "('w \<Rightarrow> NamespacedName \<Rightarrow> CounterMeasureSpec option) \<Rightarrow> ('w \<Rightarrow> bool) \<Rightarrow> (CounterMeasure, 'w) cr_api \<Rightarrow> bool" where
  "steady_server view ok api \<longleftrightarrow>
     (\<forall>n w r w'. ok w \<and> cr_Get api n w = (r, w') \<longrightarrow> ok w' \<and> view w' = view w \<and>
        (case r of Inl e \<Rightarrow> IsNotFound e \<and> view w n = None | Inr cr \<Rightarrow> view w n = Some (cm_Spec cr))) \<and>
     (\<forall>cr w r w'. ok w \<and> view w (meta_name (cm_ObjectMeta cr)) = Some (cm_Spec cr) \<and> cr_StatusUpdate api cr w = (r, w') \<longrightarrow>
        ok w' \<and> view w' = view w \<and> r = None)"

definition holds :: "('w \<Rightarrow> NamespacedName \<Rightarrow> CounterMeasureSpec option) \<Rightarrow> ('w \<Rightarrow> bool) \<Rightarrow>
    (NamespacedName \<Rightarrow> CounterMeasureSpec option) \<Rightarrow> 'w \<Rightarrow> bool" where
  "holds view ok v w \<longleftrightarrow> ok w \<and> view w = v"

lemma steady_Get:
  assumes "steady_server view ok api" and "holds view ok v w" and "cr_Get api n w = (r, w')"
  shows "holds view ok v w'" and "case r of Inl e \<Rightarrow> IsNotFound e \<and> v n = None | Inr cr \<Rightarrow> v n = Some (cm_Spec cr)"
  using assms unfolding steady_server_def holds_def by metis+

lemma steady_Update:
  assumes "steady_server view ok api" and "holds view ok v w" and "v (meta_name (cm_ObjectMeta cr)) = Some (cm_Spec cr)"
    and "cr_StatusUpdate api cr w = (r, w')"
  shows "holds view ok v w'" and "r = None"
  using assms unfolding steady_server_def holds_def by metis+

text \<open>Writing a status changes neither the name nor the spec of the object that is written.\<close>

lemma status_frames [simp]:
  "cm_Spec (cm_success_status api meta cm) = cm_Spec cm" "cm_ObjectMeta (cm_success_status api meta cm) = cm_ObjectMeta cm"
  "cm_Spec (cm_error_status api meta err cm) = cm_Spec cm" "cm_ObjectMeta (cm_error_status api meta err cm) = cm_ObjectMeta cm"
  "cm_Spec (cm_initial_status api cm) = cm_Spec cm" "cm_ObjectMeta (cm_initial_status api cm) = cm_ObjectMeta cm"
  by (simp_all add: cm_success_status_def cm_error_status_def cm_initial_status_def)

lemma steady_write:
  assumes "steady_server view ok api" and "named_api cm_ObjectMeta api" and "holds view ok v w" and "cr_Get api n w = (Inr cr, w1)"
    and "cm_Spec cr' = cm_Spec cr" and "cm_ObjectMeta cr' = cm_ObjectMeta cr" and "cr_StatusUpdate api cr' w1 = (r, w2)"
  shows "holds view ok v w2" and "r = None"
proof -
  have "v (meta_name (cm_ObjectMeta cr')) = Some (cm_Spec cr')"
    using steady_Get(2) [OF assms(1,3,4)] named_apiD [OF assms(2,4)] assms(5,6) by simp
  then show "holds view ok v w2" "r = None"
    using steady_Update [OF assms(1) steady_Get(1) [OF assms(1,3,4)] _ assms(7)] by simp_all
qed

section \<open>The status updates keep the server at rest\<close>

lemma steady_HandleSuccess:
  assumes "steady_server view ok api" and "named_api cm_ObjectMeta api" and "retry_contract n OnError" and "holds view ok v w"
    and "HandleSuccess OnError api meta w = Ret (res, w')"
  shows "holds view ok v w'"
proof -
  let ?f = "success_attempt api \<lparr>nn_Namespace = om_Namespace meta, nn_Name = om_Name meta\<rparr> (cm_success_status api meta)"
  obtain r where run: "bounded_attempts n IsConflict ?f w = Ret (r, w')"
    using assms(3,5) by (auto simp: HandleSuccess_def update_success_def RetryOnConflict_def retry_contract_def elim!: go_bind_RetE)
  have step: "holds view ok v t'" if "holds view ok v t" "?f t = Ret (r, t')" for t r t'
    using that steady_Get(1) [OF assms(1) that(1)] steady_write(1) [OF assms(1,2) that(1) _ status_frames(1,2)]
    by (auto simp: success_attempt_def split: prod.split_asm sum.split_asm)
  show ?thesis
    using bounded_attempts_invar [OF run, of "holds view ok v" "\<lambda>r t. True"] assms(4) step by blast
qed

lemma steady_HandleError:
  assumes "steady_server view ok api" and "named_api cm_ObjectMeta api" and "retry_contract n OnError" and "holds view ok v w"
    and "HandleErrorAndRequeue OnError api meta err after w = Ret (res, w')"
  shows "holds view ok v w'"
proof -
  let ?f = "error_attempt api \<lparr>nn_Namespace = om_Namespace meta, nn_Name = om_Name meta\<rparr> (cm_error_status api meta)"
  obtain r err' out where run: "bounded_attempts n IsConflict ?f (Some err, w, []) = Ret (r, err', w', out)"
    using assms(3,5) by (auto simp: HandleErrorAndRequeue_def update_error_def RetryOnConflict_def retry_contract_def
        elim!: go_bind_RetE split: option.split_asm prod.split_asm)
  have step: "holds view ok v (fst (snd t'))" if "holds view ok v (fst (snd t))" "?f t = Ret (r, t')" for t r t'
    using that steady_Get(1) [OF assms(1) that(1)] steady_write(1) [OF assms(1,2) that(1) _ status_frames(3,4)]
    by (cases t) (auto simp: error_attempt_def split: prod.split_asm sum.split_asm option.split_asm)
  show ?thesis
    using bounded_attempts_invar [OF run, of "\<lambda>t. holds view ok v (fst (snd t))" "\<lambda>r t. True"] assms(4) step by auto
qed

lemma steady_MarkInitializing:
  assumes "steady_server view ok api" and "named_api cm_ObjectMeta api" and "retry_contract n OnError" and "holds view ok v w"
    and "v (meta_name (cm_ObjectMeta cr)) = Some (cm_Spec cr)"
  shows "\<exists>cr' w'. MarkInitializing OnError api cr w = Ret (None, cr', w') \<and> holds view ok v w' \<and>
    cm_Spec cr' = cm_Spec cr \<and> meta_name (cm_ObjectMeta cr') = meta_name (cm_ObjectMeta cr)"
proof (cases "cx_Conditions (cm_Status cr)")
  case (Cons c cs)
  then show ?thesis
    using assms(4) by (simp add: MarkInitializing_def)
next
  case Nil
  obtain r w1 where get: "cr_Get api (meta_name (cm_ObjectMeta cr)) w = (r, w1)"
    by fastforce
  then obtain cr1 where cr1: "r = Inr cr1" "cm_Spec cr1 = cm_Spec cr"
    using steady_Get(2) [OF assms(1,4) get] assms(5) by (auto split: sum.split_asm)
  obtain e w2 where update: "cr_StatusUpdate api (cm_initial_status api cr1) w1 = (e, w2)"
    by fastforce
  from steady_write [OF assms(1,2,4) get [unfolded cr1(1)] _ _ update] have "holds view ok v w2" "e = None"
    by simp_all
  then have "init_attempt api cm_ObjectMeta (cm_initial_status api) (cr, w) = Ret (None, cm_initial_status api cr1, w2)"
    using get cr1(1) update by (simp add: init_attempt_def)
  then show ?thesis
    using Nil assms(3) bounded_attempts_success [of "init_attempt api cm_ObjectMeta (cm_initial_status api)"]
      \<open>holds view ok v w2\<close> cr1 named_apiD [OF assms(2) get [unfolded cr1(1)]]
    by (auto simp: MarkInitializing_def RetryOnConflict_def retry_contract_def)
qed

section \<open>One reconciliation\<close>

definition specs :: "('q, 'w) Manager \<Rightarrow> NamespacedName \<Rightarrow> CounterMeasureSpec option" where
  "specs m n = map_option cm_Spec (deployed (am_state m) n)"

text \<open>
  What is deployed under a name after it has been reconciled, given what the server holds and
  what was deployed: nothing if the server has no such resource, what was deployed before if
  there was something, else the resource if it is valid and its sources can be listed.
\<close>

definition wanted :: "(LabelSelector \<Rightarrow> goerror + 'sel) \<Rightarrow> ('sel \<Rightarrow> goerror option) \<Rightarrow> CounterMeasureSpec option \<Rightarrow>
    CounterMeasureSpec option \<Rightarrow> CounterMeasureSpec option" where
  "wanted asSelector List stored before =
     (case stored of
        None \<Rightarrow> None
      | Some spec \<Rightarrow>
          (case before of
             Some old \<Rightarrow> Some old
           | None \<Rightarrow> if valid_spec spec \<and> resolve_sources asSelector List (cs_OnEvent spec) = None then Some spec else None))"

lemma wanted_idem: "wanted asSelector List stored (wanted asSelector List stored before) = wanted asSelector List stored before"
  by (simp add: wanted_def split: option.split)

lemma steady_Reconcile_absent:
  fixes m :: "('q, 'w) Manager"
  assumes "manager_inv m" and "retriers_contract k rt" and "named_api cm_ObjectMeta api" and "aggregate_contract A"
    and "steady_server view ok api" and "holds view ok v w"
    and "cr_Get api req w = (Inr cr, w1)" and "\<not> manager_Exists (cm_ObjectMeta cr) m"
  shows "\<exists>res m' w'. Reconcile rt api A (action_manager_ops asSelector List now) req (m, w) = Ret (res, m', w') \<and>
    manager_inv m' \<and> holds view ok v w' \<and>
    specs m' = (if valid_spec (cm_Spec cr) \<and> resolve_sources asSelector List (cs_OnEvent (cm_Spec cr)) = None
      then (specs m)(req \<mapsto> cm_Spec cr) else specs m)"
proof -
  have w1: "holds view ok v w1" and stored: "v req = Some (cm_Spec cr)" and name: "meta_name (cm_ObjectMeta cr) = req"
    using steady_Get [OF assms(5-7)] named_apiD [OF assms(3,7)] by simp_all
  have rt: "retry_contract k (rt_success rt)" "retry_contract k (rt_error rt)" "retry_contract k (rt_init rt)"
    using assms(2) by (simp_all add: retriers_contract_def)
  obtain cr' w2 where mark: "MarkInitializing (rt_init rt) api cr w1 = Ret (None, cr', w2)" and w2: "holds view ok v w2"
    and cr': "cm_Spec cr' = cm_Spec cr" "meta_name (cm_ObjectMeta cr') = req"
    using steady_MarkInitializing [OF assms(5,3) rt(3) w1] stored name by metis
  have failed: "\<exists>res w'. with_m m (base_HandleError (HandleErrorAndRequeue (rt_error rt) api) (cm_ObjectMeta cr') e w2) = Ret (res, m, w') \<and>
      holds view ok v w'" for e
    using HandleErrorAndRequeue_returns [OF rt(2), of api "cm_ObjectMeta cr'" e 0 w2] steady_HandleError [OF assms(5,3) rt(2) w2]
    by (fastforce simp: base_HandleError_def with_m_def returns_iff)
  have success: "\<exists>res w'. with_m m' (HandleSuccess (rt_success rt) api (cm_ObjectMeta cr') w2) = Ret (res, m', w') \<and> holds view ok v w'"
    for m' :: "('q, 'w) Manager"
    using HandleSuccess_returns [OF rt(1), of api "cm_ObjectMeta cr'" w2] steady_HandleSuccess [OF assms(5,3) rt(1) w2]
    by (fastforce simp: with_m_def returns_iff)
  show ?thesis
  proof (cases "ValidateSpec A (cm_Spec cr)")
    case (Some e)
    then have "\<not> valid_spec (cm_Spec cr)"
      using ValidateSpec_None [OF assms(4), of "cm_Spec cr"] by simp
    then show ?thesis
      using assms(1,7,8) mark Some failed [of e] cr'(1)
      by (auto simp: Reconcile_def isValid_def action_manager_ops_def Let_def)
  next
    case None
    then have valid: "valid_spec (cm_Spec cr)"
      using ValidateSpec_None [OF assms(4), of "cm_Spec cr"] by simp
    show ?thesis
    proof (cases "resolve_sources asSelector List (cs_OnEvent (cm_Spec cr))")
      case (Some e)
      then show ?thesis
        using assms(1,7,8) mark None failed [of e] cr'(1)
        by (auto simp: Reconcile_def isValid_def action_manager_ops_def manager_Add_cases Let_def)
    next
      case resolved: None
      let ?m = "added now cr' m"
      have add: "manager_Add asSelector List now cr' m = Ret (None, ?m)"
        using resolved cr'(1) by (simp add: manager_Add_cases)
      have "specs ?m = (specs m)(req \<mapsto> cm_Spec cr)"
        using deployed_after_Add [OF assms(1) add] cr' by (auto simp: specs_def)
      then show ?thesis
        using assms(7,8) mark None valid resolved add success [of ?m] cr'(1) manager_inv_added [OF assms(1)]
        by (auto simp: Reconcile_def isValid_def action_manager_ops_def Let_def)
    qed
  qed
qed

lemma steady_Reconcile:
  fixes m :: "('q, 'w) Manager"
  assumes "manager_inv m" and "retriers_contract k rt" and "named_api cm_ObjectMeta api" and "aggregate_contract A"
    and "steady_server view ok api" and "holds view ok v w"
  shows "\<exists>res m' w'. Reconcile rt api A (action_manager_ops asSelector List now) req (m, w) = Ret (res, m', w') \<and>
    manager_inv m' \<and> holds view ok v w' \<and> specs m' = (specs m)(req := wanted asSelector List (v req) (specs m req))"
proof (cases "cr_Get api req w")
  case (Pair got w1)
  have w1: "holds view ok v w1"
    using steady_Get(1) [OF assms(5,6) Pair] .
  show ?thesis
  proof (cases got)
    case (Inl e)
    then have "IsNotFound e" "v req = None"
      using steady_Get(2) [OF assms(5,6) Pair] by simp_all
    then obtain m' where "Reconcile rt api A (action_manager_ops asSelector List now) req (m, w) = Ret ((zero_result, None), m', w1)"
      "manager_Remove req m = Ret (None, m')" "manager_inv m'"
      using reconciled.reconcile_not_found [OF assms(1) Pair [unfolded Inl]] unfolding action_manager_ops_def by blast
    then show ?thesis
      using w1 \<open>v req = None\<close> deployed_after_Remove [OF assms(1)]
      by (intro exI [of _ "(zero_result, None)"] exI [of _ m'] exI [of _ w1]) (auto simp: specs_def wanted_def)
  next
    case (Inr cr)
    then have stored: "v req = Some (cm_Spec cr)" and name: "meta_name (cm_ObjectMeta cr) = req"
      using steady_Get(2) [OF assms(5,6) Pair] named_apiD [OF assms(3)] Pair by simp_all
    show ?thesis
    proof (cases "manager_Exists (cm_ObjectMeta cr) m")
      case True
      then have before: "specs m req \<noteq> None"
        using present_iff_deployed [OF assms(1)] name by (simp add: specs_def)
      obtain res w2 where success: "HandleSuccess (rt_success rt) api (cm_ObjectMeta cr) w1 = Ret (res, w2)"
        using HandleSuccess_returns [of k "rt_success rt" api "cm_ObjectMeta cr" w1] assms(2)
        by (auto simp: retriers_contract_def returns_iff)
      then have "holds view ok v w2"
        using steady_HandleSuccess [OF assms(5,3) _ w1 success] assms(2) unfolding retriers_contract_def by blast
      then show ?thesis
        using success True Pair Inr assms(1) before stored
        by (auto simp: Reconcile_def action_manager_ops_def with_m_def wanted_def fun_upd_idem_iff split: option.split)
    next
      case False
      then have before: "specs m req = None"
        using present_iff_deployed [OF assms(1)] name by (simp add: specs_def)
      then have "(specs m)(req := wanted asSelector List (v req) (specs m req)) =
          (if valid_spec (cm_Spec cr) \<and> resolve_sources asSelector List (cs_OnEvent (cm_Spec cr)) = None
           then (specs m)(req \<mapsto> cm_Spec cr) else specs m)"
        using stored by (simp add: wanted_def fun_upd_idem)
      then show ?thesis
        using steady_Reconcile_absent [OF assms(1-6) Pair [unfolded Inr] False] by metis
    qed
  qed
qed

section \<open>Any sequence of reconciliations\<close>

text \<open>The requests that the work queue of the controller hands to \<open>Reconcile\<close>, one after the other.\<close>

fun reconcile_all :: "'w retriers \<Rightarrow> (CounterMeasure, 'w) cr_api \<Rightarrow> (goerror list \<Rightarrow> goerror option) \<Rightarrow>
    ('m, CounterMeasure) manager_ops \<Rightarrow> NamespacedName list \<Rightarrow> 'm \<times> 'w \<Rightarrow> ('m \<times> 'w) go" where
  "reconcile_all rt api NewAggregate ops [] s = Ret s"
| "reconcile_all rt api NewAggregate ops (req # reqs) s =
     go_bind (Reconcile rt api NewAggregate ops req s) (\<lambda>(res, s'). reconcile_all rt api NewAggregate ops reqs s')"

lemma steady_reconcile_all:
  fixes m :: "('q, 'w) Manager"
  assumes "retriers_contract k rt" and "named_api cm_ObjectMeta api" and "aggregate_contract A" and "steady_server view ok api"
    and "manager_inv m" and "holds view ok v w"
  shows "\<exists>m' w'. reconcile_all rt api A (action_manager_ops asSelector List now) reqs (m, w) = Ret (m', w') \<and>
    manager_inv m' \<and> holds view ok v w' \<and>
    specs m' = (\<lambda>n. if n \<in> set reqs then wanted asSelector List (v n) (specs m n) else specs m n)"
  using assms(5,6)
proof (induction reqs arbitrary: m w)
  case (Cons req reqs)
  obtain res m1 w1 where one: "Reconcile rt api A (action_manager_ops asSelector List now) req (m, w) = Ret (res, m1, w1)"
    "manager_inv m1" "holds view ok v w1" "specs m1 = (specs m)(req := wanted asSelector List (v req) (specs m req))"
    using steady_Reconcile [OF Cons.prems(1) assms(1-4) Cons.prems(2)] by blast
  then show ?case
    using Cons.IH [OF one(2,3)] by (auto simp: wanted_idem fun_eq_iff)
qed auto

text \<open>C9:
  Reconciliation converges when nothing else interferes: against a server whose specs stay as
  they are and which fails no request (a \<open>Get\<close> returns the resource or, if there is none, not
  found, and every update of a status succeeds), every sequence of requests runs through
  without a panic, and afterwards every name that was requested has what
  the server wants, in whatever order and however often it was requested, and every other name
  what it had: nothing when the resource is gone; the resource's spec when nothing was deployed,
  it validates and its sources can be listed; but still the old spec when one was deployed.
  From an empty manager, therefore, the deployed countermeasures are exactly the valid ones
  among the requested resources.
\<close>

theorem reconciliation_converges:
  fixes m :: "('q, 'w) Manager"
  assumes "retriers_contract k rt" and "named_api cm_ObjectMeta api" and "aggregate_contract NewAggregate"
    and "steady_server view ok api" and "manager_inv m" and "ok w"
  shows "\<exists>m' w'. reconcile_all rt api NewAggregate (action_manager_ops asSelector List now) reqs (m, w) = Ret (m', w') \<and>
    manager_inv m' \<and> view w' = view w \<and>
    (\<forall>n. specs m' n = (if n \<notin> set reqs then specs m n
       else case (view w n, specs m n) of
              (None, _) \<Rightarrow> None
            | (Some spec, Some old) \<Rightarrow> Some old
            | (Some spec, None) \<Rightarrow>
                if valid_spec spec \<and> resolve_sources asSelector List (cs_OnEvent spec) = None then Some spec else None))"
proof -
  have "holds view ok (view w) w"
    using assms(6) by (simp add: holds_def)
  from steady_reconcile_all [OF assms(1-5) this, of asSelector List now reqs] show ?thesis
    by (force simp: holds_def wanted_def split: option.split)
qed

text \<open>The concrete server, with one valid resource and one without actions.\<close>

definition stored_spec :: "CounterMeasure list \<Rightarrow> NamespacedName \<Rightarrow> CounterMeasureSpec option" where
  "stored_spec w n = map_option cm_Spec (find (\<lambda>cm. meta_name (cm_ObjectMeta cm) = n) w)"

lemma find_replaced:
  "find (\<lambda>c. meta_name (cm_ObjectMeta c) = n)
     (map (\<lambda>c. if meta_name (cm_ObjectMeta c) = meta_name (cm_ObjectMeta cm) then cm else c) w) =
   (if n = meta_name (cm_ObjectMeta cm) then (if find (\<lambda>c. meta_name (cm_ObjectMeta c) = n) w = None then None else Some cm)
    else find (\<lambda>c. meta_name (cm_ObjectMeta c) = n) w)"
  by (induction w) auto

lemma demo_steady: "steady_server stored_spec (\<lambda>w. True) demo_cr_api"
  by (auto simp: steady_server_def demo_cr_api_def stored_spec_def find_replaced fun_eq_iff split: option.split_asm sum.split)

definition idle_cm :: CounterMeasure where
  "idle_cm = sample_cm\<lparr>cm_ObjectMeta := (cm_ObjectMeta sample_cm)\<lparr>om_Name := ''idle''\<rparr>, cm_Spec := sample_spec\<lparr>cs_Actions := []\<rparr>\<rparr>"

theorem reconciliation_converges_witness:
  "\<exists>m' w'. reconcile_all demo_retriers demo_cr_api plain_aggregate (action_manager_ops (\<lambda>ls. Inr ls) (\<lambda>ls. None) ''t'')
      [meta_name (cm_ObjectMeta idle_cm), meta_name (cm_ObjectMeta sample_cm)] (demo_manager, [sample_cm, idle_cm]) = Ret (m', w') \<and>
    specs m' (meta_name (cm_ObjectMeta sample_cm)) = Some sample_spec \<and> specs m' (meta_name (cm_ObjectMeta idle_cm)) = None"
proof -
  let ?reqs = "[meta_name (cm_ObjectMeta idle_cm), meta_name (cm_ObjectMeta sample_cm)]"
  have none: "specs demo_manager n = None" for n
    by (simp add: specs_def deployed_def demo_manager_def NewFromManager_def NewState_def)
  have "ValidateSpec plain_aggregate sample_spec = None"
    by code_simp
  then have valid: "valid_spec sample_spec"
    by (simp add: ValidateSpec_None [OF plain_aggregate_contract])
  have invalid: "\<not> valid_spec (cm_Spec idle_cm)"
    by (simp add: valid_spec_def idle_cm_def)
  have resolved: "resolve_sources (\<lambda>ls. Inr ls) (\<lambda>ls. None) (cs_OnEvent sample_spec) = None"
    by (simp add: resolve_sources_def sample_spec_def)
  have stored: "stored_spec [sample_cm, idle_cm] (meta_name (cm_ObjectMeta sample_cm)) = Some sample_spec"
    "stored_spec [sample_cm, idle_cm] (meta_name (cm_ObjectMeta idle_cm)) = Some (cm_Spec idle_cm)"
    by (simp_all add: stored_spec_def idle_cm_def sample_cm_def meta_name_def)
  obtain m' w' where run: "reconcile_all demo_retriers demo_cr_api plain_aggregate (action_manager_ops (\<lambda>ls. Inr ls) (\<lambda>ls. None) ''t'')
      ?reqs (demo_manager, [sample_cm, idle_cm]) = Ret (m', w')"
    and after: "\<And>n. specs m' n = (if n \<notin> set ?reqs then specs demo_manager n
       else case (stored_spec [sample_cm, idle_cm] n, specs demo_manager n) of
              (None, _) \<Rightarrow> None | (Some spec, Some old) \<Rightarrow> Some old
            | (Some spec, None) \<Rightarrow>
                if valid_spec spec \<and> resolve_sources (\<lambda>ls. Inr ls) (\<lambda>ls. None) (cs_OnEvent spec) = None then Some spec else None)"
    using reconciliation_converges [where asSelector = "\<lambda>ls. Inr ls" and List = "\<lambda>ls. None" and now = "''t''" and reqs = ?reqs
      and w = "[sample_cm, idle_cm]", OF demo_retriers_contract demo_named plain_aggregate_contract demo_steady demo_manager_inv] by blast
  show ?thesis
    using run after [of "meta_name (cm_ObjectMeta sample_cm)"] after [of "meta_name (cm_ObjectMeta idle_cm)"] none valid invalid resolved stored
    by simp
qed

end
