(* ===== verification/Prom_Controller.thy ===== *)
theory Prom_Controller
  imports Status_Update Producer
begin

text \<open>
  \<open>controllers/eventsource/prometheus_controller.go\<close>: the reconciler of Prometheus event
  sources: it finds the service and the credentials, makes a client and hands a producer to
  the manager.
\<close>

section \<open>Status updates\<close>

definition prom_success_status :: "(Prometheus, 'w) cr_api \<Rightarrow> ObjectMeta \<Rightarrow> Prometheus \<Rightarrow> Prometheus" where
  "prom_success_status api objectMeta cr =
     cr\<lparr>pr_Status := (pr_Status cr)\<lparr>
          px_Conditions := cr_SetStatusCondition api (px_Conditions (pr_Status cr)) (success_condition api TypePolling objectMeta),
          px_State := Polling\<rparr>\<rparr>"

definition prom_HandleSuccess :: "'w retrier \<Rightarrow> (Prometheus, 'w) cr_api \<Rightarrow> ObjectMeta \<Rightarrow> 'w \<Rightarrow> ((Result \<times> goerror option) \<times> 'w) go" where
  "prom_HandleSuccess OnError api objectMeta w =
     update_success OnError api \<lparr>nn_Namespace = om_Namespace objectMeta, nn_Name = om_Name objectMeta\<rparr>
       (prom_success_status api objectMeta) w"

definition prom_error_status :: "(Prometheus, 'w) cr_api \<Rightarrow> ObjectMeta \<Rightarrow> goerror \<Rightarrow> Prometheus \<Rightarrow> Prometheus" where
  "prom_error_status api objectMeta err cr =
     cr\<lparr>pr_Status := (pr_Status cr)\<lparr>
          px_Conditions := cr_SetStatusCondition api (px_Conditions (pr_Status cr)) (error_condition api TypePolling objectMeta err),
          px_State := StateError\<rparr>\<rparr>"

definition prom_HandleErrorAndRequeue :: "'w error_state retrier \<Rightarrow> (Prometheus, 'w) cr_api \<Rightarrow> ObjectMeta \<Rightarrow> goerror \<Rightarrow> int \<Rightarrow>
    'w \<Rightarrow> ((Result \<times> goerror option) \<times> 'w) go" where
  "prom_HandleErrorAndRequeue OnError api objectMeta err requeueAfter w =
     update_error OnError api \<lparr>nn_Namespace = om_Namespace objectMeta, nn_Name = om_Name objectMeta\<rparr>
       (prom_error_status api objectMeta) err requeueAfter w"

definition prom_initial_status :: "(Prometheus, 'w) cr_api \<Rightarrow> Prometheus \<Rightarrow> Prometheus" where
  "prom_initial_status api cr =
     cr\<lparr>pr_Status := (pr_Status cr)\<lparr>
          px_Conditions := cr_SetStatusCondition api (px_Conditions (pr_Status cr)) (initial_condition TypePolling (pr_ObjectMeta cr)),
          px_State := StateUnknown\<rparr>\<rparr>"

text \<open>\<open>MarkInitializing\<close> is defined in the source but not called by \<open>Reconcile\<close>.\<close>

definition prom_MarkInitializing :: "(Prometheus \<times> 'w) retrier \<Rightarrow> (Prometheus, 'w) cr_api \<Rightarrow> Prometheus \<Rightarrow> 'w \<Rightarrow>
    (goerror option \<times> (Prometheus \<times> 'w)) go" where
  "prom_MarkInitializing OnError api cr w =
     (if length (px_Conditions (pr_Status cr)) = 0
      then RetryOnConflict OnError (init_attempt api pr_ObjectMeta (prom_initial_status api)) (cr, w)
      else Ret (None, (cr, w)))"

section \<open>The client\<close>

text \<open>The verb \<open>%v\<close> for a number of type \<open>int32\<close>.\<close>

fun decimal :: "nat \<Rightarrow> string" where
  "decimal n = (if n < 10 then [char_of (48 + n)] else decimal (n div 10) @ [char_of (48 + n mod 10)])"

declare decimal.simps [simp del]

definition print_int32 :: "32 word \<Rightarrow> string" where
  "print_int32 p = (if sint p < 0 then ''-'' @ decimal (nat (- sint p)) else decimal (nat (sint p)))"

definition p8s_port :: "Service \<Rightarrow> ServiceReference \<Rightarrow> 32 word" where
  "p8s_port service svc =
     (case FindNamedPort service (sr_TargetPort svc) of
        Some svcPort \<Rightarrow> po_Port svcPort
      | None \<Rightarrow> sr_Port svc)"

definition p8s_address :: "Service \<Rightarrow> ServiceReference \<Rightarrow> string" where
  "p8s_address service svc =
     (if sr_UseTls svc then ''https'' else ''http'') @ ''://'' @ sr_Name svc @ ''.'' @ sr_Namespace svc @ ''.svc:'' @
     print_int32 (p8s_port service svc)"

text \<open>
  \<open>GetService\<close> and \<open>GetSecret\<close> are the client's \<open>Get\<close> for the two kinds; \<open>secret.Data\<close> of a
  missing key is empty. \<open>LogError\<close> is the call of \<open>r.Log.Error\<close>, which may panic: the logger is a
  field that nobody has to set.
\<close>

definition secret_reference :: "Prometheus \<Rightarrow> AuthSpec \<Rightarrow> SecretReference" where
  "secret_reference prom auth =
     (let ref = au_SecretReference auth
      in if length (sf_Namespace ref) = 0 then ref\<lparr>sf_Namespace := om_Namespace (pr_ObjectMeta prom)\<rparr> else ref)"

definition lookup_message :: "SecretReference \<Rightarrow> string" where
  "lookup_message ref = ''could not lookup secret '' @ sf_Name ref @ '' in namespace '' @ sf_Namespace ref"

definition createP8sClient :: "(NamespacedName \<Rightarrow> goerror + Service) \<Rightarrow> (NamespacedName \<Rightarrow> goerror + Secret) \<Rightarrow>
    (ClientConfig \<Rightarrow> goerror + 'api) \<Rightarrow> (goerror \<Rightarrow> string \<Rightarrow> unit go) \<Rightarrow> Prometheus \<Rightarrow> (goerror + 'api) go" where
  "createP8sClient GetService GetSecret NewClient LogError prom =
     (let promConfig = pr_Spec prom; svc = ps_Service promConfig
      in case GetService (GetNamespacedName svc) of
           Inl err \<Rightarrow> Ret (Inl err)
         | Inr serviceObject \<Rightarrow>
             (let address = p8s_address serviceObject svc
              in case ps_Auth promConfig of
                   None \<Rightarrow> Ret (NewPrometheusClient NewClient address [] [])
                 | Some auth \<Rightarrow>
                     (let secretRef = secret_reference prom auth
                      in case base_GetSecret GetSecret secretRef of
                           Inl err \<Rightarrow> go_bind (LogError err (lookup_message secretRef)) (\<lambda>u. Ret (Inl err))
                         | Inr secret \<Rightarrow>
                             Ret (NewPrometheusClient NewClient address (EventData_Get (se_Data secret) ''username'')
                               (EventData_Get (se_Data secret) ''password'')))))"

section \<open>Reconcile\<close>

text \<open>The two retriers are \<open>retry.OnError\<close> at the two types of state it is used with.\<close>

record 'w prom_retriers =
  pt_success :: "'w retrier"
  pt_error :: "'w error_state retrier"

text \<open>What the reconciler reads of the cluster beside its own resources, and its logger.\<close>

record ('api, 'w) p8s_env =
  pe_GetService :: "'w \<Rightarrow> NamespacedName \<Rightarrow> goerror + Service"
  pe_GetSecret :: "'w \<Rightarrow> NamespacedName \<Rightarrow> goerror + Secret"
  pe_NewClient :: "ClientConfig \<Rightarrow> goerror + 'api"
  pe_LogError :: "goerror \<Rightarrow> string \<Rightarrow> unit go"

abbreviation client_for :: "('api, 'w) p8s_env \<Rightarrow> 'w \<Rightarrow> Prometheus \<Rightarrow> (goerror + 'api) go" where
  "client_for pe w cr \<equiv> createP8sClient (pe_GetService pe w) (pe_GetSecret pe w) (pe_NewClient pe) (pe_LogError pe) cr"

definition prom_Reconcile :: "'w prom_retriers \<Rightarrow> (Prometheus, 'w) cr_api \<Rightarrow> ('api, 'w) p8s_env \<Rightarrow>
    ('m, 'api EventProducer) manager_ops \<Rightarrow> NamespacedName \<Rightarrow> 'm \<times> 'w \<Rightarrow> ((Result \<times> goerror option) \<times> 'm \<times> 'w) go" where
  "prom_Reconcile rt api pe ops req = (\<lambda>(m, w).
     (case cr_Get api req w of
        (Inl err, w1) \<Rightarrow>
          if IsNotFound err
          then go_bind (mo_Remove ops req m) (\<lambda>(e, m'). Ret ((zero_result, e), m', w1))
          else Ret ((zero_result, Some err), m, w1)
      | (Inr cr, w1) \<Rightarrow>
          (let installed = mo_Exists ops (pr_ObjectMeta cr) m
           in if \<not> installed
              then go_bind (createP8sClient (pe_GetService pe w1) (pe_GetSecret pe w1) (pe_NewClient pe) (pe_LogError pe) cr)
                   (\<lambda>made. case made of
                      Inl err \<Rightarrow>
                        with_m m (prom_HandleErrorAndRequeue (pt_error rt) api (pr_ObjectMeta cr) err (30 * 1000000000) w1)
                    | Inr client \<Rightarrow>
                        (let config = \<lparr>pc_PollInterval = ps_PollingInterval (pr_Spec cr), pc_IncludePending = ps_IncludePending (pr_Spec cr),
                                       pc_Key = ToKey (pr_ObjectMeta cr), pc_Client = client\<rparr>
                         in go_bind (mo_Add ops (NewEventProducer config) m) (\<lambda>(err, m').
                              with_m m' (HandleOutcome (prom_HandleErrorAndRequeue (pt_error rt) api) (prom_HandleSuccess (pt_success rt) api)
                                (pr_ObjectMeta cr) err w1))))
              else with_m m (prom_HandleSuccess (pt_success rt) api (pr_ObjectMeta cr) w1))))"

section \<open>The address and the credentials\<close>

lemma secret_reference_names:
  "sf_Name (secret_reference prom auth) = nn_Name (secret_name prom auth)"
  "sf_Namespace (secret_reference prom auth) = nn_Namespace (secret_name prom auth)"
  by (simp_all add: secret_reference_def secret_name_def Let_def)

lemma GetSecret_reference:
  "base_GetSecret GetSecret (secret_reference prom auth) =
     (case GetSecret (secret_name prom auth) of
        Inl e \<Rightarrow> Inl e
      | Inr s \<Rightarrow> if se_Type s = ''kubernetes.io/basic-auth'' then Inr s
          else Inl (Errorf ''only the basic auth type (kubernetes.io/basic-auth) is currently supported''))"
  by (simp add: base_GetSecret_def secret_reference_def secret_name_def Let_def split: sum.split)

lemma createP8sClient_Path:
  "createP8sClient GetService GetSecret NewClient LogError
     (prom\<lparr>pr_Spec := (pr_Spec prom)\<lparr>ps_Service := (ps_Service (pr_Spec prom))\<lparr>sr_Path := path\<rparr>\<rparr>\<rparr>) =
   createP8sClient GetService GetSecret NewClient LogError prom"
  by (simp add: createP8sClient_def GetNamespacedName_def p8s_address_def p8s_port_def secret_reference_def Let_def
      split: sum.split option.split)

text \<open>C37:
  The address and the credentials of the client: the address is scheme, service, namespace
  and port, with https exactly if TLS is asked for, and the port is that of a service with a
  single port, or else of the port with the given name, or else the one of the reference; the
  user name and password are those of the secret, which is looked for in the namespace of the
  resource when the reference names none, and without credentials no authentication is
  configured. A secret whose lookup fails, or of another type than basic authentication, is
  logged and refused, so this branch panics if the logger does. The path of the service
  reference is not used: whatever it is, the client is the same, although the type documents
  it as the path that is sent in any request to the service.
\<close>

theorem createP8sClient_exact:
  assumes "GetService (GetNamespacedName (ps_Service (pr_Spec prom))) = Inr service"
  shows "createP8sClient GetService GetSecret NewClient LogError prom =
    (let connect = (\<lambda>tripper.
           case NewClient \<lparr>cc_Address =
                (if sr_UseTls (ps_Service (pr_Spec prom)) then ''https://'' else ''http://'') @ sr_Name (ps_Service (pr_Spec prom)) @
                ''.'' @ sr_Namespace (ps_Service (pr_Spec prom)) @ ''.svc:'' @
                print_int32 (case (case sv_Ports service of [p] \<Rightarrow> Some p
                                   | ps \<Rightarrow> find (\<lambda>p. po_Name p = sr_TargetPort (ps_Service (pr_Spec prom))) ps) of
                               Some p \<Rightarrow> po_Port p | None \<Rightarrow> sr_Port (ps_Service (pr_Spec prom))),
              cc_RoundTripper = tripper\<rparr> of
             Inl e \<Rightarrow> Inl (Wrapf ''error creating client, '' e) | Inr c \<Rightarrow> Inr c);
         refused = (\<lambda>auth e. go_bind (LogError e (''could not lookup secret '' @ nn_Name (secret_name prom auth) @
           '' in namespace '' @ nn_Namespace (secret_name prom auth))) (\<lambda>u. Ret (Inl e)))
     in case ps_Auth (pr_Spec prom) of
          None \<Rightarrow> Ret (connect None)
        | Some auth \<Rightarrow>
            (case GetSecret (secret_name prom auth) of
               Inl e \<Rightarrow> refused auth e
             | Inr s \<Rightarrow>
                 if se_Type s = ''kubernetes.io/basic-auth''
                 then Ret (connect (if EventData_Get (se_Data s) ''username'' = [] then None
                      else Some (EventData_Get (se_Data s) ''username'', EventData_Get (se_Data s) ''password'')))
                 else refused auth (Errorf ''only the basic auth type (kubernetes.io/basic-auth) is currently supported''))) \<and>
   createP8sClient GetService GetSecret NewClient LogError
     (prom\<lparr>pr_Spec := (pr_Spec prom)\<lparr>ps_Service := (ps_Service (pr_Spec prom))\<lparr>sr_Path := path\<rparr>\<rparr>\<rparr>) =
   createP8sClient GetService GetSecret NewClient LogError prom" (is "?client \<and> _")
proof (rule conjI [OF _ createP8sClient_Path], cases "ps_Auth (pr_Spec prom)")
  case None
  then show ?client
    using assms by (simp add: createP8sClient_def NewPrometheusClient_def p8s_address_def p8s_port_def FindNamedPort_cases Let_def)
next
  case (Some auth)
  then show ?client
    using assms
    by (cases "GetSecret (secret_name prom auth)")
      (simp_all add: createP8sClient_def NewPrometheusClient_def GetSecret_reference secret_reference_names lookup_message_def
        p8s_address_def p8s_port_def FindNamedPort_cases Let_def)
qed

definition demo_prom :: Prometheus where
  "demo_prom = \<lparr>pr_ObjectMeta = \<lparr>om_Namespace = ''mon'', om_Name = ''p8s'', om_Generation = 2\<rparr>,
     pr_Spec = \<lparr>ps_Service = zero_service\<lparr>sr_Namespace := ''mon'', sr_Name := ''prom'', sr_Port := 9090\<rparr>, ps_Auth = None,
       ps_PollingInterval = 15, ps_IncludePending = False\<rparr>,
     pr_Status = \<lparr>px_State = [], px_Conditions = []\<rparr>\<rparr>"

theorem createP8sClient_exact_witness:
  "createP8sClient (\<lambda>n. Inr \<lparr>sv_Ports = []\<rparr>) (\<lambda>n. Inl (NotFound ''secret'')) Inr (\<lambda>e m. Ret ()) demo_prom =
     Ret (Inr \<lparr>cc_Address = ''http://prom.mon.svc:9090'', cc_RoundTripper = None\<rparr>) \<and>
   createP8sClient (\<lambda>n. Inr \<lparr>sv_Ports = []\<rparr>) (\<lambda>n. Inl (NotFound ''secret'')) Inr (\<lambda>e m. Ret ())
     (demo_prom\<lparr>pr_Spec := (pr_Spec demo_prom)\<lparr>ps_Service := (ps_Service (pr_Spec demo_prom))\<lparr>sr_Path := Some ''/prometheus''\<rparr>\<rparr>\<rparr>) =
     Ret (Inr \<lparr>cc_Address = ''http://prom.mon.svc:9090'', cc_RoundTripper = None\<rparr>)"
proof -
  have "sint (9090 :: 32 word) = 9090"
    by simp
  moreover have "char_of (48 :: nat) = CHR ''0''" "char_of (57 :: nat) = CHR ''9''"
    by code_simp+
  then have "decimal 9090 = ''9090''"
    by (simp add: decimal.simps)
  ultimately have port: "print_int32 9090 = ''9090''"
    by (simp add: print_int32_def)
  show ?thesis
    using createP8sClient_exact [of "\<lambda>n. Inr \<lparr>sv_Ports = []\<rparr>" demo_prom "\<lparr>sv_Ports = []\<rparr>" "\<lambda>n. Inl (NotFound ''secret'')" Inr "\<lambda>e m. Ret ()"
        "Some ''/prometheus''"] port
    by (simp add: demo_prom_def zero_service_def)
qed

section \<open>The reconciler over the manager interface\<close>

definition prom_retriers_contract :: "nat \<Rightarrow> 'w prom_retriers \<Rightarrow> bool" where
  "prom_retriers_contract n rt \<longleftrightarrow> retry_contract n (pt_success rt) \<and> retry_contract n (pt_error rt)"

lemma prom_HandleSuccess_returns: "retry_contract n OnError \<Longrightarrow> returns (prom_HandleSuccess OnError api meta w)"
  unfolding prom_HandleSuccess_def by (rule update_success_returns)

lemma prom_HandleError_returns:
  "retry_contract n OnError \<Longrightarrow> returns (prom_HandleErrorAndRequeue OnError api meta err after w)"
  unfolding prom_HandleErrorAndRequeue_def by (rule update_error_returns)

text \<open>The two outcomes of a reconciliation, with the server afterwards, by the result of the status update.\<close>

lemma prom_HandleError_result:
  assumes "retry_contract n OnError"
  obtains r e' w' out where
    "RetryOnConflict OnError (error_attempt api \<lparr>nn_Namespace = om_Namespace meta, nn_Name = om_Name meta\<rparr>
       (prom_error_status api meta)) (Some err, w, []) = Ret (r, (e', w', out))"
    and "prom_HandleErrorAndRequeue OnError api meta err after w =
       Ret ((case r of None \<Rightarrow> (\<lparr>re_RequeueAfter = after\<rparr>, None) | Some e \<Rightarrow> (zero_result, Some e)), w')"
  using prom_HandleError_returns [OF assms, of api meta err after w]
  by (auto simp: prom_HandleErrorAndRequeue_def update_error_def returns_iff elim!: go_bind_RetE split: option.split_asm)

lemma prom_HandleSuccess_result:
  assumes "retry_contract n OnError"
  obtains r w' where
    "RetryOnConflict OnError (success_attempt api \<lparr>nn_Namespace = om_Namespace meta, nn_Name = om_Name meta\<rparr>
       (prom_success_status api meta)) w = Ret (r, w')"
    and "prom_HandleSuccess OnError api meta w = Ret ((zero_result, r), w')"
  using prom_HandleSuccess_returns [OF assms, of api meta w]
  by (auto simp: prom_HandleSuccess_def update_success_def returns_iff elim!: go_bind_RetE)

lemma prom_outcome_returns:
  assumes "prom_retriers_contract n rt"
  shows "returns (HandleOutcome (prom_HandleErrorAndRequeue (pt_error rt) api) (prom_HandleSuccess (pt_success rt) api) meta err w)"
  using assms prom_HandleSuccess_returns [of n "pt_success rt"] prom_HandleError_returns [of n "pt_error rt"]
  by (simp add: HandleOutcome_def base_HandleError_def prom_retriers_contract_def split: option.split)

text \<open>The producer that a resource stands for.\<close>

definition producer_of :: "Prometheus \<Rightarrow> 'api \<Rightarrow> 'api EventProducer" where
  "producer_of cr client = NewEventProducer
     \<lparr>pc_PollInterval = ps_PollingInterval (pr_Spec cr), pc_IncludePending = ps_IncludePending (pr_Spec cr),
      pc_Key = ToKey (pr_ObjectMeta cr), pc_Client = client\<rparr>"

lemma producer_of_Key [simp]: "producer_Key (producer_of cr client) = ToKey (pr_ObjectMeta cr)"
  by (simp add: producer_of_def NewEventProducer_def producer_Key_def)

locale prom_manager = object_manager add remove present producer_meta invar
  for add :: "'api EventProducer \<Rightarrow> 'm \<Rightarrow> (goerror option \<times> 'm) go"
    and remove :: "NamespacedName \<Rightarrow> 'm \<Rightarrow> (goerror option \<times> 'm) go"
    and present :: "ObjectMeta \<Rightarrow> 'm \<Rightarrow> bool"
    and invar :: "'m \<Rightarrow> bool"
begin

lemma reconcile_installs:
  assumes "prom_retriers_contract n rt" and "cr_Get api req w = (Inr cr, w1)" and "\<not> present (pr_ObjectMeta cr) m"
    and "client_for pe w1 cr = Ret (Inr client)"
    and "add (producer_of cr client) m = Ret (None, m')"
  shows "\<exists>r w'. prom_Reconcile rt api pe \<lparr>mo_Add = add, mo_Remove = remove, mo_Exists = present\<rparr> req (m, w) =
      Ret ((zero_result, r), m', w') \<and>
    RetryOnConflict (pt_success rt) (success_attempt api \<lparr>nn_Namespace = om_Namespace (pr_ObjectMeta cr), nn_Name = om_Name (pr_ObjectMeta cr)\<rparr>
      (prom_success_status api (pr_ObjectMeta cr))) w1 = Ret (r, w')"
proof -
  have "retry_contract n (pt_success rt)"
    using assms(1) by (simp add: prom_retriers_contract_def)
  then show ?thesis
    using assms(2-5)
    by (elim prom_HandleSuccess_result [of n _ api "pr_ObjectMeta cr" w1])
      (simp add: prom_Reconcile_def HandleOutcome_def with_m_def producer_of_def Let_def)
qed

lemma reconcile_panics_with_client:
  assumes "cr_Get api req w = (Inr cr, w1)" and "\<not> present (pr_ObjectMeta cr) m" and "client_for pe w1 cr = Panics p"
  shows "prom_Reconcile rt api pe \<lparr>mo_Add = add, mo_Remove = remove, mo_Exists = present\<rparr> req (m, w) = Panics p"
  using assms by (simp add: prom_Reconcile_def Let_def)

lemma reconcile_client_error:
  assumes "prom_retriers_contract n rt" and "cr_Get api req w = (Inr cr, w1)" and "\<not> present (pr_ObjectMeta cr) m"
    and "client_for pe w1 cr = Ret (Inl err)"
  shows "\<exists>r e' w' out. prom_Reconcile rt api pe \<lparr>mo_Add = add, mo_Remove = remove, mo_Exists = present\<rparr> req (m, w) =
      Ret ((case r of None \<Rightarrow> (\<lparr>re_RequeueAfter = 30 * 1000000000\<rparr>, None) | Some e \<Rightarrow> (zero_result, Some e)), m, w') \<and>
    RetryOnConflict (pt_error rt) (error_attempt api \<lparr>nn_Namespace = om_Namespace (pr_ObjectMeta cr), nn_Name = om_Name (pr_ObjectMeta cr)\<rparr>
      (prom_error_status api (pr_ObjectMeta cr))) (Some err, w1, []) = Ret (r, (e', w', out))"
proof -
  have "retry_contract n (pt_error rt)"
    using assms(1) by (simp add: prom_retriers_contract_def)
  then show ?thesis
    using assms(2-4)
    by (elim prom_HandleError_result [of n _ api "pr_ObjectMeta cr" err w1 "30 * 1000000000"])
      (simp add: prom_Reconcile_def with_m_def Let_def)
qed

text \<open>Nothing else panics.\<close>

lemma reconcile_returns:
  assumes "prom_retriers_contract n rt" and "invar m"
    and "\<And>cr w1. cr_Get api req w = (Inr cr, w1) \<Longrightarrow> \<not> present (pr_ObjectMeta cr) m \<Longrightarrow> returns (client_for pe w1 cr)"
  shows "returns (prom_Reconcile rt api pe \<lparr>mo_Add = add, mo_Remove = remove, mo_Exists = present\<rparr> req (m, w))"
proof (cases "cr_Get api req w")
  case (Pair got w1)
  have outcome: "returns (with_m m' (HandleOutcome (prom_HandleErrorAndRequeue (pt_error rt) api) (prom_HandleSuccess (pt_success rt) api) meta err w1))"
    for m' :: 'm and meta err
    using with_m_returns [OF prom_outcome_returns [OF assms(1), of api meta err w1], of m'] by (auto simp: returns_iff)
  have success: "returns (with_m m' (prom_HandleSuccess (pt_success rt) api meta w1))" for m' :: 'm and meta
    using outcome [of m' meta None] by (simp add: HandleOutcome_def)
  have failure: "returns (with_m m' (prom_HandleErrorAndRequeue (pt_error rt) api meta err after w1))" for m' :: 'm and meta err after
    using with_m_returns [OF prom_HandleError_returns [of n "pt_error rt" api meta err after w1], of m'] assms(1)
    by (auto simp: prom_retriers_contract_def returns_iff)
  show ?thesis
  proof (cases got)
    case (Inl err)
    then show ?thesis
      using Pair remove_returns [OF assms(2), of req] by (auto simp: prom_Reconcile_def)
  next
    case (Inr cr)
    have "returns (go_bind (add x m) (\<lambda>(err, m'). with_m m' (HandleOutcome (prom_HandleErrorAndRequeue (pt_error rt) api)
        (prom_HandleSuccess (pt_success rt) api) (pr_ObjectMeta cr) err w1)))" for x
      using add_returns [OF assms(2), of x] outcome by auto
    then show ?thesis
      using Inr Pair assms(3) [of cr w1] success failure
      by (auto simp: prom_Reconcile_def Let_def returns_iff [of "client_for pe w1 cr"] split: sum.split)
  qed
qed

end

interpretation reconciled_producers: prom_manager producers_Add producers_Remove producers_Exists producers_inv
  by unfold_locales

definition producer_manager_ops :: "('api ProducerManager, 'api EventProducer) manager_ops" where
  "producer_manager_ops = \<lparr>mo_Add = producers_Add, mo_Remove = producers_Remove, mo_Exists = producers_Exists\<rparr>"

text \<open>C35:
  Reconciling a new or changed event source installs the producer of its spec: under the key
  of its generation the manager has a producer with the polling interval, the handling of
  pending alerts and the client of the resource, it polls if the manager has been started,
  and the request ends with the result of writing the success status. When no client can be
  made the manager is unchanged and the error status is written, with the attempts that the
  retry library makes: if that succeeds the request is to be repeated after thirty seconds,
  without an error, and otherwise the error of the status update is returned, without that
  delay. What polled before polls on, so after a change the producer of the old generation
  keeps publishing beside the new one.
\<close>

theorem prom_Reconcile_installs:
  fixes m :: "'api ProducerManager"
  assumes "producers_inv m" and "prom_retriers_contract n rt" and "cr_Get api req w = (Inr cr, w1)"
    and "\<not> producers_Exists (pr_ObjectMeta cr) m" and "client_for pe w1 cr = Ret made"
  shows "\<exists>res m' w'. prom_Reconcile rt api pe producer_manager_ops req (m, w) = Ret (res, m', w') \<and> producers_inv m' \<and>
    (let name = \<lparr>nn_Namespace = om_Namespace (pr_ObjectMeta cr), nn_Name = om_Name (pr_ObjectMeta cr)\<rparr> in
     case made of
       Inl err \<Rightarrow> m' = m \<and>
         (\<exists>r e' out. RetryOnConflict (pt_error rt) (error_attempt api name (prom_error_status api (pr_ObjectMeta cr))) (Some err, w1, []) =
             Ret (r, (e', w', out)) \<and>
           res = (case r of None \<Rightarrow> (\<lparr>re_RequeueAfter = 30 * 1000000000\<rparr>, None) | Some e \<Rightarrow> (\<lparr>re_RequeueAfter = 0\<rparr>, Some e)))
     | Inr client \<Rightarrow>
         map_of (pm_producers m') (ToKey (pr_ObjectMeta cr)) = Some (producer_of cr client) \<and>
         (pm_shutdown m = ShutdownOpen \<longrightarrow> polls m' (producer_of cr client)) \<and> (\<forall>d. polls m d \<longrightarrow> polls m' d) \<and>
         (\<exists>r. RetryOnConflict (pt_success rt) (success_attempt api name (prom_success_status api (pr_ObjectMeta cr))) w1 = Ret (r, w') \<and>
           res = (\<lparr>re_RequeueAfter = 0\<rparr>, r)))"
proof (cases made)
  case (Inl err)
  then show ?thesis
    using reconciled_producers.reconcile_client_error [OF assms(2-4), of pe err] assms(1,5)
    unfolding producer_manager_ops_def zero_result_def [symmetric] Let_def by (force simp del: split_paired_Ex)
next
  case (Inr client)
  obtain m' where add: "producers_Add (producer_of cr client) m = Ret (None, m')"
    by (simp add: producers_Add_def Let_def)
  then have "map_of (pm_producers m') (ToKey (pr_ObjectMeta cr)) = Some (producer_of cr client)"
    "pm_shutdown m = ShutdownOpen \<longrightarrow> polls m' (producer_of cr client)" "\<forall>d. polls m d \<longrightarrow> polls m' d"
    by (auto simp: producers_Add_def producer_Start_def polls_def Let_def go_map_simps split: if_split_asm)
  then show ?thesis
    using reconciled_producers.reconcile_installs [OF assms(2-4), of pe client] add producers_inv_Add [OF assms(1) add] assms(5) Inr
    unfolding producer_manager_ops_def by (auto simp: zero_result_def Let_def split: option.split)
qed

lemma client_panics_iff:
  "(\<exists>p. createP8sClient GetService GetSecret NewClient LogError cr = Panics p) \<longleftrightarrow>
     (\<exists>service auth e. GetService (GetNamespacedName (ps_Service (pr_Spec cr))) = Inr service \<and> ps_Auth (pr_Spec cr) = Some auth \<and>
        base_GetSecret GetSecret (secret_reference cr auth) = Inl e \<and> \<not> returns (LogError e (lookup_message (secret_reference cr auth))))"
  by (auto simp: createP8sClient_def Let_def go_bind_Panics_iff not_returns_iff split: option.split sum.split)

text \<open>C36:
  When the reconciler of event sources panics, which ends the operator: exactly if the
  resource is there and has no producer yet, its service exists, it names credentials, the
  lookup of them fails (they cannot be read, or are of the wrong type), and the logger of the
  reconciler panics. (\<open>main\<close> leaves
  that logger unset, theory Main_Setup.)
\<close>

theorem prom_Reconcile_panics_iff:
  assumes "producers_inv m" and "prom_retriers_contract n rt"
  shows "(\<exists>p. prom_Reconcile rt api pe producer_manager_ops req (m, w) = Panics p) \<longleftrightarrow>
    (\<exists>cr w1 service auth e. cr_Get api req w = (Inr cr, w1) \<and> \<not> producers_Exists (pr_ObjectMeta cr) m \<and>
       pe_GetService pe w1 (GetNamespacedName (ps_Service (pr_Spec cr))) = Inr service \<and> ps_Auth (pr_Spec cr) = Some auth \<and>
       base_GetSecret (pe_GetSecret pe w1) (secret_reference cr auth) = Inl e \<and>
       \<not> returns (pe_LogError pe e (lookup_message (secret_reference cr auth))))" (is "?panics \<longleftrightarrow> ?cause")
proof
  assume ?panics
  then have "\<not> returns (prom_Reconcile rt api pe producer_manager_ops req (m, w))"
    by auto
  then obtain cr w1 where "cr_Get api req w = (Inr cr, w1)" "\<not> producers_Exists (pr_ObjectMeta cr) m" "\<not> returns (client_for pe w1 cr)"
    using reconciled_producers.reconcile_returns [OF assms(2,1)] unfolding producer_manager_ops_def by metis
  then show ?cause
    unfolding not_returns_iff client_panics_iff by blast
next
  assume ?cause
  then obtain cr w1 p where "cr_Get api req w = (Inr cr, w1)" "\<not> producers_Exists (pr_ObjectMeta cr) m" "client_for pe w1 cr = Panics p"
    using client_panics_iff by metis
  then show ?panics
    unfolding producer_manager_ops_def by (intro exI) (rule reconciled_producers.reconcile_panics_with_client)
qed

text \<open>A server with one Prometheus resource, and the manager that polls its first generation.\<close>

definition demo_prom_api :: "(Prometheus, unit) cr_api" where
  "demo_prom_api = \<lparr>cr_Get = (\<lambda>n w. (Inr demo_prom, w)), cr_StatusUpdate = (\<lambda>cr w. (None, w)), cr_Error = (\<lambda>e. ''error''),
     cr_SetStatusCondition = (\<lambda>cs c. filter (\<lambda>d. co_Type d \<noteq> co_Type c) cs @ [c]), cr_Now = 0\<rparr>"

definition demo_p8s_env :: "(unit, unit) p8s_env" where
  "demo_p8s_env = \<lparr>pe_GetService = (\<lambda>w n. Inr \<lparr>sv_Ports = []\<rparr>), pe_GetSecret = (\<lambda>w n. Inl (NotFound ''secret'')), pe_NewClient = (\<lambda>c. Inr ()),
     pe_LogError = (\<lambda>e m. Ret ())\<rparr>"

definition demo_polling :: "unit ProducerManager" where
  "demo_polling = \<lparr>pm_client = None, pm_shutdown = ShutdownOpen, pm_producers = [(producer_Key demo_producer, demo_producer)], pm_launched = [demo_producer]\<rparr>"

theorem prom_Reconcile_installs_witness:
  "\<exists>res m' w'. prom_Reconcile \<lparr>pt_success = bounded_attempts 3, pt_error = bounded_attempts 3\<rparr> demo_prom_api demo_p8s_env producer_manager_ops
       \<lparr>nn_Namespace = ''mon'', nn_Name = ''p8s''\<rparr> (demo_polling, ()) = Ret (res, m', w') \<and>
     polls m' demo_producer \<and> polls m' (producer_of demo_prom ())"
proof -
  have inv: "producers_inv demo_polling"
    by (simp add: producers_inv_def demo_polling_def)
  have rt: "prom_retriers_contract 3 \<lparr>pt_success = bounded_attempts 3, pt_error = bounded_attempts 3\<rparr>"
    by (simp add: prom_retriers_contract_def)
  have get: "cr_Get demo_prom_api \<lparr>nn_Namespace = ''mon'', nn_Name = ''p8s''\<rparr> () = (Inr demo_prom, ())"
    by (simp add: demo_prom_api_def)
  have new: "\<not> producers_Exists (pr_ObjectMeta demo_prom) demo_polling"
    by (simp add: producers_Exists_def demo_polling_def demo_producer_def NewEventProducer_def producer_Key_def demo_prom_def ToKey_def)
  have client: "client_for demo_p8s_env () demo_prom = Ret (Inr ())"
    by (simp add: createP8sClient_def demo_p8s_env_def demo_prom_def NewPrometheusClient_def Let_def)
  show ?thesis
    using prom_Reconcile_installs [OF inv rt get new client]
    by (auto simp: demo_polling_def polls_def)
qed

text \<open>A resource with credentials that are not there, and the logger that is not set.\<close>

definition demo_auth_prom :: Prometheus where
  "demo_auth_prom = demo_prom\<lparr>pr_Spec := (pr_Spec demo_prom)\<lparr>ps_Auth := Some \<lparr>au_SecretReference = \<lparr>sf_Namespace = [], sf_Name = ''login''\<rparr>\<rparr>\<rparr>\<rparr>"

theorem prom_Reconcile_panics_iff_witness:
  "\<exists>p. prom_Reconcile \<lparr>pt_success = bounded_attempts 3, pt_error = bounded_attempts 3\<rparr>
     (demo_prom_api\<lparr>cr_Get := (\<lambda>n w. (Inr demo_auth_prom, w))\<rparr>) (demo_p8s_env\<lparr>pe_LogError := (\<lambda>e m. Panics ''nil pointer dereference'')\<rparr>)
     producer_manager_ops \<lparr>nn_Namespace = ''mon'', nn_Name = ''p8s''\<rparr> (demo_polling, ()) = Panics p"
proof (subst prom_Reconcile_panics_iff [where n = 3])
  show "producers_inv demo_polling"
    by (simp add: producers_inv_def demo_polling_def)
  show "prom_retriers_contract 3 \<lparr>pt_success = bounded_attempts 3, pt_error = bounded_attempts 3\<rparr>"
    by (simp add: prom_retriers_contract_def)
qed (simp add: producers_Exists_def demo_polling_def demo_producer_def NewEventProducer_def producer_Key_def demo_auth_prom_def
    demo_prom_def ToKey_def demo_p8s_env_def base_GetSecret_def)

end
