(* ===== verification/Deep_Copy.thy ===== *)
theory Deep_Copy
  imports Prelude
begin

text \<open>
  Deep copies of objects with pointers and slices. A heap maps addresses to cells; a pointer
  or a slice header of the program is an address or nil (\<open>None\<close>). The deep copies that
  \<open>controller-gen\<close> writes are built from three patterns, a struct whose fields are copied one
  after the other, a pointer and a slice; each pattern is a definition here. The contract of
  a deep copy is the locale \<open>deep_copy\<close>.
\<close>

section \<open>The heap\<close>

record 'c heap =
  hp_cell :: "nat \<Rightarrow> 'c option"
  hp_next :: nat

definition empty_heap :: "'c heap" where
  "empty_heap = \<lparr>hp_cell = (\<lambda>_. None), hp_next = 0\<rparr>"

definition alloc :: "'c \<Rightarrow> 'c heap \<Rightarrow> nat \<times> 'c heap" where
  "alloc c h = (hp_next h, \<lparr>hp_cell = (hp_cell h)(hp_next h \<mapsto> c), hp_next = Suc (hp_next h)\<rparr>)"

definition set_cell :: "nat \<Rightarrow> 'c \<Rightarrow> 'c heap \<Rightarrow> 'c heap" where
  "set_cell a c h = h\<lparr>hp_cell := (hp_cell h)(a \<mapsto> c)\<rparr>"

definition wf_heap :: "'c heap \<Rightarrow> bool" where
  "wf_heap h \<longleftrightarrow> (\<forall>a. hp_cell h a \<noteq> None \<longrightarrow> a < hp_next h)"

text \<open>Everything that was allocated before is as before.\<close>

definition extends :: "'c heap \<Rightarrow> 'c heap \<Rightarrow> bool" where
  "extends h h' \<longleftrightarrow> hp_next h \<le> hp_next h' \<and> (\<forall>a < hp_next h. hp_cell h' a = hp_cell h a)"

definition agree :: "nat set \<Rightarrow> 'c heap \<Rightarrow> 'c heap \<Rightarrow> bool" where
  "agree A h h' \<longleftrightarrow> (\<forall>a \<in> A. hp_cell h' a = hp_cell h a)"

lemma extends_refl [simp]: "extends h h"
  by (simp add: extends_def)

lemma extends_trans [trans]: "extends h h' \<Longrightarrow> extends h' h'' \<Longrightarrow> extends h h''"
  by (auto simp: extends_def)

lemma extends_next: "extends h h' \<Longrightarrow> hp_next h \<le> hp_next h'"
  by (simp add: extends_def)

lemma extends_agree: "extends h h' \<Longrightarrow> A \<subseteq> {..<hp_next h} \<Longrightarrow> agree A h h'"
  by (auto simp: extends_def agree_def)

lemma agree_mono: "agree A h h' \<Longrightarrow> B \<subseteq> A \<Longrightarrow> agree B h h'"
  by (auto simp: agree_def)

lemma wf_empty_heap [simp]: "wf_heap empty_heap"
  by (simp add: wf_heap_def empty_heap_def)

lemma wf_alloc: "wf_heap h \<Longrightarrow> wf_heap (snd (alloc c h))"
  by (auto simp: wf_heap_def alloc_def less_Suc_eq)

lemma extends_alloc: "extends h (snd (alloc c h))"
  by (simp add: extends_def alloc_def)

lemma alloc_next [simp]: "fst (alloc c h) = hp_next h" "hp_next (snd (alloc c h)) = Suc (hp_next h)"
  "hp_cell (snd (alloc c h)) (hp_next h) = Some c"
  by (simp_all add: alloc_def)

lemma set_cell_simps [simp]:
  "hp_next (set_cell a c h) = hp_next h" "hp_cell (set_cell a c h) a = Some c"
  "b \<noteq> a \<Longrightarrow> hp_cell (set_cell a c h) b = hp_cell h b"
  by (simp_all add: set_cell_def)

lemma wf_set_cell: "wf_heap h \<Longrightarrow> a < hp_next h \<Longrightarrow> wf_heap (set_cell a c h)"
  by (auto simp: wf_heap_def set_cell_def)

lemma extends_set_cell: "extends h h' \<Longrightarrow> hp_next h \<le> a \<Longrightarrow> extends h (set_cell a c h')"
  by (auto simp: extends_def)

section \<open>The patterns\<close>

text \<open>
  \<open>copy\<close> is a \<open>DeepCopyInto\<close>: it takes the struct it reads and returns the struct it has written.
  \<open>copy_plain\<close> is \<open>*out = *in\<close> for a type without pointers.
\<close>

definition copy_plain :: "'h \<Rightarrow> 'c heap \<Rightarrow> 'h \<times> 'c heap" where
  "copy_plain x h = (x, h)"

text \<open>
  A new cell with the contents \<open>init\<close> of the cell that \<open>p\<close> points to, filled by \<open>copy\<close>; nothing
  if \<open>p\<close> is nil.
\<close>

definition copy_new :: "('c \<Rightarrow> 'h option) \<Rightarrow> ('h \<Rightarrow> 'c) \<Rightarrow> ('h \<Rightarrow> 'h) \<Rightarrow> ('h \<Rightarrow> 'c heap \<Rightarrow> 'h \<times> 'c heap) \<Rightarrow>
    nat option \<Rightarrow> 'c heap \<Rightarrow> nat option \<times> 'c heap" where
  "copy_new get put init copy p h =
     (case Option.bind (Option.bind p (hp_cell h)) get of
        None \<Rightarrow> (None, h)
      | Some x \<Rightarrow>
          (let (a, h1) = alloc (put (init x)) h; (y, h2) = copy x h1
           in (Some a, set_cell a (put y) h2)))"

text \<open>
  \<open>if in.F != nil { *out = new(T); (*in).DeepCopyInto(*out) }\<close>, and likewise the body of every
  \<open>DeepCopy\<close>. The first thing a \<open>DeepCopyInto\<close> does is \<open>*out = *in\<close>; it is taken together with
  the allocation.
\<close>

definition copy_ptr :: "('c \<Rightarrow> 'h option) \<Rightarrow> ('h \<Rightarrow> 'c) \<Rightarrow> ('h \<Rightarrow> 'c heap \<Rightarrow> 'h \<times> 'c heap) \<Rightarrow>
    nat option \<Rightarrow> 'c heap \<Rightarrow> nat option \<times> 'c heap" where
  "copy_ptr get put copy = copy_new get put (\<lambda>x. x) copy"

text \<open>The loop \<open>for i := range *in { (*in)[i].DeepCopyInto(&(*out)[i]) }\<close>: the elements it writes.\<close>

fun copy_list :: "('h \<Rightarrow> 'c heap \<Rightarrow> 'h \<times> 'c heap) \<Rightarrow> 'h list \<Rightarrow> 'c heap \<Rightarrow> 'h list \<times> 'c heap" where
  "copy_list copy [] h = ([], h)"
| "copy_list copy (x # xs) h =
     (let (y, h1) = copy x h; (ys, h2) = copy_list copy xs h1 in (y # ys, h2))"

text \<open>
  \<open>if in.F != nil { *out = make([]T, len(*in)); for i := range *in ... }\<close>. A slice is the address
  of its array, which has zero values until the loop has written it; \<open>copy(*out, *in)\<close> is the
  loop with \<^const>\<open>copy_plain\<close>.
\<close>

definition copy_slice :: "('c \<Rightarrow> 'h list option) \<Rightarrow> ('h list \<Rightarrow> 'c) \<Rightarrow> 'h \<Rightarrow> ('h \<Rightarrow> 'c heap \<Rightarrow> 'h \<times> 'c heap) \<Rightarrow>
    nat option \<Rightarrow> 'c heap \<Rightarrow> nat option \<times> 'c heap" where
  "copy_slice get put zero copy = copy_new get put (\<lambda>xs. replicate (length xs) zero) (copy_list copy)"

text \<open>Two fields, one after the other.\<close>

definition copy_pair :: "('a \<Rightarrow> 'c heap \<Rightarrow> 'a \<times> 'c heap) \<Rightarrow> ('b \<Rightarrow> 'c heap \<Rightarrow> 'b \<times> 'c heap) \<Rightarrow>
    'a \<times> 'b \<Rightarrow> 'c heap \<Rightarrow> ('a \<times> 'b) \<times> 'c heap" where
  "copy_pair c1 c2 x h = (let (y1, h1) = c1 (fst x) h; (y2, h2) = c2 (snd x) h1 in ((y1, y2), h2))"

section \<open>What a value is and which cells it has\<close>

text \<open>
  The value behind a pointer: \<open>None\<close> inside is nil, \<open>None\<close> outside is a dangling address.
\<close>

definition read_ptr :: "('c \<Rightarrow> 'h option) \<Rightarrow> ('c heap \<Rightarrow> 'h \<Rightarrow> 'v option) \<Rightarrow> 'c heap \<Rightarrow> nat option \<Rightarrow> 'v option option" where
  "read_ptr get read h p =
     (case p of
        None \<Rightarrow> Some None
      | Some a \<Rightarrow> map_option Some (Option.bind (Option.bind (hp_cell h a) get) (read h)))"

lemma read_ptr_nil: "read_ptr get read h p = Some v \<Longrightarrow> v = None \<longleftrightarrow> p = None"
  by (auto simp: read_ptr_def split: option.splits)

definition refs_ptr :: "('c \<Rightarrow> 'h option) \<Rightarrow> ('c heap \<Rightarrow> 'h \<Rightarrow> nat set) \<Rightarrow> 'c heap \<Rightarrow> nat option \<Rightarrow> nat set" where
  "refs_ptr get refs h p =
     (case p of
        None \<Rightarrow> {}
      | Some a \<Rightarrow> insert a (case Option.bind (hp_cell h a) get of None \<Rightarrow> {} | Some x \<Rightarrow> refs h x))"

fun read_list :: "('c heap \<Rightarrow> 'h \<Rightarrow> 'v option) \<Rightarrow> 'c heap \<Rightarrow> 'h list \<Rightarrow> 'v list option" where
  "read_list read h [] = Some []"
| "read_list read h (x # xs) =
     (case (read h x, read_list read h xs) of (Some v, Some vs) \<Rightarrow> Some (v # vs) | _ \<Rightarrow> None)"

definition refs_list :: "('c heap \<Rightarrow> 'h \<Rightarrow> nat set) \<Rightarrow> 'c heap \<Rightarrow> 'h list \<Rightarrow> nat set" where
  "refs_list refs h xs = (\<Union>x \<in> set xs. refs h x)"

definition read_pair :: "('c heap \<Rightarrow> 'a \<Rightarrow> 'v option) \<Rightarrow> ('c heap \<Rightarrow> 'b \<Rightarrow> 'w option) \<Rightarrow> 'c heap \<Rightarrow> 'a \<times> 'b \<Rightarrow> ('v \<times> 'w) option" where
  "read_pair r1 r2 h x = (case (r1 h (fst x), r2 h (snd x)) of (Some v, Some w) \<Rightarrow> Some (v, w) | _ \<Rightarrow> None)"

definition refs_pair :: "('c heap \<Rightarrow> 'a \<Rightarrow> nat set) \<Rightarrow> ('c heap \<Rightarrow> 'b \<Rightarrow> nat set) \<Rightarrow> 'c heap \<Rightarrow> 'a \<times> 'b \<Rightarrow> nat set" where
  "refs_pair f1 f2 h x = f1 h (fst x) \<union> f2 h (snd x)"

definition read_plain :: "'c heap \<Rightarrow> 'h \<Rightarrow> 'h option" where
  "read_plain h x = Some x"

definition refs_plain :: "'c heap \<Rightarrow> 'h \<Rightarrow> nat set" where
  "refs_plain h x = {}"

section \<open>The contract\<close>

text \<open>
  \<open>q\<close> is a copy of \<open>p\<close> with the value \<open>v\<close>: both have the value, and later writes into the cells of
  one of them do not show in the other.
\<close>

definition independent_copy :: "('c heap \<Rightarrow> 'h \<Rightarrow> 'v option) \<Rightarrow> ('c heap \<Rightarrow> 'h \<Rightarrow> nat set) \<Rightarrow> 'h \<Rightarrow> 'h \<Rightarrow> 'v \<Rightarrow> 'c heap \<Rightarrow> bool" where
  "independent_copy read refs p q v h \<longleftrightarrow> read h p = Some v \<and> read h q = Some v \<and>
     (\<forall>h'. agree (- refs h p) h h' \<longrightarrow> read h' q = Some v) \<and> (\<forall>h'. agree (- refs h q) h h' \<longrightarrow> read h' p = Some v)"

lemma independent_copy_nil: "independent_copy (read_ptr get read) refs p q v h \<Longrightarrow> q = None \<longleftrightarrow> p = None"
  unfolding independent_copy_def using read_ptr_nil by metis

text \<open>
  What is read depends on the cells that are reached only. A copy reads as the original,
  reaches new cells only, and changes nothing that was there.
\<close>

locale deep_copy =
  fixes read :: "'c heap \<Rightarrow> 'h \<Rightarrow> 'v option" and refs :: "'c heap \<Rightarrow> 'h \<Rightarrow> nat set"
    and copy :: "'h \<Rightarrow> 'c heap \<Rightarrow> 'h \<times> 'c heap"
  assumes read_frame: "agree (refs h x) h h' \<Longrightarrow> read h' x = read h x"
    and refs_frame: "agree (refs h x) h h' \<Longrightarrow> refs h' x = refs h x"
    and refs_allocated: "wf_heap h \<Longrightarrow> read h x = Some v \<Longrightarrow> refs h x \<subseteq> {..<hp_next h}"
    and copy_extends: "wf_heap h \<Longrightarrow> read h x = Some v \<Longrightarrow> copy x h = (y, h') \<Longrightarrow> wf_heap h' \<and> extends h h'"
    and copy_reads: "wf_heap h \<Longrightarrow> read h x = Some v \<Longrightarrow> copy x h = (y, h') \<Longrightarrow> read h' y = Some v"
    and copy_fresh: "wf_heap h \<Longrightarrow> read h x = Some v \<Longrightarrow> copy x h = (y, h') \<Longrightarrow> refs h' y \<inter> {..<hp_next h} = {}"
begin

lemma extends_read:
  assumes "wf_heap h" and "read h x = Some v" and "extends h h'"
  shows "read h' x = Some v" "refs h' x = refs h x"
  using assms read_frame refs_frame extends_agree [OF assms(3) refs_allocated [OF assms(1,2)]] by simp_all

lemma copy_independent:
  assumes "wf_heap h" and "read h x = Some v" and "copy x h = (y, h')"
  shows "independent_copy read refs x y v h'"
proof -
  have ext: "extends h h'"
    using copy_extends [OF assms] by simp
  have orig: "read h' x = Some v" and new: "read h' y = Some v"
    using extends_read(1) [OF assms(1,2) ext] copy_reads [OF assms] .
  have "refs h' x \<subseteq> {..<hp_next h}"
    using extends_read(2) [OF assms(1,2) ext] refs_allocated [OF assms(1,2)] by simp
  then have "refs h' y \<subseteq> - refs h' x" and "refs h' x \<subseteq> - refs h' y"
    using copy_fresh [OF assms] by blast+
  then have "read h'' y = read h' y" if "agree (- refs h' x) h' h''" for h''
    using that read_frame agree_mono by blast
  moreover have "read h'' x = read h' x" if "agree (- refs h' y) h' h''" for h''
    using that read_frame agree_mono \<open>refs h' x \<subseteq> - refs h' y\<close> by blast
  ultimately show ?thesis
    using orig new by (simp add: independent_copy_def)
qed

text \<open>The loop over the elements of a slice.\<close>

lemma refs_list_Cons: "refs_list refs h (x # xs) = refs h x \<union> refs_list refs h xs"
  by (simp add: refs_list_def)

lemma list_frame:
  assumes "agree (refs_list refs h xs) h h'"
  shows "read_list read h' xs = read_list read h xs" and "refs_list refs h' xs = refs_list refs h xs"
proof -
  have el: "agree (refs h x) h h'" if "x \<in> set xs" for x
    using assms that by (auto simp: agree_def refs_list_def)
  then have same: "read h' x = read h x" "refs h' x = refs h x" if "x \<in> set xs" for x
    using that read_frame refs_frame by blast+
  then show "read_list read h' xs = read_list read h xs"
    by (induction xs) simp_all
  show "refs_list refs h' xs = refs_list refs h xs"
    using same by (simp add: refs_list_def)
qed

lemma list_allocated:
  "wf_heap h \<Longrightarrow> read_list read h xs = Some vs \<Longrightarrow> refs_list refs h xs \<subseteq> {..<hp_next h}"
proof (induction xs arbitrary: vs)
  case (Cons x xs)
  then show ?case
    using refs_allocated [of h x] by (auto simp: refs_list_Cons split: option.splits)
qed (simp add: refs_list_def)

lemma list_extends_read:
  assumes "wf_heap h" and "read_list read h xs = Some vs" and "extends h h'"
  shows "read_list read h' xs = Some vs" "refs_list refs h' xs = refs_list refs h xs"
  using list_frame [OF extends_agree [OF assms(3) list_allocated [OF assms(1,2)]]] assms(2) by simp_all

lemma copy_list_spec:
  assumes "wf_heap h" and "read_list read h xs = Some vs" and "copy_list copy xs h = (ys, h')"
  shows "wf_heap h' \<and> extends h h' \<and> read_list read h' ys = Some vs \<and> refs_list refs h' ys \<inter> {..<hp_next h} = {}"
  using assms
proof (induction xs arbitrary: h vs ys)
  case Nil
  then show ?case
    by (simp add: refs_list_def)
next
  case (Cons x xs)
  obtain y h1 where y: "copy x h = (y, h1)"
    by fastforce
  obtain zs where zs: "copy_list copy xs h1 = (zs, h')" and ys: "ys = y # zs"
    using Cons.prems(3) y by (auto split: prod.splits)
  obtain v us where v: "read h x = Some v" and us: "read_list read h xs = Some us" and vs: "vs = v # us"
    using Cons.prems(2) by (auto split: option.splits)
  have h1: "wf_heap h1" "extends h h1"
    using copy_extends [OF Cons.prems(1) v y] by simp_all
  have rest: "wf_heap h'" "extends h1 h'" "read_list read h' zs = Some us" "refs_list refs h' zs \<inter> {..<hp_next h1} = {}"
    using Cons.IH [OF h1(1) list_extends_read(1) [OF Cons.prems(1) us h1(2)] zs] by simp_all
  have "read h' y = Some v" "refs h' y = refs h1 y"
    using extends_read [OF h1(1) copy_reads [OF Cons.prems(1) v y] rest(2)] by simp_all
  moreover have "{..<hp_next h} \<subseteq> {..<hp_next h1}"
    using extends_next [OF h1(2)] by auto
  ultimately show ?case
    using rest h1 vs ys copy_fresh [OF Cons.prems(1) v y] extends_trans [OF h1(2) rest(2)]
    by (auto simp: refs_list_Cons)
qed

lemma list_deep_copy: "deep_copy (read_list read) (refs_list refs) (copy_list copy)"
  by unfold_locales (use list_frame list_allocated copy_list_spec in blast)+

end

text \<open>A copy into a cell that was allocated for it, and written when the copy is done.\<close>

lemma set_cell_fresh:
  assumes "wf_heap h" and "wf_heap h'" and "extends (snd (alloc c h)) h'"
  shows "wf_heap (set_cell (hp_next h) d h')" "extends h (set_cell (hp_next h) d h')"
    "A \<inter> {..<Suc (hp_next h)} = {} \<Longrightarrow> agree A h' (set_cell (hp_next h) d h')"
proof -
  have "hp_next h < hp_next h'"
    using extends_next [OF assms(3)] by simp
  then show "wf_heap (set_cell (hp_next h) d h')"
    using assms(2) by (rule wf_set_cell [rotated])
  show "extends h (set_cell (hp_next h) d h')"
    using extends_trans [OF extends_alloc assms(3)] by (rule extends_set_cell) simp
  show "agree A h' (set_cell (hp_next h) d h')" if "A \<inter> {..<Suc (hp_next h)} = {}"
    using that by (auto simp: agree_def set_cell_def)
qed

section \<open>Every pattern keeps the contract\<close>

interpretation plain: deep_copy read_plain refs_plain copy_plain
  by unfold_locales (auto simp: read_plain_def refs_plain_def copy_plain_def)

locale stored_copy = deep_copy read refs copy
  for read :: "'c heap \<Rightarrow> 'h \<Rightarrow> 'v option" and refs :: "'c heap \<Rightarrow> 'h \<Rightarrow> nat set"
    and copy :: "'h \<Rightarrow> 'c heap \<Rightarrow> 'h \<times> 'c heap" +
  fixes get :: "'c \<Rightarrow> 'h option" and put :: "'h \<Rightarrow> 'c" and init :: "'h \<Rightarrow> 'h"
  assumes get_put: "get (put x) = Some x"
begin

lemma ptr_frame:
  assumes "agree (refs_ptr get refs h p) h h'"
  shows "read_ptr get read h' p = read_ptr get read h p" and "refs_ptr get refs h' p = refs_ptr get refs h p"
proof -
  have "hp_cell h' a = hp_cell h a" if "p = Some a" for a
    using assms that by (simp add: agree_def refs_ptr_def)
  moreover have "agree (refs h x) h h'" if "Option.bind (Option.bind p (hp_cell h)) get = Some x" for x
    using assms that by (auto simp: agree_def refs_ptr_def split: option.splits)
  then have "read h' x = read h x \<and> refs h' x = refs h x" if "Option.bind (Option.bind p (hp_cell h)) get = Some x" for x
    using that read_frame refs_frame by blast
  ultimately show "read_ptr get read h' p = read_ptr get read h p" and "refs_ptr get refs h' p = refs_ptr get refs h p"
    by (auto simp: read_ptr_def refs_ptr_def split: option.splits bind_splits)
qed

lemma copy_new_spec:
  assumes "wf_heap h" and "read_ptr get read h p = Some v" and "copy_new get put init copy p h = (q, h')"
  shows "wf_heap h' \<and> extends h h' \<and> read_ptr get read h' q = Some v \<and> refs_ptr get refs h' q \<inter> {..<hp_next h} = {}"
proof (cases p)
  case None
  with assms show ?thesis
    by (auto simp: copy_new_def read_ptr_def refs_ptr_def)
next
  case (Some a)
  obtain c x w where cell: "hp_cell h a = Some c" "get c = Some x" and w: "read h x = Some w" and v: "v = Some w"
    using assms(2) Some by (auto simp: read_ptr_def bind_eq_Some_conv)
  let ?h1 = "snd (alloc (put (init x)) h)"
  obtain y h2 where y: "copy x ?h1 = (y, h2)"
    by fastforce
  have q: "q = Some (hp_next h)" and h': "h' = set_cell (hp_next h) (put y) h2"
    using assms(3) Some cell y by (auto simp: copy_new_def alloc_def split: prod.splits)
  have wf1: "wf_heap ?h1" and r1: "read ?h1 x = Some w"
    using wf_alloc [OF assms(1)] extends_read(1) [OF assms(1) w extends_alloc] by simp_all
  have h2: "wf_heap h2" "extends ?h1 h2"
    using copy_extends [OF wf1 r1 y] by simp_all
  have fresh: "refs h2 y \<inter> {..<Suc (hp_next h)} = {}"
    using copy_fresh [OF wf1 r1 y] by simp
  have agree: "agree (refs h2 y) h2 h'"
    using set_cell_fresh(3) [OF assms(1) h2 fresh] h' by simp
  have "read h' y = Some w" "refs h' y \<inter> {..<Suc (hp_next h)} = {}"
    using read_frame [OF agree] refs_frame [OF agree] copy_reads [OF wf1 r1 y] fresh by simp_all
  then show ?thesis
    using set_cell_fresh(1,2) [OF assms(1) h2, of "put y"] q h' v
    by (auto simp: read_ptr_def refs_ptr_def get_put)
qed

end

sublocale stored_copy \<subseteq> ptr: deep_copy "read_ptr get read" "refs_ptr get refs" "copy_new get put init copy"
proof unfold_locales
  fix h :: "'c heap" and p v
  assume "wf_heap h" and "read_ptr get read h p = Some v"
  then show "refs_ptr get refs h p \<subseteq> {..<hp_next h}"
    using refs_allocated by (fastforce simp: read_ptr_def refs_ptr_def wf_heap_def bind_eq_Some_conv split: option.splits)
qed (use ptr_frame copy_new_spec in blast)+

locale copy_in_order = first: deep_copy r1 f1 c1 + second: deep_copy r2 f2 c2
  for r1 :: "'c heap \<Rightarrow> 'a \<Rightarrow> 'v option" and f1 c1
    and r2 :: "'c heap \<Rightarrow> 'b \<Rightarrow> 'w option" and f2 c2
begin

lemma copy_pair_spec:
  assumes "wf_heap h" and "read_pair r1 r2 h x = Some v" and "copy_pair c1 c2 x h = (y, h')"
  shows "wf_heap h' \<and> extends h h' \<and> read_pair r1 r2 h' y = Some v \<and> refs_pair f1 f2 h' y \<inter> {..<hp_next h} = {}"
proof -
  obtain y1 h1 where y1: "c1 (fst x) h = (y1, h1)"
    by fastforce
  obtain y2 where y2: "c2 (snd x) h1 = (y2, h')" and y: "y = (y1, y2)"
    using assms(3) y1 by (auto simp: copy_pair_def split: prod.splits)
  obtain v1 v2 where v1: "r1 h (fst x) = Some v1" and v2: "r2 h (snd x) = Some v2" and v: "v = (v1, v2)"
    using assms(2) by (auto simp: read_pair_def split: option.splits)
  have h1: "wf_heap h1" "extends h h1"
    using first.copy_extends [OF assms(1) v1 y1] by simp_all
  have r2: "r2 h1 (snd x) = Some v2"
    using second.extends_read(1) [OF assms(1) v2 h1(2)] .
  have h': "wf_heap h'" "extends h1 h'"
    using second.copy_extends [OF h1(1) r2 y2] by simp_all
  have "r1 h' y1 = Some v1" "f1 h' y1 = f1 h1 y1"
    using first.extends_read [OF h1(1) first.copy_reads [OF assms(1) v1 y1] h'(2)] by simp_all
  moreover have "f2 h' y2 \<inter> {..<hp_next h} = {}"
    using second.copy_fresh [OF h1(1) r2 y2] extends_next [OF h1(2)] by fastforce
  ultimately show ?thesis
    using h' v y extends_trans [OF h1(2) h'(2)] second.copy_reads [OF h1(1) r2 y2] first.copy_fresh [OF assms(1) v1 y1]
    by (auto simp: read_pair_def refs_pair_def)
qed

lemma pair_frame:
  assumes "agree (refs_pair f1 f2 h x) h h'"
  shows "read_pair r1 r2 h' x = read_pair r1 r2 h x" and "refs_pair f1 f2 h' x = refs_pair f1 f2 h x"
proof -
  have "agree (f1 h (fst x)) h h'" and "agree (f2 h (snd x)) h h'"
    using assms by (auto simp: refs_pair_def agree_def)
  then have "r1 h' (fst x) = r1 h (fst x)" "f1 h' (fst x) = f1 h (fst x)"
      "r2 h' (snd x) = r2 h (snd x)" "f2 h' (snd x) = f2 h (snd x)"
    using first.read_frame first.refs_frame second.read_frame second.refs_frame by blast+
  then show "read_pair r1 r2 h' x = read_pair r1 r2 h x" and "refs_pair f1 f2 h' x = refs_pair f1 f2 h x"
    by (simp_all add: read_pair_def refs_pair_def)
qed

end

sublocale copy_in_order \<subseteq> pair: deep_copy "read_pair r1 r2" "refs_pair f1 f2" "copy_pair c1 c2"
proof unfold_locales
  fix h :: "'c heap" and x v
  assume "wf_heap h" and "read_pair r1 r2 h x = Some v"
  then show "refs_pair f1 f2 h x \<subseteq> {..<hp_next h}"
    using first.refs_allocated second.refs_allocated by (fastforce simp: read_pair_def refs_pair_def split: option.splits)
qed (use pair_frame copy_pair_spec in blast)+

text \<open>
  A struct: \<open>parts\<close> are its fields with pointers, \<open>build\<close> makes its value of the values of these
  fields, the other fields are values.
\<close>

locale struct_copy = deep_copy r f c
  for r :: "'c heap \<Rightarrow> 't \<Rightarrow> 'v option" and f :: "'c heap \<Rightarrow> 't \<Rightarrow> nat set" and c :: "'t \<Rightarrow> 'c heap \<Rightarrow> 't \<times> 'c heap" +
  fixes parts :: "'h \<Rightarrow> 't" and with_parts :: "'t \<Rightarrow> 'h \<Rightarrow> 'h" and build :: "'h \<Rightarrow> 'v \<Rightarrow> 'w"
    and copy :: "'h \<Rightarrow> 'c heap \<Rightarrow> 'h \<times> 'c heap"
  assumes parts_with: "parts (with_parts t x) = t"
    and build_with: "build (with_parts t x) = build x"
    and copy_struct: "copy x h = (let (t, h') = c (parts x) h in (with_parts t x, h'))"

sublocale struct_copy \<subseteq> struct: deep_copy "\<lambda>h x. map_option (build x) (r h (parts x))" "\<lambda>h x. f h (parts x)" copy
proof unfold_locales
  fix h h' :: "'c heap" and x y v
  assume wf: "wf_heap h" and v: "map_option (build x) (r h (parts x)) = Some v" and c: "copy x h = (y, h')"
  obtain t w where t: "c (parts x) h = (t, h')" and y: "y = with_parts t x"
    and w: "r h (parts x) = Some w" "v = build x w"
    using c v by (auto simp: copy_struct split: prod.splits)
  show "wf_heap h' \<and> extends h h'"
    using copy_extends [OF wf w(1) t] .
  show "map_option (build y) (r h' (parts y)) = Some v"
    using copy_reads [OF wf w(1) t] w(2) y by (simp add: parts_with build_with)
  show "f h' (parts y) \<inter> {..<hp_next h} = {}"
    using copy_fresh [OF wf w(1) t] y by (simp add: parts_with)
qed (auto simp: read_frame refs_frame dest: refs_allocated)

text \<open>The same as rules over the locale predicate.\<close>

context stored_copy
begin

lemma new_deep_copy: "deep_copy (read_ptr get read) (refs_ptr get refs) (copy_new get put init copy)"
  by (rule ptr.deep_copy_axioms)

end

context copy_in_order
begin

lemma pair_deep_copy: "deep_copy (read_pair r1 r2) (refs_pair f1 f2) (copy_pair c1 c2)"
  by (rule pair.deep_copy_axioms)

end

context struct_copy
begin

lemma struct_deep_copy: "deep_copy (\<lambda>h x. map_option (build x) (r h (parts x))) (\<lambda>h x. f h (parts x)) copy"
  by (rule struct.deep_copy_axioms)

end

lemma deep_copy_ptr:
  assumes "deep_copy r f c" and "\<And>x. get (put x) = Some x"
  shows "deep_copy (read_ptr get r) (refs_ptr get f) (copy_ptr get put c)"
  unfolding copy_ptr_def using assms
  by (intro stored_copy.new_deep_copy stored_copy.intro stored_copy_axioms.intro)

lemma deep_copy_slice:
  assumes "deep_copy r f c" and "\<And>xs. get (put xs) = Some xs"
  shows "deep_copy (read_ptr get (read_list r)) (refs_ptr get (refs_list f)) (copy_slice get put zero c)"
  unfolding copy_slice_def using deep_copy.list_deep_copy [OF assms(1)] assms(2)
  by (intro stored_copy.new_deep_copy stored_copy.intro stored_copy_axioms.intro)

lemma deep_copy_pair:
  "deep_copy r1 f1 c1 \<Longrightarrow> deep_copy r2 f2 c2 \<Longrightarrow> deep_copy (read_pair r1 r2) (refs_pair f1 f2) (copy_pair c1 c2)"
  by (intro copy_in_order.pair_deep_copy copy_in_order.intro)

lemma deep_copy_struct:
  assumes "deep_copy r f c" and "\<And>t x. parts (with_parts t x) = t" and "\<And>t x. build (with_parts t x) = build x"
    and "\<And>x h. copy x h = (let (t, h') = c (parts x) h in (with_parts t x, h'))"
  shows "deep_copy (\<lambda>h x. map_option (build x) (r h (parts x))) (\<lambda>h x. f h (parts x)) copy"
  using assms by (intro struct_copy.struct_deep_copy struct_copy.intro struct_copy_axioms.intro)

lemmas copy_plain_deep = plain.deep_copy_axioms

text \<open>A struct without references is copied by an assignment.\<close>

lemma deep_copy_plain_into: "(\<And>x h. into x h = (x, h)) \<Longrightarrow> deep_copy read_plain refs_plain into"
proof -
  assume "\<And>x h. into x h = (x, h)"
  then have "into = copy_plain"
    by (simp add: fun_eq_iff copy_plain_def)
  then show ?thesis
    by (simp add: copy_plain_deep)
qed

end
