(* ===== verification/Deep_Copy_CM.thy ===== *)
theory Deep_Copy_CM
  imports Deep_Copy Api_CounterMeasure
begin

text \<open>
  \<open>apis/countermeasure/v1alpha1/zz_generated.deepcopy.go\<close>. The structs as they lie in memory have
  addresses where the Go structs have pointers and slices; the records of
  Api_CounterMeasure are their values. \<open>metav1\<close> is not in this repository, and its types
  \<open>ObjectMeta\<close>, \<open>ListMeta\<close> and \<open>LabelSelector\<close> have maps, slices and pointers of their own: how
  they lie in memory, the cells they use and their \<open>DeepCopyInto\<close> are parameters. The types
  \<open>Time\<close>, \<open>Duration\<close> and \<open>Condition\<close> are values without references to anything that is ever
  written.
\<close>

section \<open>The library\<close>

text \<open>
  The copy functions of \<open>metav1\<close> and the zero value of \<open>ObjectMeta\<close>: \<open>'o\<close>, \<open>'l\<close> and \<open>'s\<close> are the
  structs \<open>ObjectMeta\<close>, \<open>ListMeta\<close> and \<open>LabelSelector\<close> in memory.
\<close>

record ('o, 'l, 'c) metav1 =
  v1_ObjectMeta :: "'o \<Rightarrow> 'c heap \<Rightarrow> 'o \<times> 'c heap"
  v1_ListMeta :: "'l \<Rightarrow> 'c heap \<Rightarrow> 'l \<times> 'c heap"
  v1_zero_ObjectMeta :: 'o

record ('o, 'l, 's, 'c) metav1_selector = "('o, 'l, 'c) metav1" +
  v1_LabelSelector :: "'s \<Rightarrow> 'c heap \<Rightarrow> 's \<times> 'c heap"

text \<open>
  How a struct of the library is read: its value, and the cells the value is made of. The
  metadata of an object have the fields that the operator reads and all others in \<open>'r\<close>.
\<close>

record ('v, 'h, 'c) view =
  vw_value :: "'c heap \<Rightarrow> 'h \<Rightarrow> 'v option"
  vw_cells :: "'c heap \<Rightarrow> 'h \<Rightarrow> nat set"

record ListMeta =
  lm_ResourceVersion :: string
  lm_Continue :: string
  lm_RemainingItemCount :: "int option"

record ('r, 'o, 'l, 'c) metav1_views =
  mv_ObjectMeta :: "('r ObjectMeta_scheme, 'o, 'c) view"
  mv_ListMeta :: "(ListMeta, 'l, 'c) view"

record ('r, 'o, 'l, 's, 'c) metav1_selector_views = "('r, 'o, 'l, 'c) metav1_views" +
  mv_LabelSelector :: "(LabelSelector, 's, 'c) view"

text \<open>What \<open>metav1\<close> documents of its \<open>DeepCopyInto\<close> functions: they are deep copies.\<close>

definition copies :: "('v, 'h, 'c) view \<Rightarrow> ('h \<Rightarrow> 'c heap \<Rightarrow> 'h \<times> 'c heap) \<Rightarrow> bool" where
  "copies V copy \<longleftrightarrow> deep_copy (vw_value V) (vw_cells V) copy"

definition metav1_contract :: "('r, 'o, 'l, 'c, 'y) metav1_views_scheme \<Rightarrow> ('o, 'l, 'c, 'z) metav1_scheme \<Rightarrow> bool" where
  "metav1_contract V L \<longleftrightarrow> copies (mv_ObjectMeta V) (v1_ObjectMeta L) \<and> copies (mv_ListMeta V) (v1_ListMeta L)"

definition selector_contract :: "('r, 'o, 'l, 's, 'c) metav1_selector_views \<Rightarrow> ('o, 'l, 's, 'c) metav1_selector \<Rightarrow> bool" where
  "selector_contract V L \<longleftrightarrow> metav1_contract V L \<and> copies (mv_LabelSelector V) (v1_LabelSelector L)"

lemma metav1_deep:
  assumes "metav1_contract V L"
  shows "deep_copy (vw_value (mv_ObjectMeta V)) (vw_cells (mv_ObjectMeta V)) (v1_ObjectMeta L)"
    and "deep_copy (vw_value (mv_ListMeta V)) (vw_cells (mv_ListMeta V)) (v1_ListMeta L)"
  using assms by (simp_all add: metav1_contract_def copies_def)

lemma selector_deep:
  assumes "selector_contract V L"
  shows "metav1_contract V L"
    and "deep_copy (vw_value (mv_LabelSelector V)) (vw_cells (mv_LabelSelector V)) (v1_LabelSelector L)"
  using assms by (simp_all add: selector_contract_def copies_def)

section \<open>Structs in memory\<close>

record TypeMeta =
  tm_Kind :: string
  tm_APIVersion :: string

record mem_DebugSpec =
  md_Name :: string
  md_Command :: "nat option"
  md_Args :: "nat option"
  md_Image :: string
  md_PodRef :: PodReference
  md_StdIn :: bool
  md_TTY :: bool

record mem_Action =
  ma_Name :: string
  ma_RetryEnabled :: bool
  ma_Delete :: "nat option"
  ma_Patch :: "nat option"
  ma_Debug :: "nat option"
  ma_Restart :: "nat option"

record mem_SuppressionPolicySpec =
  mp_Duration :: "nat option"

record mem_OnEventSpec =
  mo_EventName :: string
  mo_SourceSelector :: "nat option"
  mo_SuppressionPolicy :: "nat option"

record mem_CounterMeasureSpec =
  mc_OnEvent :: mem_OnEventSpec
  mc_Actions :: "nat option"
  mc_DryRun :: bool

record mem_CounterMeasureStatus =
  mx_LastStatus :: StatusType
  mx_LastStatusChangeTime :: "nat option"
  mx_Conditions :: "nat option"

record 'o mem_CounterMeasure =
  mm_TypeMeta :: TypeMeta
  mm_ObjectMeta :: 'o
  mm_Spec :: mem_CounterMeasureSpec
  mm_Status :: mem_CounterMeasureStatus

record 'l mem_CounterMeasureList =
  ml_TypeMeta :: TypeMeta
  ml_ListMeta :: 'l
  ml_Items :: "nat option"

datatype ('o, 'l, 's, 'k) cm_cell =
    DeleteCell DeleteSpec
  | PatchCell PatchSpec
  | DebugCell mem_DebugSpec
  | RestartCell RestartSpec
  | ObjectReferenceCell ObjectReference
  | PodReferenceCell PodReference
  | DeploymentReferenceCell DeploymentReference
  | SelectorCell 's
  | LibraryCell 'k
  | DurationCell int
  | TimeCell int
  | SuppressionCell mem_SuppressionPolicySpec
  | OnEventCell mem_OnEventSpec
  | ActionCell mem_Action
  | SpecCell mem_CounterMeasureSpec
  | StatusCell mem_CounterMeasureStatus
  | CounterMeasureCell "'o mem_CounterMeasure"
  | CounterMeasureListCell "'l mem_CounterMeasureList"
  | StringsCell "string list"
  | ActionsCell "mem_Action list"
  | ConditionsCell "Condition list"
  | ItemsCell "'o mem_CounterMeasure list"

type_synonym ('o, 'l, 's, 'k) cm_heap = "('o, 'l, 's, 'k) cm_cell heap"

type_synonym ('o, 'l, 's, 'k) cm_library = "('o, 'l, 's, ('o, 'l, 's, 'k) cm_cell) metav1_selector"

type_synonym ('r, 'o, 'l, 's, 'k) cm_views = "('r, 'o, 'l, 's, ('o, 'l, 's, 'k) cm_cell) metav1_selector_views"

text \<open>The cell of a type, if it is one.\<close>

fun as_Delete :: "('o, 'l, 's, 'k) cm_cell \<Rightarrow> DeleteSpec option" where
  "as_Delete (DeleteCell x) = Some x"
| "as_Delete _ = None"

fun as_Patch :: "('o, 'l, 's, 'k) cm_cell \<Rightarrow> PatchSpec option" where
  "as_Patch (PatchCell x) = Some x"
| "as_Patch _ = None"

fun as_Debug :: "('o, 'l, 's, 'k) cm_cell \<Rightarrow> mem_DebugSpec option" where
  "as_Debug (DebugCell x) = Some x"
| "as_Debug _ = None"

fun as_Restart :: "('o, 'l, 's, 'k) cm_cell \<Rightarrow> RestartSpec option" where
  "as_Restart (RestartCell x) = Some x"
| "as_Restart _ = None"

fun as_ObjectReference :: "('o, 'l, 's, 'k) cm_cell \<Rightarrow> ObjectReference option" where
  "as_ObjectReference (ObjectReferenceCell x) = Some x"
| "as_ObjectReference _ = None"

fun as_PodReference :: "('o, 'l, 's, 'k) cm_cell \<Rightarrow> PodReference option" where
  "as_PodReference (PodReferenceCell x) = Some x"
| "as_PodReference _ = None"

fun as_DeploymentReference :: "('o, 'l, 's, 'k) cm_cell \<Rightarrow> DeploymentReference option" where
  "as_DeploymentReference (DeploymentReferenceCell x) = Some x"
| "as_DeploymentReference _ = None"

fun as_Selector :: "('o, 'l, 's, 'k) cm_cell \<Rightarrow> 's option" where
  "as_Selector (SelectorCell x) = Some x"
| "as_Selector _ = None"

fun as_Duration :: "('o, 'l, 's, 'k) cm_cell \<Rightarrow> int option" where
  "as_Duration (DurationCell x) = Some x"
| "as_Duration _ = None"

fun as_Time :: "('o, 'l, 's, 'k) cm_cell \<Rightarrow> int option" where
  "as_Time (TimeCell x) = Some x"
| "as_Time _ = None"

fun as_Suppression :: "('o, 'l, 's, 'k) cm_cell \<Rightarrow> mem_SuppressionPolicySpec option" where
  "as_Suppression (SuppressionCell x) = Some x"
| "as_Suppression _ = None"

fun as_OnEvent :: "('o, 'l, 's, 'k) cm_cell \<Rightarrow> mem_OnEventSpec option" where
  "as_OnEvent (OnEventCell x) = Some x"
| "as_OnEvent _ = None"

fun as_Action :: "('o, 'l, 's, 'k) cm_cell \<Rightarrow> mem_Action option" where
  "as_Action (ActionCell x) = Some x"
| "as_Action _ = None"

fun as_Spec :: "('o, 'l, 's, 'k) cm_cell \<Rightarrow> mem_CounterMeasureSpec option" where
  "as_Spec (SpecCell x) = Some x"
| "as_Spec _ = None"

fun as_Status :: "('o, 'l, 's, 'k) cm_cell \<Rightarrow> mem_CounterMeasureStatus option" where
  "as_Status (StatusCell x) = Some x"
| "as_Status _ = None"

fun as_CounterMeasure :: "('o, 'l, 's, 'k) cm_cell \<Rightarrow> 'o mem_CounterMeasure option" where
  "as_CounterMeasure (CounterMeasureCell x) = Some x"
| "as_CounterMeasure _ = None"

fun as_CounterMeasureList :: "('o, 'l, 's, 'k) cm_cell \<Rightarrow> 'l mem_CounterMeasureList option" where
  "as_CounterMeasureList (CounterMeasureListCell x) = Some x"
| "as_CounterMeasureList _ = None"

fun as_Strings :: "('o, 'l, 's, 'k) cm_cell \<Rightarrow> (string list) option" where
  "as_Strings (StringsCell x) = Some x"
| "as_Strings _ = None"

fun as_Actions :: "('o, 'l, 's, 'k) cm_cell \<Rightarrow> (mem_Action list) option" where
  "as_Actions (ActionsCell x) = Some x"
| "as_Actions _ = None"

fun as_Conditions :: "('o, 'l, 's, 'k) cm_cell \<Rightarrow> (Condition list) option" where
  "as_Conditions (ConditionsCell x) = Some x"
| "as_Conditions _ = None"

fun as_Items :: "('o, 'l, 's, 'k) cm_cell \<Rightarrow> ('o mem_CounterMeasure list) option" where
  "as_Items (ItemsCell x) = Some x"
| "as_Items _ = None"

section \<open>\<open>DeepCopyInto\<close>\<close>

definition DeleteSpec_DeepCopyInto :: "DeleteSpec \<Rightarrow> ('o, 'l, 's, 'k) cm_heap \<Rightarrow> DeleteSpec \<times> ('o, 'l, 's, 'k) cm_heap" where
  "DeleteSpec_DeepCopyInto x h = (let out = x in (out\<lparr>dl_TargetObjectRef := dl_TargetObjectRef x\<rparr>, h))"

definition PatchSpec_DeepCopyInto :: "PatchSpec \<Rightarrow> ('o, 'l, 's, 'k) cm_heap \<Rightarrow> PatchSpec \<times> ('o, 'l, 's, 'k) cm_heap" where
  "PatchSpec_DeepCopyInto x h = (let out = x in (out\<lparr>pt_TargetObjectRef := pt_TargetObjectRef x\<rparr>, h))"

definition RestartSpec_DeepCopyInto :: "RestartSpec \<Rightarrow> ('o, 'l, 's, 'k) cm_heap \<Rightarrow> RestartSpec \<times> ('o, 'l, 's, 'k) cm_heap" where
  "RestartSpec_DeepCopyInto x h = (let out = x in (out\<lparr>rs_DeploymentRef := rs_DeploymentRef x\<rparr>, h))"

definition ObjectReference_DeepCopyInto :: "ObjectReference \<Rightarrow> ('o, 'l, 's, 'k) cm_heap \<Rightarrow> ObjectReference \<times> ('o, 'l, 's, 'k) cm_heap" where
  "ObjectReference_DeepCopyInto x h = (x, h)"

definition PodReference_DeepCopyInto :: "PodReference \<Rightarrow> ('o, 'l, 's, 'k) cm_heap \<Rightarrow> PodReference \<times> ('o, 'l, 's, 'k) cm_heap" where
  "PodReference_DeepCopyInto x h = (x, h)"

definition DeploymentReference_DeepCopyInto :: "DeploymentReference \<Rightarrow> ('o, 'l, 's, 'k) cm_heap \<Rightarrow> DeploymentReference \<times> ('o, 'l, 's, 'k) cm_heap" where
  "DeploymentReference_DeepCopyInto x h = (x, h)"

definition DebugSpec_DeepCopyInto :: "mem_DebugSpec \<Rightarrow> ('o, 'l, 's, 'k) cm_heap \<Rightarrow> mem_DebugSpec \<times> ('o, 'l, 's, 'k) cm_heap" where
  "DebugSpec_DeepCopyInto x h =
     (let out = x;
          (command, h1) = copy_slice as_Strings StringsCell [] copy_plain (md_Command x) h;
          (args, h2) = copy_slice as_Strings StringsCell [] copy_plain (md_Args x) h1
      in (out\<lparr>md_Command := command, md_Args := args, md_PodRef := md_PodRef x\<rparr>, h2))"

text \<open>For \<open>Delete\<close>, \<open>Patch\<close> and \<open>Restart\<close> the source has \<open>**out = **in\<close>.\<close>

definition Action_DeepCopyInto :: "mem_Action \<Rightarrow> ('o, 'l, 's, 'k) cm_heap \<Rightarrow> mem_Action \<times> ('o, 'l, 's, 'k) cm_heap" where
  "Action_DeepCopyInto x h =
     (let out = x;
          (delete, h1) = copy_ptr as_Delete DeleteCell copy_plain (ma_Delete x) h;
          (patch, h2) = copy_ptr as_Patch PatchCell copy_plain (ma_Patch x) h1;
          (debug, h3) = copy_ptr as_Debug DebugCell DebugSpec_DeepCopyInto (ma_Debug x) h2;
          (restart, h4) = copy_ptr as_Restart RestartCell copy_plain (ma_Restart x) h3
      in (out\<lparr>ma_Delete := delete, ma_Patch := patch, ma_Debug := debug, ma_Restart := restart\<rparr>, h4))"

definition SuppressionPolicySpec_DeepCopyInto :: "mem_SuppressionPolicySpec \<Rightarrow> ('o, 'l, 's, 'k) cm_heap \<Rightarrow> mem_SuppressionPolicySpec \<times> ('o, 'l, 's, 'k) cm_heap" where
  "SuppressionPolicySpec_DeepCopyInto x h =
     (let out = x; (duration, h1) = copy_ptr as_Duration DurationCell copy_plain (mp_Duration x) h
      in (out\<lparr>mp_Duration := duration\<rparr>, h1))"

definition OnEventSpec_DeepCopyInto :: "('o, 'l, 's, 'k) cm_library \<Rightarrow> mem_OnEventSpec \<Rightarrow> ('o, 'l, 's, 'k) cm_heap \<Rightarrow>
    mem_OnEventSpec \<times> ('o, 'l, 's, 'k) cm_heap" where
  "OnEventSpec_DeepCopyInto L x h =
     (let out = x;
          (selector, h1) = copy_ptr as_Selector SelectorCell (v1_LabelSelector L) (mo_SourceSelector x) h;
          (policy, h2) = copy_ptr as_Suppression SuppressionCell SuppressionPolicySpec_DeepCopyInto (mo_SuppressionPolicy x) h1
      in (out\<lparr>mo_SourceSelector := selector, mo_SuppressionPolicy := policy\<rparr>, h2))"

definition zero_Action :: mem_Action where
  "zero_Action = \<lparr>ma_Name = [], ma_RetryEnabled = False, ma_Delete = None, ma_Patch = None, ma_Debug = None, ma_Restart = None\<rparr>"

definition zero_Condition :: Condition where
  "zero_Condition = \<lparr>co_Type = [], co_Status = [], co_ObservedGeneration = 0, co_LastTransitionTime = 0,
     co_Reason = [], co_Message = []\<rparr>"

definition CounterMeasureSpec_DeepCopyInto :: "('o, 'l, 's, 'k) cm_library \<Rightarrow> mem_CounterMeasureSpec \<Rightarrow> ('o, 'l, 's, 'k) cm_heap \<Rightarrow>
    mem_CounterMeasureSpec \<times> ('o, 'l, 's, 'k) cm_heap" where
  "CounterMeasureSpec_DeepCopyInto L x h =
     (let out = x;
          (on_event, h1) = OnEventSpec_DeepCopyInto L (mc_OnEvent x) h;
          (actions, h2) = copy_slice as_Actions ActionsCell zero_Action Action_DeepCopyInto (mc_Actions x) h1
      in (out\<lparr>mc_OnEvent := on_event, mc_Actions := actions\<rparr>, h2))"

definition CounterMeasureStatus_DeepCopyInto :: "mem_CounterMeasureStatus \<Rightarrow> ('o, 'l, 's, 'k) cm_heap \<Rightarrow> mem_CounterMeasureStatus \<times> ('o, 'l, 's, 'k) cm_heap" where
  "CounterMeasureStatus_DeepCopyInto x h =
     (let out = x;
          (time, h1) = copy_ptr as_Time TimeCell copy_plain (mx_LastStatusChangeTime x) h;
          (conditions, h2) = copy_slice as_Conditions ConditionsCell zero_Condition copy_plain (mx_Conditions x) h1
      in (out\<lparr>mx_LastStatusChangeTime := time, mx_Conditions := conditions\<rparr>, h2))"

definition CounterMeasure_DeepCopyInto :: "('o, 'l, 's, 'k) cm_library \<Rightarrow> 'o mem_CounterMeasure \<Rightarrow> ('o, 'l, 's, 'k) cm_heap \<Rightarrow>
    'o mem_CounterMeasure \<times> ('o, 'l, 's, 'k) cm_heap" where
  "CounterMeasure_DeepCopyInto L x h =
     (let out = x;
          (meta, h1) = v1_ObjectMeta L (mm_ObjectMeta x) h;
          (spec, h2) = CounterMeasureSpec_DeepCopyInto L (mm_Spec x) h1;
          (status, h3) = CounterMeasureStatus_DeepCopyInto (mm_Status x) h2
      in (out\<lparr>mm_TypeMeta := mm_TypeMeta x, mm_ObjectMeta := meta, mm_Spec := spec, mm_Status := status\<rparr>, h3))"

definition zero_CounterMeasure :: "'o \<Rightarrow> 'o mem_CounterMeasure" where
  "zero_CounterMeasure meta = \<lparr>mm_TypeMeta = \<lparr>tm_Kind = [], tm_APIVersion = []\<rparr>,
     mm_ObjectMeta = meta,
     mm_Spec = \<lparr>mc_OnEvent = \<lparr>mo_EventName = [], mo_SourceSelector = None, mo_SuppressionPolicy = None\<rparr>,
       mc_Actions = None, mc_DryRun = False\<rparr>,
     mm_Status = \<lparr>mx_LastStatus = [], mx_LastStatusChangeTime = None, mx_Conditions = None\<rparr>\<rparr>"

definition CounterMeasureList_DeepCopyInto :: "('o, 'l, 's, 'k) cm_library \<Rightarrow> 'l mem_CounterMeasureList \<Rightarrow> ('o, 'l, 's, 'k) cm_heap \<Rightarrow>
    'l mem_CounterMeasureList \<times> ('o, 'l, 's, 'k) cm_heap" where
  "CounterMeasureList_DeepCopyInto L x h =
     (let out = x;
          (meta, h1) = v1_ListMeta L (ml_ListMeta x) h;
          (items, h2) = copy_slice as_Items ItemsCell (zero_CounterMeasure (v1_zero_ObjectMeta L)) (CounterMeasure_DeepCopyInto L) (ml_Items x) h1
      in (out\<lparr>ml_TypeMeta := ml_TypeMeta x, ml_ListMeta := meta, ml_Items := items\<rparr>, h2))"

section \<open>\<open>DeepCopy\<close> and \<open>DeepCopyObject\<close>\<close>

definition DeleteSpec_DeepCopy :: "nat option \<Rightarrow> ('o, 'l, 's, 'k) cm_heap \<Rightarrow> nat option \<times> ('o, 'l, 's, 'k) cm_heap" where
  "DeleteSpec_DeepCopy = copy_ptr as_Delete DeleteCell DeleteSpec_DeepCopyInto"

definition PatchSpec_DeepCopy :: "nat option \<Rightarrow> ('o, 'l, 's, 'k) cm_heap \<Rightarrow> nat option \<times> ('o, 'l, 's, 'k) cm_heap" where
  "PatchSpec_DeepCopy = copy_ptr as_Patch PatchCell PatchSpec_DeepCopyInto"

definition RestartSpec_DeepCopy :: "nat option \<Rightarrow> ('o, 'l, 's, 'k) cm_heap \<Rightarrow> nat option \<times> ('o, 'l, 's, 'k) cm_heap" where
  "RestartSpec_DeepCopy = copy_ptr as_Restart RestartCell RestartSpec_DeepCopyInto"

definition ObjectReference_DeepCopy :: "nat option \<Rightarrow> ('o, 'l, 's, 'k) cm_heap \<Rightarrow> nat option \<times> ('o, 'l, 's, 'k) cm_heap" where
  "ObjectReference_DeepCopy = copy_ptr as_ObjectReference ObjectReferenceCell ObjectReference_DeepCopyInto"

definition PodReference_DeepCopy :: "nat option \<Rightarrow> ('o, 'l, 's, 'k) cm_heap \<Rightarrow> nat option \<times> ('o, 'l, 's, 'k) cm_heap" where
  "PodReference_DeepCopy = copy_ptr as_PodReference PodReferenceCell PodReference_DeepCopyInto"

definition DeploymentReference_DeepCopy :: "nat option \<Rightarrow> ('o, 'l, 's, 'k) cm_heap \<Rightarrow> nat option \<times> ('o, 'l, 's, 'k) cm_heap" where
  "DeploymentReference_DeepCopy = copy_ptr as_DeploymentReference DeploymentReferenceCell DeploymentReference_DeepCopyInto"

definition DebugSpec_DeepCopy :: "nat option \<Rightarrow> ('o, 'l, 's, 'k) cm_heap \<Rightarrow> nat option \<times> ('o, 'l, 's, 'k) cm_heap" where
  "DebugSpec_DeepCopy = copy_ptr as_Debug DebugCell DebugSpec_DeepCopyInto"

definition Action_DeepCopy :: "nat option \<Rightarrow> ('o, 'l, 's, 'k) cm_heap \<Rightarrow> nat option \<times> ('o, 'l, 's, 'k) cm_heap" where
  "Action_DeepCopy = copy_ptr as_Action ActionCell Action_DeepCopyInto"

definition SuppressionPolicySpec_DeepCopy :: "nat option \<Rightarrow> ('o, 'l, 's, 'k) cm_heap \<Rightarrow> nat option \<times> ('o, 'l, 's, 'k) cm_heap" where
  "SuppressionPolicySpec_DeepCopy = copy_ptr as_Suppression SuppressionCell SuppressionPolicySpec_DeepCopyInto"

definition OnEventSpec_DeepCopy :: "('o, 'l, 's, 'k) cm_library \<Rightarrow> nat option \<Rightarrow> ('o, 'l, 's, 'k) cm_heap \<Rightarrow> nat option \<times> ('o, 'l, 's, 'k) cm_heap" where
  "OnEventSpec_DeepCopy L = copy_ptr as_OnEvent OnEventCell (OnEventSpec_DeepCopyInto L)"

definition CounterMeasureSpec_DeepCopy :: "('o, 'l, 's, 'k) cm_library \<Rightarrow> nat option \<Rightarrow> ('o, 'l, 's, 'k) cm_heap \<Rightarrow> nat option \<times> ('o, 'l, 's, 'k) cm_heap" where
  "CounterMeasureSpec_DeepCopy L = copy_ptr as_Spec SpecCell (CounterMeasureSpec_DeepCopyInto L)"

definition CounterMeasureStatus_DeepCopy :: "nat option \<Rightarrow> ('o, 'l, 's, 'k) cm_heap \<Rightarrow> nat option \<times> ('o, 'l, 's, 'k) cm_heap" where
  "CounterMeasureStatus_DeepCopy = copy_ptr as_Status StatusCell CounterMeasureStatus_DeepCopyInto"

definition CounterMeasure_DeepCopy :: "('o, 'l, 's, 'k) cm_library \<Rightarrow> nat option \<Rightarrow> ('o, 'l, 's, 'k) cm_heap \<Rightarrow> nat option \<times> ('o, 'l, 's, 'k) cm_heap" where
  "CounterMeasure_DeepCopy L = copy_ptr as_CounterMeasure CounterMeasureCell (CounterMeasure_DeepCopyInto L)"

definition CounterMeasureList_DeepCopy :: "('o, 'l, 's, 'k) cm_library \<Rightarrow> nat option \<Rightarrow> ('o, 'l, 's, 'k) cm_heap \<Rightarrow> nat option \<times> ('o, 'l, 's, 'k) cm_heap" where
  "CounterMeasureList_DeepCopy L = copy_ptr as_CounterMeasureList CounterMeasureListCell (CounterMeasureList_DeepCopyInto L)"

text \<open>A value of the interface \<open>runtime.Object\<close>: the type and the pointer.\<close>

datatype cm_object = CounterMeasureObject nat | CounterMeasureListObject nat

definition CounterMeasure_DeepCopyObject :: "('o, 'l, 's, 'k) cm_library \<Rightarrow> nat option \<Rightarrow> ('o, 'l, 's, 'k) cm_heap \<Rightarrow> cm_object option \<times> ('o, 'l, 's, 'k) cm_heap" where
  "CounterMeasure_DeepCopyObject L p h =
     (case CounterMeasure_DeepCopy L p h of (Some c, h') \<Rightarrow> (Some (CounterMeasureObject c), h') | (None, h') \<Rightarrow> (None, h'))"

definition CounterMeasureList_DeepCopyObject :: "('o, 'l, 's, 'k) cm_library \<Rightarrow> nat option \<Rightarrow> ('o, 'l, 's, 'k) cm_heap \<Rightarrow> cm_object option \<times> ('o, 'l, 's, 'k) cm_heap" where
  "CounterMeasureList_DeepCopyObject L p h =
     (case CounterMeasureList_DeepCopy L p h of (Some c, h') \<Rightarrow> (Some (CounterMeasureListObject c), h') | (None, h') \<Rightarrow> (None, h'))"

section \<open>The values and the cells of the structs\<close>

definition slice_value :: "'a list option \<Rightarrow> 'a list" where
  "slice_value v = (case v of None \<Rightarrow> [] | Some xs \<Rightarrow> xs)"

lemma strings_deep:
  "deep_copy (read_ptr as_Strings (read_list read_plain)) (refs_ptr as_Strings (refs_list refs_plain))
     (copy_slice as_Strings StringsCell [] copy_plain)"
  by (rule deep_copy_slice [OF copy_plain_deep]) simp

lemma ptr_deep:
  "deep_copy (read_ptr as_Delete read_plain) (refs_ptr as_Delete refs_plain) (copy_ptr as_Delete DeleteCell copy_plain)"
  "deep_copy (read_ptr as_Patch read_plain) (refs_ptr as_Patch refs_plain) (copy_ptr as_Patch PatchCell copy_plain)"
  "deep_copy (read_ptr as_Restart read_plain) (refs_ptr as_Restart refs_plain) (copy_ptr as_Restart RestartCell copy_plain)"
  "deep_copy (read_ptr as_Duration read_plain) (refs_ptr as_Duration refs_plain) (copy_ptr as_Duration DurationCell copy_plain)"
  "deep_copy (read_ptr as_Time read_plain) (refs_ptr as_Time refs_plain) (copy_ptr as_Time TimeCell copy_plain)"
  by (rule deep_copy_ptr [OF copy_plain_deep], simp)+

lemma conditions_deep:
  "deep_copy (read_ptr as_Conditions (read_list read_plain)) (refs_ptr as_Conditions (refs_list refs_plain))
     (copy_slice as_Conditions ConditionsCell zero_Condition copy_plain)"
  by (rule deep_copy_slice [OF copy_plain_deep]) simp

lemmas copy_into_simps = copy_pair_def fun_eq_iff Let_def

definition build_DebugSpec :: "mem_DebugSpec \<Rightarrow> string list option \<times> string list option \<Rightarrow> DebugSpec" where
  "build_DebugSpec x v = \<lparr>db_Name = md_Name x, db_Command = slice_value (fst v), db_Args = slice_value (snd v),
     db_Image = md_Image x, db_PodRef = md_PodRef x, db_StdIn = md_StdIn x, db_TTY = md_TTY x\<rparr>"

definition read_DebugSpec :: "('o, 'l, 's, 'k) cm_heap \<Rightarrow> mem_DebugSpec \<Rightarrow> DebugSpec option" where
  "read_DebugSpec = (\<lambda>h x. map_option (build_DebugSpec x)
     (read_pair (read_ptr as_Strings (read_list read_plain)) (read_ptr as_Strings (read_list read_plain)) h (md_Command x, md_Args x)))"

definition refs_DebugSpec :: "('o, 'l, 's, 'k) cm_heap \<Rightarrow> mem_DebugSpec \<Rightarrow> nat set" where
  "refs_DebugSpec = (\<lambda>h x.
     refs_pair (refs_ptr as_Strings (refs_list refs_plain)) (refs_ptr as_Strings (refs_list refs_plain)) h (md_Command x, md_Args x))"

interpretation DebugSpec: deep_copy read_DebugSpec refs_DebugSpec DebugSpec_DeepCopyInto
  unfolding read_DebugSpec_def refs_DebugSpec_def
  by (rule deep_copy_struct [where with_parts = "\<lambda>(c, a) x. x\<lparr>md_Command := c, md_Args := a\<rparr>",
        OF deep_copy_pair [OF strings_deep strings_deep]])
    (auto simp: DebugSpec_DeepCopyInto_def build_DebugSpec_def copy_into_simps split: prod.splits)

definition build_Action :: "mem_Action \<Rightarrow>
    DeleteSpec option \<times> PatchSpec option \<times> DebugSpec option \<times> RestartSpec option \<Rightarrow> Action" where
  "build_Action x = (\<lambda>(d, p, g, r). \<lparr>ac_Name = ma_Name x, ac_RetryEnabled = ma_RetryEnabled x,
     ac_Delete = d, ac_Patch = p, ac_Debug = g, ac_Restart = r\<rparr>)"

definition parts_Action :: "mem_Action \<Rightarrow> nat option \<times> nat option \<times> nat option \<times> nat option" where
  "parts_Action x = (ma_Delete x, ma_Patch x, ma_Debug x, ma_Restart x)"

definition read_Action :: "('o, 'l, 's, 'k) cm_heap \<Rightarrow> mem_Action \<Rightarrow> Action option" where
  "read_Action = (\<lambda>h x. map_option (build_Action x)
     (read_pair (read_ptr as_Delete read_plain) (read_pair (read_ptr as_Patch read_plain)
       (read_pair (read_ptr as_Debug read_DebugSpec) (read_ptr as_Restart read_plain))) h (parts_Action x)))"

definition refs_Action :: "('o, 'l, 's, 'k) cm_heap \<Rightarrow> mem_Action \<Rightarrow> nat set" where
  "refs_Action = (\<lambda>h x.
     refs_pair (refs_ptr as_Delete refs_plain) (refs_pair (refs_ptr as_Patch refs_plain)
       (refs_pair (refs_ptr as_Debug refs_DebugSpec) (refs_ptr as_Restart refs_plain))) h (parts_Action x))"

interpretation DebugSpec_ptr: stored_copy read_DebugSpec refs_DebugSpec DebugSpec_DeepCopyInto as_Debug DebugCell "\<lambda>x. x"
  by unfold_locales simp

lemma debug_ptr_deep:
  "deep_copy (read_ptr as_Debug read_DebugSpec) (refs_ptr as_Debug refs_DebugSpec) (copy_ptr as_Debug DebugCell DebugSpec_DeepCopyInto)"
  unfolding copy_ptr_def by (rule DebugSpec_ptr.new_deep_copy)

interpretation Action: deep_copy read_Action refs_Action Action_DeepCopyInto
  unfolding read_Action_def refs_Action_def
  by (rule deep_copy_struct [where with_parts = "\<lambda>(d, p, g, r) x. x\<lparr>ma_Delete := d, ma_Patch := p, ma_Debug := g, ma_Restart := r\<rparr>",
        OF deep_copy_pair [OF ptr_deep(1) deep_copy_pair [OF ptr_deep(2) deep_copy_pair [OF debug_ptr_deep ptr_deep(3)]]]])
    (auto simp: Action_DeepCopyInto_def build_Action_def parts_Action_def copy_into_simps split: prod.splits)

definition build_Suppression :: "mem_SuppressionPolicySpec \<Rightarrow> int option \<Rightarrow> SuppressionPolicySpec" where
  "build_Suppression x d = \<lparr>sp_Duration = d\<rparr>"

definition read_SuppressionPolicySpec :: "('o, 'l, 's, 'k) cm_heap \<Rightarrow> mem_SuppressionPolicySpec \<Rightarrow> SuppressionPolicySpec option" where
  "read_SuppressionPolicySpec = (\<lambda>h x. map_option (build_Suppression x) (read_ptr as_Duration read_plain h (mp_Duration x)))"

definition refs_SuppressionPolicySpec :: "('o, 'l, 's, 'k) cm_heap \<Rightarrow> mem_SuppressionPolicySpec \<Rightarrow> nat set" where
  "refs_SuppressionPolicySpec = (\<lambda>h x. refs_ptr as_Duration refs_plain h (mp_Duration x))"

interpretation SuppressionPolicySpec: deep_copy read_SuppressionPolicySpec refs_SuppressionPolicySpec
    SuppressionPolicySpec_DeepCopyInto
  unfolding read_SuppressionPolicySpec_def refs_SuppressionPolicySpec_def
  by (rule deep_copy_struct [where with_parts = "\<lambda>d x. x\<lparr>mp_Duration := d\<rparr>", OF ptr_deep(4)])
    (auto simp: SuppressionPolicySpec_DeepCopyInto_def build_Suppression_def copy_into_simps split: prod.splits)

definition build_OnEventSpec :: "mem_OnEventSpec \<Rightarrow> LabelSelector option \<times> SuppressionPolicySpec option \<Rightarrow> OnEventSpec" where
  "build_OnEventSpec x v = \<lparr>oe_EventName = mo_EventName x, oe_SourceSelector = fst v, oe_SuppressionPolicy = snd v\<rparr>"

definition read_OnEventSpec :: "('r, 'o, 'l, 's, 'k) cm_views \<Rightarrow> ('o, 'l, 's, 'k) cm_heap \<Rightarrow> mem_OnEventSpec \<Rightarrow> OnEventSpec option" where
  "read_OnEventSpec V = (\<lambda>h x. map_option (build_OnEventSpec x)
     (read_pair (read_ptr as_Selector (vw_value (mv_LabelSelector V))) (read_ptr as_Suppression read_SuppressionPolicySpec) h
       (mo_SourceSelector x, mo_SuppressionPolicy x)))"

definition refs_OnEventSpec :: "('r, 'o, 'l, 's, 'k) cm_views \<Rightarrow> ('o, 'l, 's, 'k) cm_heap \<Rightarrow> mem_OnEventSpec \<Rightarrow> nat set" where
  "refs_OnEventSpec V = (\<lambda>h x.
     refs_pair (refs_ptr as_Selector (vw_cells (mv_LabelSelector V))) (refs_ptr as_Suppression refs_SuppressionPolicySpec) h
       (mo_SourceSelector x, mo_SuppressionPolicy x))"

lemma suppression_ptr_deep:
  "deep_copy (read_ptr as_Suppression read_SuppressionPolicySpec) (refs_ptr as_Suppression refs_SuppressionPolicySpec)
     (copy_ptr as_Suppression SuppressionCell SuppressionPolicySpec_DeepCopyInto)"
  by (rule deep_copy_ptr [OF SuppressionPolicySpec.deep_copy_axioms]) simp

lemma OnEventSpec_deep:
  assumes "selector_contract V L"
  shows "deep_copy (read_OnEventSpec V) (refs_OnEventSpec V) (OnEventSpec_DeepCopyInto L)"
proof -
  have selector: "deep_copy (read_ptr as_Selector (vw_value (mv_LabelSelector V))) (refs_ptr as_Selector (vw_cells (mv_LabelSelector V)))
      (copy_ptr as_Selector SelectorCell (v1_LabelSelector L))"
    by (rule deep_copy_ptr [OF selector_deep(2) [OF assms]]) simp
  show ?thesis
    unfolding read_OnEventSpec_def refs_OnEventSpec_def
    by (rule deep_copy_struct [where with_parts = "\<lambda>(s, p) x. x\<lparr>mo_SourceSelector := s, mo_SuppressionPolicy := p\<rparr>",
          OF deep_copy_pair [OF selector suppression_ptr_deep]])
      (auto simp: OnEventSpec_DeepCopyInto_def build_OnEventSpec_def copy_into_simps split: prod.splits)
qed

definition build_Spec :: "mem_CounterMeasureSpec \<Rightarrow> OnEventSpec \<times> Action list option \<Rightarrow> CounterMeasureSpec" where
  "build_Spec x v = \<lparr>cs_OnEvent = fst v, cs_Actions = slice_value (snd v), cs_DryRun = mc_DryRun x\<rparr>"

definition read_Spec :: "('r, 'o, 'l, 's, 'k) cm_views \<Rightarrow> ('o, 'l, 's, 'k) cm_heap \<Rightarrow> mem_CounterMeasureSpec \<Rightarrow> CounterMeasureSpec option" where
  "read_Spec V = (\<lambda>h x. map_option (build_Spec x)
     (read_pair (read_OnEventSpec V) (read_ptr as_Actions (read_list read_Action)) h (mc_OnEvent x, mc_Actions x)))"

definition refs_Spec :: "('r, 'o, 'l, 's, 'k) cm_views \<Rightarrow> ('o, 'l, 's, 'k) cm_heap \<Rightarrow> mem_CounterMeasureSpec \<Rightarrow> nat set" where
  "refs_Spec V = (\<lambda>h x.
     refs_pair (refs_OnEventSpec V) (refs_ptr as_Actions (refs_list refs_Action)) h (mc_OnEvent x, mc_Actions x))"

lemma actions_deep:
  "deep_copy (read_ptr as_Actions (read_list read_Action)) (refs_ptr as_Actions (refs_list refs_Action))
     (copy_slice as_Actions ActionsCell zero_Action Action_DeepCopyInto)"
  by (rule deep_copy_slice [OF Action.deep_copy_axioms]) simp

lemma Spec_deep:
  assumes "selector_contract V L"
  shows "deep_copy (read_Spec V) (refs_Spec V) (CounterMeasureSpec_DeepCopyInto L)"
  unfolding read_Spec_def refs_Spec_def
  by (rule deep_copy_struct [where with_parts = "\<lambda>(e, a) x. x\<lparr>mc_OnEvent := e, mc_Actions := a\<rparr>",
        OF deep_copy_pair [OF OnEventSpec_deep [OF assms] actions_deep]])
    (auto simp: CounterMeasureSpec_DeepCopyInto_def build_Spec_def copy_into_simps split: prod.splits)

definition build_Status :: "mem_CounterMeasureStatus \<Rightarrow> int option \<times> Condition list option \<Rightarrow> CounterMeasureStatus" where
  "build_Status x v = \<lparr>cx_LastStatus = mx_LastStatus x, cx_LastStatusChangeTime = fst v, cx_Conditions = slice_value (snd v)\<rparr>"

definition read_Status :: "('o, 'l, 's, 'k) cm_heap \<Rightarrow> mem_CounterMeasureStatus \<Rightarrow> CounterMeasureStatus option" where
  "read_Status = (\<lambda>h x. map_option (build_Status x)
     (read_pair (read_ptr as_Time read_plain) (read_ptr as_Conditions (read_list read_plain)) h
       (mx_LastStatusChangeTime x, mx_Conditions x)))"

definition refs_Status :: "('o, 'l, 's, 'k) cm_heap \<Rightarrow> mem_CounterMeasureStatus \<Rightarrow> nat set" where
  "refs_Status = (\<lambda>h x. refs_pair (refs_ptr as_Time refs_plain) (refs_ptr as_Conditions (refs_list refs_plain)) h
     (mx_LastStatusChangeTime x, mx_Conditions x))"

interpretation time_and_conditions: copy_in_order "read_ptr as_Time read_plain" "refs_ptr as_Time refs_plain"
    "copy_ptr as_Time TimeCell copy_plain" "read_ptr as_Conditions (read_list read_plain)" "refs_ptr as_Conditions (refs_list refs_plain)"
    "copy_slice as_Conditions ConditionsCell zero_Condition copy_plain"
  by (intro copy_in_order.intro ptr_deep(5) conditions_deep)

interpretation Status_struct: struct_copy "read_pair (read_ptr as_Time read_plain) (read_ptr as_Conditions (read_list read_plain))"
    "refs_pair (refs_ptr as_Time refs_plain) (refs_ptr as_Conditions (refs_list refs_plain))"
    "copy_pair (copy_ptr as_Time TimeCell copy_plain) (copy_slice as_Conditions ConditionsCell zero_Condition copy_plain)"
    "\<lambda>x. (mx_LastStatusChangeTime x, mx_Conditions x)"
    "\<lambda>(t, c) x. x\<lparr>mx_LastStatusChangeTime := t, mx_Conditions := c\<rparr>" build_Status CounterMeasureStatus_DeepCopyInto
  by unfold_locales (auto simp: CounterMeasureStatus_DeepCopyInto_def build_Status_def copy_into_simps split: prod.splits)

interpretation Status: deep_copy read_Status refs_Status CounterMeasureStatus_DeepCopyInto
  unfolding read_Status_def refs_Status_def by (rule Status_struct.struct_deep_copy)

text \<open>The value of a countermeasure keeps all of the metadata beside what the operator reads of them.\<close>

type_synonym 'r meta_and_cm = "TypeMeta \<times> 'r ObjectMeta_scheme \<times> CounterMeasure"

definition build_CounterMeasure :: "'o mem_CounterMeasure \<Rightarrow> 'r ObjectMeta_scheme \<times> CounterMeasureSpec \<times> CounterMeasureStatus \<Rightarrow>
    'r meta_and_cm" where
  "build_CounterMeasure x = (\<lambda>(meta, spec, status).
     (mm_TypeMeta x, meta, \<lparr>cm_ObjectMeta = ObjectMeta.truncate meta, cm_Spec = spec, cm_Status = status\<rparr>))"

definition read_CounterMeasure :: "('r, 'o, 'l, 's, 'k) cm_views \<Rightarrow> ('o, 'l, 's, 'k) cm_heap \<Rightarrow> 'o mem_CounterMeasure \<Rightarrow> 'r meta_and_cm option" where
  "read_CounterMeasure V = (\<lambda>h x. map_option (build_CounterMeasure x)
     (read_pair (vw_value (mv_ObjectMeta V)) (read_pair (read_Spec V) read_Status) h (mm_ObjectMeta x, mm_Spec x, mm_Status x)))"

definition refs_CounterMeasure :: "('r, 'o, 'l, 's, 'k) cm_views \<Rightarrow> ('o, 'l, 's, 'k) cm_heap \<Rightarrow> 'o mem_CounterMeasure \<Rightarrow> nat set" where
  "refs_CounterMeasure V = (\<lambda>h x.
     refs_pair (vw_cells (mv_ObjectMeta V)) (refs_pair (refs_Spec V) refs_Status) h (mm_ObjectMeta x, mm_Spec x, mm_Status x))"

lemma CounterMeasure_deep:
  assumes "selector_contract V L"
  shows "deep_copy (read_CounterMeasure V) (refs_CounterMeasure V) (CounterMeasure_DeepCopyInto L)"
  unfolding read_CounterMeasure_def refs_CounterMeasure_def
  by (rule deep_copy_struct [where with_parts = "\<lambda>(m, s, t) x. x\<lparr>mm_ObjectMeta := m, mm_Spec := s, mm_Status := t\<rparr>",
        OF deep_copy_pair [OF metav1_deep(1) [OF selector_deep(1) [OF assms]]
          deep_copy_pair [OF Spec_deep [OF assms] Status.deep_copy_axioms]]])
    (auto simp: CounterMeasure_DeepCopyInto_def build_CounterMeasure_def copy_into_simps split: prod.splits)

definition build_List :: "'l mem_CounterMeasureList \<Rightarrow> ListMeta \<times> 'r meta_and_cm list option \<Rightarrow>
    TypeMeta \<times> ListMeta \<times> 'r meta_and_cm list option" where
  "build_List x v = (ml_TypeMeta x, v)"

definition read_CounterMeasureList :: "('r, 'o, 'l, 's, 'k) cm_views \<Rightarrow> ('o, 'l, 's, 'k) cm_heap \<Rightarrow> 'l mem_CounterMeasureList \<Rightarrow>
    (TypeMeta \<times> ListMeta \<times> 'r meta_and_cm list option) option" where
  "read_CounterMeasureList V = (\<lambda>h x. map_option (build_List x)
     (read_pair (vw_value (mv_ListMeta V)) (read_ptr as_Items (read_list (read_CounterMeasure V))) h (ml_ListMeta x, ml_Items x)))"

definition refs_CounterMeasureList :: "('r, 'o, 'l, 's, 'k) cm_views \<Rightarrow> ('o, 'l, 's, 'k) cm_heap \<Rightarrow> 'l mem_CounterMeasureList \<Rightarrow> nat set" where
  "refs_CounterMeasureList V = (\<lambda>h x.
     refs_pair (vw_cells (mv_ListMeta V)) (refs_ptr as_Items (refs_list (refs_CounterMeasure V))) h (ml_ListMeta x, ml_Items x))"

lemma items_deep:
  assumes "selector_contract V L"
  shows "deep_copy (read_ptr as_Items (read_list (read_CounterMeasure V))) (refs_ptr as_Items (refs_list (refs_CounterMeasure V)))
     (copy_slice as_Items ItemsCell (zero_CounterMeasure (v1_zero_ObjectMeta L)) (CounterMeasure_DeepCopyInto L))"
  by (rule deep_copy_slice [OF CounterMeasure_deep [OF assms]]) simp

lemma CounterMeasureList_deep:
  assumes "selector_contract V L"
  shows "deep_copy (read_CounterMeasureList V) (refs_CounterMeasureList V) (CounterMeasureList_DeepCopyInto L)"
  unfolding read_CounterMeasureList_def refs_CounterMeasureList_def
  by (rule deep_copy_struct [where with_parts = "\<lambda>(m, i) x. x\<lparr>ml_ListMeta := m, ml_Items := i\<rparr>",
        OF deep_copy_pair [OF metav1_deep(2) [OF selector_deep(1) [OF assms]] items_deep [OF assms]]])
    (auto simp: CounterMeasureList_DeepCopyInto_def build_List_def copy_into_simps split: prod.splits)

section \<open>Copies are equal and independent\<close>

text \<open>The copies of the parts are deep copies in the same sense, each on its own.\<close>

lemma plain_DeepCopy_deep:
  "deep_copy (read_ptr as_Delete read_plain) (refs_ptr as_Delete refs_plain) DeleteSpec_DeepCopy"
  "deep_copy (read_ptr as_Patch read_plain) (refs_ptr as_Patch refs_plain) PatchSpec_DeepCopy"
  "deep_copy (read_ptr as_Restart read_plain) (refs_ptr as_Restart refs_plain) RestartSpec_DeepCopy"
  "deep_copy (read_ptr as_ObjectReference read_plain) (refs_ptr as_ObjectReference refs_plain) ObjectReference_DeepCopy"
  "deep_copy (read_ptr as_PodReference read_plain) (refs_ptr as_PodReference refs_plain) PodReference_DeepCopy"
  "deep_copy (read_ptr as_DeploymentReference read_plain) (refs_ptr as_DeploymentReference refs_plain) DeploymentReference_DeepCopy"
  unfolding DeleteSpec_DeepCopy_def PatchSpec_DeepCopy_def RestartSpec_DeepCopy_def ObjectReference_DeepCopy_def PodReference_DeepCopy_def DeploymentReference_DeepCopy_def
  by (rule deep_copy_ptr [OF deep_copy_plain_into], simp_all add: DeleteSpec_DeepCopyInto_def PatchSpec_DeepCopyInto_def RestartSpec_DeepCopyInto_def ObjectReference_DeepCopyInto_def PodReference_DeepCopyInto_def DeploymentReference_DeepCopyInto_def)+

lemma part_DeepCopy_deep:
  "deep_copy (read_ptr as_Debug read_DebugSpec) (refs_ptr as_Debug refs_DebugSpec) DebugSpec_DeepCopy"
  "deep_copy (read_ptr as_Action read_Action) (refs_ptr as_Action refs_Action) Action_DeepCopy"
  "deep_copy (read_ptr as_Suppression read_SuppressionPolicySpec) (refs_ptr as_Suppression refs_SuppressionPolicySpec) SuppressionPolicySpec_DeepCopy"
  "deep_copy (read_ptr as_Status read_Status) (refs_ptr as_Status refs_Status) CounterMeasureStatus_DeepCopy"
  unfolding DebugSpec_DeepCopy_def Action_DeepCopy_def SuppressionPolicySpec_DeepCopy_def CounterMeasureStatus_DeepCopy_def
  by (rule deep_copy_ptr, (rule DebugSpec.deep_copy_axioms Action.deep_copy_axioms SuppressionPolicySpec.deep_copy_axioms Status.deep_copy_axioms), simp)+

lemma library_DeepCopy_deep:
  assumes "selector_contract V L"
  shows "deep_copy (read_ptr as_OnEvent (read_OnEventSpec V)) (refs_ptr as_OnEvent (refs_OnEventSpec V)) (OnEventSpec_DeepCopy L)"
    and "deep_copy (read_ptr as_Spec (read_Spec V)) (refs_ptr as_Spec (refs_Spec V)) (CounterMeasureSpec_DeepCopy L)"
    and "deep_copy (read_ptr as_CounterMeasure (read_CounterMeasure V)) (refs_ptr as_CounterMeasure (refs_CounterMeasure V))
      (CounterMeasure_DeepCopy L)"
    and "deep_copy (read_ptr as_CounterMeasureList (read_CounterMeasureList V))
      (refs_ptr as_CounterMeasureList (refs_CounterMeasureList V)) (CounterMeasureList_DeepCopy L)"
  unfolding OnEventSpec_DeepCopy_def CounterMeasureSpec_DeepCopy_def CounterMeasure_DeepCopy_def CounterMeasureList_DeepCopy_def
  by (rule deep_copy_ptr, (rule OnEventSpec_deep Spec_deep CounterMeasure_deep CounterMeasureList_deep, rule assms), simp)+

text \<open>The value behind a pointer to a countermeasure or a list of them, and the cells it is made of.\<close>

definition CounterMeasure_at :: "('r, 'o, 'l, 's, 'k) cm_views \<Rightarrow> ('o, 'l, 's, 'k) cm_heap \<Rightarrow> nat option \<Rightarrow> 'r meta_and_cm option option" where
  "CounterMeasure_at V = read_ptr as_CounterMeasure (read_CounterMeasure V)"

definition CounterMeasure_cells :: "('r, 'o, 'l, 's, 'k) cm_views \<Rightarrow> ('o, 'l, 's, 'k) cm_heap \<Rightarrow> nat option \<Rightarrow> nat set" where
  "CounterMeasure_cells V = refs_ptr as_CounterMeasure (refs_CounterMeasure V)"

definition CounterMeasureList_at :: "('r, 'o, 'l, 's, 'k) cm_views \<Rightarrow> ('o, 'l, 's, 'k) cm_heap \<Rightarrow> nat option \<Rightarrow>
    (TypeMeta \<times> ListMeta \<times> 'r meta_and_cm list option) option option" where
  "CounterMeasureList_at V = read_ptr as_CounterMeasureList (read_CounterMeasureList V)"

definition CounterMeasureList_cells :: "('r, 'o, 'l, 's, 'k) cm_views \<Rightarrow> ('o, 'l, 's, 'k) cm_heap \<Rightarrow> nat option \<Rightarrow> nat set" where
  "CounterMeasureList_cells V = refs_ptr as_CounterMeasureList (refs_CounterMeasureList V)"

text \<open>C25:
  The deep copy of a countermeasure is faithful and independent, provided that the copy
  functions of \<open>metav1\<close> for object metadata, list metadata and label selectors are: copy and
  original have the value that the original had, all of its metadata included, whatever is
  written later into the cells of the original, those of its label maps and selectors
  included, does not show in the copy, and whatever is written into the cells of the copy
  does not show in the original. The same holds for lists of countermeasures, and what
  \<open>DeepCopyObject\<close> returns is the pointer to the copy, or nil for nil.
\<close>

theorem CounterMeasure_DeepCopy_independent:
  assumes "selector_contract V L" and "wf_heap h"
    and "CounterMeasure_at V h p = Some v" and "CounterMeasureList_at V h l = Some vs"
    and "CounterMeasure_DeepCopy L p h = (q, h1)" and "CounterMeasureList_DeepCopy L l h = (m, h2)"
  shows "independent_copy (CounterMeasure_at V) (CounterMeasure_cells V) p q v h1 \<and>
    independent_copy (CounterMeasureList_at V) (CounterMeasureList_cells V) l m vs h2 \<and>
    CounterMeasure_DeepCopyObject L p h = (map_option CounterMeasureObject q, h1) \<and>
    CounterMeasureList_DeepCopyObject L l h = (map_option CounterMeasureListObject m, h2) \<and>
    (q = None \<longleftrightarrow> p = None) \<and> (m = None \<longleftrightarrow> l = None)"
proof -
  have "independent_copy (CounterMeasure_at V) (CounterMeasure_cells V) p q v h1"
    unfolding CounterMeasure_at_def CounterMeasure_cells_def
    by (rule deep_copy.copy_independent [OF library_DeepCopy_deep(3) [OF assms(1)] assms(2) assms(3) [unfolded CounterMeasure_at_def] assms(5)])
  moreover have "independent_copy (CounterMeasureList_at V) (CounterMeasureList_cells V) l m vs h2"
    unfolding CounterMeasureList_at_def CounterMeasureList_cells_def
    by (rule deep_copy.copy_independent [OF library_DeepCopy_deep(4) [OF assms(1)] assms(2) assms(4) [unfolded CounterMeasureList_at_def] assms(6)])
  moreover have "q = None \<longleftrightarrow> p = None" and "m = None \<longleftrightarrow> l = None"
    using calculation unfolding CounterMeasure_at_def CounterMeasureList_at_def by (blast dest: independent_copy_nil)+
  ultimately show ?thesis
    using assms(5,6)
    by (simp add: CounterMeasure_DeepCopyObject_def CounterMeasureList_DeepCopyObject_def split: option.split)
qed

text \<open>
  A library whose object metadata and selectors have a map of labels in a cell of its own,
  and a heap with a labelled countermeasure that selects by a label and runs a debug
  container with a command; the countermeasure is an item of a list and also behind a
  pointer of its own.
\<close>

type_synonym labels = "(string, string) gomap"
type_synonym demo_cm_library = "(nat option ObjectMeta_scheme, ListMeta, nat option, labels) cm_library"
type_synonym demo_heap = "(nat option ObjectMeta_scheme, ListMeta, nat option, labels) cm_heap"

fun as_Library :: "('o, 'l, 's, 'k) cm_cell \<Rightarrow> 'k option" where
  "as_Library (LibraryCell x) = Some x"
| "as_Library _ = None"

definition demo_library :: demo_cm_library where
  "demo_library =
     \<lparr>v1_ObjectMeta = (\<lambda>x h. (let (labels, h') = copy_ptr as_Library LibraryCell copy_plain (ObjectMeta.more x) h
        in (ObjectMeta.more_update (\<lambda>_. labels) x, h'))),
      v1_ListMeta = copy_plain,
      v1_zero_ObjectMeta = \<lparr>om_Namespace = [], om_Name = [], om_Generation = 0, \<dots> = None\<rparr>,
      v1_LabelSelector = copy_ptr as_Library LibraryCell copy_plain\<rparr>"

definition demo_views :: "(labels option, nat option ObjectMeta_scheme, ListMeta, nat option, labels) cm_views" where
  "demo_views =
     \<lparr>mv_ObjectMeta =
        \<lparr>vw_value = (\<lambda>h x. map_option (ObjectMeta.extend (ObjectMeta.truncate x)) (read_ptr as_Library read_plain h (ObjectMeta.more x))),
         vw_cells = (\<lambda>h x. refs_ptr as_Library refs_plain h (ObjectMeta.more x))\<rparr>,
      mv_ListMeta = \<lparr>vw_value = read_plain, vw_cells = refs_plain\<rparr>,
      mv_LabelSelector =
        \<lparr>vw_value = (\<lambda>h x. map_option (\<lambda>m. \<lparr>ls_MatchLabels = case m of None \<Rightarrow> [] | Some ls \<Rightarrow> ls, ls_MatchExpressions = []\<rparr>)
           (read_ptr as_Library read_plain h x)),
         vw_cells = refs_ptr as_Library refs_plain\<rparr>\<rparr>"

lemma labels_deep:
  "deep_copy (read_ptr as_Library read_plain) (refs_ptr as_Library refs_plain) (copy_ptr as_Library LibraryCell copy_plain)"
  by (rule deep_copy_ptr [OF copy_plain_deep]) simp

lemma demo_library_contract: "selector_contract demo_views demo_library"
proof -
  have "deep_copy (vw_value (mv_ObjectMeta demo_views)) (vw_cells (mv_ObjectMeta demo_views)) (v1_ObjectMeta demo_library)"
    unfolding demo_views_def metav1_views.select_convs view.select_convs
    by (rule deep_copy_struct [where with_parts = "\<lambda>m x. ObjectMeta.more_update (\<lambda>_. m) x", OF labels_deep])
      (auto simp: demo_library_def ObjectMeta.defs Let_def split: prod.splits)
  moreover have "deep_copy (vw_value (mv_LabelSelector demo_views)) (vw_cells (mv_LabelSelector demo_views)) (v1_LabelSelector demo_library)"
    unfolding demo_views_def metav1_selector_views.select_convs view.select_convs
    by (rule deep_copy_struct [where with_parts = "\<lambda>m x. m" and parts = "\<lambda>x. x", OF labels_deep])
      (auto simp: demo_library_def Let_def split: prod.splits)
  moreover have "deep_copy (vw_value (mv_ListMeta demo_views)) (vw_cells (mv_ListMeta demo_views)) (v1_ListMeta demo_library)"
    by (simp add: demo_views_def demo_library_def copy_plain_deep)
  ultimately show ?thesis
    by (simp add: selector_contract_def metav1_contract_def copies_def)
qed

definition demo_memory :: demo_heap where
  "demo_memory =
     (let zero = zero_CounterMeasure (v1_zero_ObjectMeta demo_library);
          x = zero\<lparr>mm_ObjectMeta := ObjectMeta.more_update (\<lambda>_. Some 6) (mm_ObjectMeta zero),
            mm_Spec := \<lparr>mc_OnEvent = \<lparr>mo_EventName = ''high'', mo_SourceSelector = Some 7, mo_SuppressionPolicy = None\<rparr>,
              mc_Actions = Some 2, mc_DryRun = False\<rparr>\<rparr>
      in fold (\<lambda>c h. snd (alloc c h))
        [StringsCell [''sh''],
         DebugCell \<lparr>md_Name = ''dbg'', md_Command = Some 0, md_Args = None, md_Image = ''busybox'',
           md_PodRef = \<lparr>pr_Namespace = ''ns'', pr_Name = ''pod-0'', pr_Container = []\<rparr>, md_StdIn = False, md_TTY = False\<rparr>,
         ActionsCell [zero_Action\<lparr>ma_Debug := Some 1\<rparr>],
         CounterMeasureCell x,
         ItemsCell [x],
         CounterMeasureListCell \<lparr>ml_TypeMeta = mm_TypeMeta x,
           ml_ListMeta = \<lparr>lm_ResourceVersion = ''7'', lm_Continue = [], lm_RemainingItemCount = None\<rparr>, ml_Items = Some 4\<rparr>,
         LibraryCell [(''app'', ''web'')],
         SelectorCell (Some 8),
         LibraryCell [(''source'', ''prom'')]]
        empty_heap)"

definition demo_command :: "'r meta_and_cm option option \<Rightarrow> string list" where
  "demo_command v = concat (map (\<lambda>a. (case ac_Debug a of None \<Rightarrow> [] | Some d \<Rightarrow> db_Command d))
     (case v of Some (Some (_, _, cm)) \<Rightarrow> cs_Actions (cm_Spec cm) | _ \<Rightarrow> []))"

definition demo_labels :: "labels option meta_and_cm option option \<Rightarrow> labels option" where
  "demo_labels v = (case v of Some (Some (_, meta, _)) \<Rightarrow> ObjectMeta.more meta | _ \<Rightarrow> None)"

definition demo_copied :: demo_heap where
  "demo_copied = snd (CounterMeasure_DeepCopy demo_library (Some 3) demo_memory)"

text \<open>The command and the labels of the original are written after the copy was made.\<close>

definition demo_written :: demo_heap where
  "demo_written = set_cell 6 (LibraryCell [(''app'', ''db'')]) (set_cell 0 (StringsCell [''rm'']) demo_copied)"

theorem CounterMeasure_DeepCopy_independent_witness:
  "(let copy = fst (CounterMeasure_DeepCopy demo_library (Some 3) demo_memory) in
      CounterMeasure_at demo_views demo_copied copy = CounterMeasure_at demo_views demo_memory (Some 3) \<and>
      CounterMeasure_at demo_views demo_written copy = CounterMeasure_at demo_views demo_memory (Some 3)) \<and>
   demo_command (CounterMeasure_at demo_views demo_memory (Some 3)) = [''sh''] \<and>
   demo_labels (CounterMeasure_at demo_views demo_memory (Some 3)) = Some [(''app'', ''web'')] \<and>
   demo_command (CounterMeasure_at demo_views demo_written (Some 3)) = [''rm''] \<and>
   demo_labels (CounterMeasure_at demo_views demo_written (Some 3)) = Some [(''app'', ''db'')]"
proof -
  have wf: "wf_heap demo_memory"
    by (auto simp: demo_memory_def Let_def wf_heap_def alloc_def empty_heap_def)
  have "CounterMeasure_at demo_views demo_memory (Some 3) \<noteq> None" and "CounterMeasureList_at demo_views demo_memory (Some 5) \<noteq> None"
    by code_simp+
  then obtain v vs where v: "CounterMeasure_at demo_views demo_memory (Some 3) = Some v"
    and vs: "CounterMeasureList_at demo_views demo_memory (Some 5) = Some vs"
    by blast
  obtain m h2 where m: "CounterMeasureList_DeepCopy demo_library (Some 5) demo_memory = (m, h2)"
    by fastforce
  have q: "CounterMeasure_DeepCopy demo_library (Some 3) demo_memory =
      (fst (CounterMeasure_DeepCopy demo_library (Some 3) demo_memory), demo_copied)"
    by (simp add: demo_copied_def)
  have "0 \<in> CounterMeasure_cells demo_views demo_copied (Some 3)" and "6 \<in> CounterMeasure_cells demo_views demo_copied (Some 3)"
    by code_simp+
  then have "agree (- CounterMeasure_cells demo_views demo_copied (Some 3)) demo_copied demo_written"
    by (auto simp: agree_def demo_written_def set_cell_def)
  moreover have "demo_command (CounterMeasure_at demo_views demo_memory (Some 3)) = [''sh'']"
    and "demo_labels (CounterMeasure_at demo_views demo_memory (Some 3)) = Some [(''app'', ''web'')]"
    and "demo_command (CounterMeasure_at demo_views demo_written (Some 3)) = [''rm'']"
    and "demo_labels (CounterMeasure_at demo_views demo_written (Some 3)) = Some [(''app'', ''db'')]"
    by code_simp+
  ultimately show ?thesis
    using CounterMeasure_DeepCopy_independent [OF demo_library_contract wf v vs q m] v by (simp add: independent_copy_def Let_def)
qed

end
