(* ===== verification/Deep_Copy_Prom.thy ===== *)
theory Deep_Copy_Prom
  imports Deep_Copy_CM Api_EventSource
begin

text \<open>
  \<open>apis/eventsource/v1alpha1/zz_generated.deepcopy.go\<close>, in the same way as Deep_Copy_CM: structs
  in memory with addresses, their values in Api_EventSource, and the copy functions of
  \<open>metav1\<close> as parameters.
\<close>

section \<open>Structs in memory\<close>

record mem_ServiceReference =
  mr_Namespace :: string
  mr_Name :: string
  mr_Path :: "nat option"
  mr_Port :: "32 word"
  mr_TargetPort :: string
  mr_UseTls :: bool

record mem_PrometheusSpec =
  mq_Service :: mem_ServiceReference
  mq_Auth :: "nat option"
  mq_PollingInterval :: int
  mq_IncludePending :: bool

record mem_PrometheusStatus =
  mt_State :: string
  mt_Conditions :: "nat option"

record 'o mem_Prometheus =
  mg_TypeMeta :: TypeMeta
  mg_ObjectMeta :: 'o
  mg_Spec :: mem_PrometheusSpec
  mg_Status :: mem_PrometheusStatus

record 'l mem_PrometheusList =
  mh_TypeMeta :: TypeMeta
  mh_ListMeta :: 'l
  mh_Items :: "nat option"

datatype ('o, 'l, 'k) prom_cell =
    AuthCell AuthSpec
  | PathCell string
  | ServiceReferenceCell mem_ServiceReference
  | PrometheusSpecCell mem_PrometheusSpec
  | PrometheusStatusCell mem_PrometheusStatus
  | PrometheusCell "'o mem_Prometheus"
  | PrometheusListCell "'l mem_PrometheusList"
  | PrometheusConditionsCell "Condition list"
  | PrometheusItemsCell "'o mem_Prometheus list"
  | PrometheusLibraryCell 'k

type_synonym ('o, 'l, 'k) prom_heap = "('o, 'l, 'k) prom_cell heap"

type_synonym ('o, 'l, 'k) prom_library = "('o, 'l, ('o, 'l, 'k) prom_cell) metav1"

type_synonym ('r, 'o, 'l, 'k) prom_views = "('r, 'o, 'l, ('o, 'l, 'k) prom_cell) metav1_views"

fun as_Auth :: "('o, 'l, 'k) prom_cell \<Rightarrow> AuthSpec option" where
  "as_Auth (AuthCell x) = Some x"
| "as_Auth _ = None"

fun as_Path :: "('o, 'l, 'k) prom_cell \<Rightarrow> string option" where
  "as_Path (PathCell x) = Some x"
| "as_Path _ = None"

fun as_ServiceReference :: "('o, 'l, 'k) prom_cell \<Rightarrow> mem_ServiceReference option" where
  "as_ServiceReference (ServiceReferenceCell x) = Some x"
| "as_ServiceReference _ = None"

fun as_PrometheusSpec :: "('o, 'l, 'k) prom_cell \<Rightarrow> mem_PrometheusSpec option" where
  "as_PrometheusSpec (PrometheusSpecCell x) = Some x"
| "as_PrometheusSpec _ = None"

fun as_PrometheusStatus :: "('o, 'l, 'k) prom_cell \<Rightarrow> mem_PrometheusStatus option" where
  "as_PrometheusStatus (PrometheusStatusCell x) = Some x"
| "as_PrometheusStatus _ = None"

fun as_Prometheus :: "('o, 'l, 'k) prom_cell \<Rightarrow> 'o mem_Prometheus option" where
  "as_Prometheus (PrometheusCell x) = Some x"
| "as_Prometheus _ = None"

fun as_PrometheusList :: "('o, 'l, 'k) prom_cell \<Rightarrow> 'l mem_PrometheusList option" where
  "as_PrometheusList (PrometheusListCell x) = Some x"
| "as_PrometheusList _ = None"

fun as_PrometheusConditions :: "('o, 'l, 'k) prom_cell \<Rightarrow> (Condition list) option" where
  "as_PrometheusConditions (PrometheusConditionsCell x) = Some x"
| "as_PrometheusConditions _ = None"

fun as_PrometheusItems :: "('o, 'l, 'k) prom_cell \<Rightarrow> ('o mem_Prometheus list) option" where
  "as_PrometheusItems (PrometheusItemsCell x) = Some x"
| "as_PrometheusItems _ = None"

section \<open>\<open>DeepCopyInto\<close>\<close>

definition AuthSpec_DeepCopyInto :: "AuthSpec \<Rightarrow> ('o, 'l, 'k) prom_heap \<Rightarrow> AuthSpec \<times> ('o, 'l, 'k) prom_heap" where
  "AuthSpec_DeepCopyInto x h = (let out = x in (out\<lparr>au_SecretReference := au_SecretReference x\<rparr>, h))"

definition ServiceReference_DeepCopyInto :: "mem_ServiceReference \<Rightarrow> ('o, 'l, 'k) prom_heap \<Rightarrow> mem_ServiceReference \<times> ('o, 'l, 'k) prom_heap" where
  "ServiceReference_DeepCopyInto x h =
     (let out = x; (path, h1) = copy_ptr as_Path PathCell copy_plain (mr_Path x) h in (out\<lparr>mr_Path := path\<rparr>, h1))"

definition PrometheusSpec_DeepCopyInto :: "mem_PrometheusSpec \<Rightarrow> ('o, 'l, 'k) prom_heap \<Rightarrow> mem_PrometheusSpec \<times> ('o, 'l, 'k) prom_heap" where
  "PrometheusSpec_DeepCopyInto x h =
     (let out = x;
          (service, h1) = ServiceReference_DeepCopyInto (mq_Service x) h;
          (auth, h2) = copy_ptr as_Auth AuthCell copy_plain (mq_Auth x) h1
      in (out\<lparr>mq_Service := service, mq_Auth := auth, mq_PollingInterval := mq_PollingInterval x\<rparr>, h2))"

definition PrometheusStatus_DeepCopyInto :: "mem_PrometheusStatus \<Rightarrow> ('o, 'l, 'k) prom_heap \<Rightarrow> mem_PrometheusStatus \<times> ('o, 'l, 'k) prom_heap" where
  "PrometheusStatus_DeepCopyInto x h =
     (let out = x;
          (conditions, h1) = copy_slice as_PrometheusConditions PrometheusConditionsCell zero_Condition copy_plain (mt_Conditions x) h
      in (out\<lparr>mt_Conditions := conditions\<rparr>, h1))"

definition Prometheus_DeepCopyInto :: "('o, 'l, 'k) prom_library \<Rightarrow> 'o mem_Prometheus \<Rightarrow> ('o, 'l, 'k) prom_heap \<Rightarrow>
    'o mem_Prometheus \<times> ('o, 'l, 'k) prom_heap" where
  "Prometheus_DeepCopyInto L x h =
     (let out = x;
          (meta, h1) = v1_ObjectMeta L (mg_ObjectMeta x) h;
          (spec, h2) = PrometheusSpec_DeepCopyInto (mg_Spec x) h1;
          (status, h3) = PrometheusStatus_DeepCopyInto (mg_Status x) h2
      in (out\<lparr>mg_TypeMeta := mg_TypeMeta x, mg_ObjectMeta := meta, mg_Spec := spec, mg_Status := status\<rparr>, h3))"

definition zero_Prometheus :: "'o \<Rightarrow> 'o mem_Prometheus" where
  "zero_Prometheus meta = \<lparr>mg_TypeMeta = \<lparr>tm_Kind = [], tm_APIVersion = []\<rparr>,
     mg_ObjectMeta = meta,
     mg_Spec = \<lparr>mq_Service = \<lparr>mr_Namespace = [], mr_Name = [], mr_Path = None, mr_Port = 0, mr_TargetPort = [], mr_UseTls = False\<rparr>,
       mq_Auth = None, mq_PollingInterval = 0, mq_IncludePending = False\<rparr>,
     mg_Status = \<lparr>mt_State = [], mt_Conditions = None\<rparr>\<rparr>"

definition PrometheusList_DeepCopyInto :: "('o, 'l, 'k) prom_library \<Rightarrow> 'l mem_PrometheusList \<Rightarrow> ('o, 'l, 'k) prom_heap \<Rightarrow>
    'l mem_PrometheusList \<times> ('o, 'l, 'k) prom_heap" where
  "PrometheusList_DeepCopyInto L x h =
     (let out = x;
          (meta, h1) = v1_ListMeta L (mh_ListMeta x) h;
          (items, h2) = copy_slice as_PrometheusItems PrometheusItemsCell (zero_Prometheus (v1_zero_ObjectMeta L))
            (Prometheus_DeepCopyInto L) (mh_Items x) h1
      in (out\<lparr>mh_TypeMeta := mh_TypeMeta x, mh_ListMeta := meta, mh_Items := items\<rparr>, h2))"

section \<open>\<open>DeepCopy\<close> and \<open>DeepCopyObject\<close>\<close>

definition AuthSpec_DeepCopy :: "nat option \<Rightarrow> ('o, 'l, 'k) prom_heap \<Rightarrow> nat option \<times> ('o, 'l, 'k) prom_heap" where
  "AuthSpec_DeepCopy = copy_ptr as_Auth AuthCell AuthSpec_DeepCopyInto"

definition ServiceReference_DeepCopy :: "nat option \<Rightarrow> ('o, 'l, 'k) prom_heap \<Rightarrow> nat option \<times> ('o, 'l, 'k) prom_heap" where
  "ServiceReference_DeepCopy = copy_ptr as_ServiceReference ServiceReferenceCell ServiceReference_DeepCopyInto"

definition PrometheusSpec_DeepCopy :: "nat option \<Rightarrow> ('o, 'l, 'k) prom_heap \<Rightarrow> nat option \<times> ('o, 'l, 'k) prom_heap" where
  "PrometheusSpec_DeepCopy = copy_ptr as_PrometheusSpec PrometheusSpecCell PrometheusSpec_DeepCopyInto"

definition PrometheusStatus_DeepCopy :: "nat option \<Rightarrow> ('o, 'l, 'k) prom_heap \<Rightarrow> nat option \<times> ('o, 'l, 'k) prom_heap" where
  "PrometheusStatus_DeepCopy = copy_ptr as_PrometheusStatus PrometheusStatusCell PrometheusStatus_DeepCopyInto"

definition Prometheus_DeepCopy :: "('o, 'l, 'k) prom_library \<Rightarrow> nat option \<Rightarrow> ('o, 'l, 'k) prom_heap \<Rightarrow> nat option \<times> ('o, 'l, 'k) prom_heap" where
  "Prometheus_DeepCopy L = copy_ptr as_Prometheus PrometheusCell (Prometheus_DeepCopyInto L)"

definition PrometheusList_DeepCopy :: "('o, 'l, 'k) prom_library \<Rightarrow> nat option \<Rightarrow> ('o, 'l, 'k) prom_heap \<Rightarrow> nat option \<times> ('o, 'l, 'k) prom_heap" where
  "PrometheusList_DeepCopy L = copy_ptr as_PrometheusList PrometheusListCell (PrometheusList_DeepCopyInto L)"

datatype prom_object = PrometheusObject nat | PrometheusListObject nat

definition Prometheus_DeepCopyObject :: "('o, 'l, 'k) prom_library \<Rightarrow> nat option \<Rightarrow> ('o, 'l, 'k) prom_heap \<Rightarrow> prom_object option \<times> ('o, 'l, 'k) prom_heap" where
  "Prometheus_DeepCopyObject L p h =
     (case Prometheus_DeepCopy L p h of (Some c, h') \<Rightarrow> (Some (PrometheusObject c), h') | (None, h') \<Rightarrow> (None, h'))"

definition PrometheusList_DeepCopyObject :: "('o, 'l, 'k) prom_library \<Rightarrow> nat option \<Rightarrow> ('o, 'l, 'k) prom_heap \<Rightarrow> prom_object option \<times> ('o, 'l, 'k) prom_heap" where
  "PrometheusList_DeepCopyObject L p h =
     (case PrometheusList_DeepCopy L p h of (Some c, h') \<Rightarrow> (Some (PrometheusListObject c), h') | (None, h') \<Rightarrow> (None, h'))"

section \<open>The values and the cells of the structs\<close>

lemma prom_ptr_deep:
  "deep_copy (read_ptr as_Path read_plain) (refs_ptr as_Path refs_plain) (copy_ptr as_Path PathCell copy_plain)"
  "deep_copy (read_ptr as_Auth read_plain) (refs_ptr as_Auth refs_plain) (copy_ptr as_Auth AuthCell copy_plain)"
  by (rule deep_copy_ptr [OF copy_plain_deep], simp)+

lemma prom_conditions_deep:
  "deep_copy (read_ptr as_PrometheusConditions (read_list read_plain)) (refs_ptr as_PrometheusConditions (refs_list refs_plain))
     (copy_slice as_PrometheusConditions PrometheusConditionsCell zero_Condition copy_plain)"
  by (rule deep_copy_slice [OF copy_plain_deep]) simp

definition build_ServiceReference :: "mem_ServiceReference \<Rightarrow> string option \<Rightarrow> ServiceReference" where
  "build_ServiceReference x p = \<lparr>sr_Namespace = mr_Namespace x, sr_Name = mr_Name x, sr_Path = p, sr_Port = mr_Port x,
     sr_TargetPort = mr_TargetPort x, sr_UseTls = mr_UseTls x\<rparr>"

definition read_ServiceReference :: "('o, 'l, 'k) prom_heap \<Rightarrow> mem_ServiceReference \<Rightarrow> ServiceReference option" where
  "read_ServiceReference = (\<lambda>h x. map_option (build_ServiceReference x) (read_ptr as_Path read_plain h (mr_Path x)))"

definition refs_ServiceReference :: "('o, 'l, 'k) prom_heap \<Rightarrow> mem_ServiceReference \<Rightarrow> nat set" where
  "refs_ServiceReference = (\<lambda>h x. refs_ptr as_Path refs_plain h (mr_Path x))"

interpretation ServiceReference: deep_copy read_ServiceReference refs_ServiceReference ServiceReference_DeepCopyInto
  unfolding read_ServiceReference_def refs_ServiceReference_def
  by (rule deep_copy_struct [where with_parts = "\<lambda>p x. x\<lparr>mr_Path := p\<rparr>", OF prom_ptr_deep(1)])
    (auto simp: ServiceReference_DeepCopyInto_def build_ServiceReference_def copy_into_simps split: prod.splits)

definition build_PrometheusSpec :: "mem_PrometheusSpec \<Rightarrow> ServiceReference \<times> AuthSpec option \<Rightarrow> PrometheusSpec" where
  "build_PrometheusSpec x v = \<lparr>ps_Service = fst v, ps_Auth = snd v, ps_PollingInterval = mq_PollingInterval x,
     ps_IncludePending = mq_IncludePending x\<rparr>"

definition read_PrometheusSpec :: "('o, 'l, 'k) prom_heap \<Rightarrow> mem_PrometheusSpec \<Rightarrow> PrometheusSpec option" where
  "read_PrometheusSpec = (\<lambda>h x. map_option (build_PrometheusSpec x)
     (read_pair read_ServiceReference (read_ptr as_Auth read_plain) h (mq_Service x, mq_Auth x)))"

definition refs_PrometheusSpec :: "('o, 'l, 'k) prom_heap \<Rightarrow> mem_PrometheusSpec \<Rightarrow> nat set" where
  "refs_PrometheusSpec = (\<lambda>h x. refs_pair refs_ServiceReference (refs_ptr as_Auth refs_plain) h (mq_Service x, mq_Auth x))"

interpretation PrometheusSpec: deep_copy read_PrometheusSpec refs_PrometheusSpec PrometheusSpec_DeepCopyInto
  unfolding read_PrometheusSpec_def refs_PrometheusSpec_def
  by (rule deep_copy_struct [where with_parts = "\<lambda>(s, a) x. x\<lparr>mq_Service := s, mq_Auth := a\<rparr>",
        OF deep_copy_pair [OF ServiceReference.deep_copy_axioms prom_ptr_deep(2)]])
    (auto simp: PrometheusSpec_DeepCopyInto_def build_PrometheusSpec_def copy_into_simps split: prod.splits)

definition build_PrometheusStatus :: "mem_PrometheusStatus \<Rightarrow> Condition list option \<Rightarrow> PrometheusStatus" where
  "build_PrometheusStatus x v = \<lparr>px_State = mt_State x, px_Conditions = slice_value v\<rparr>"

definition read_PrometheusStatus :: "('o, 'l, 'k) prom_heap \<Rightarrow> mem_PrometheusStatus \<Rightarrow> PrometheusStatus option" where
  "read_PrometheusStatus = (\<lambda>h x. map_option (build_PrometheusStatus x)
     (read_ptr as_PrometheusConditions (read_list read_plain) h (mt_Conditions x)))"

definition refs_PrometheusStatus :: "('o, 'l, 'k) prom_heap \<Rightarrow> mem_PrometheusStatus \<Rightarrow> nat set" where
  "refs_PrometheusStatus = (\<lambda>h x. refs_ptr as_PrometheusConditions (refs_list refs_plain) h (mt_Conditions x))"

interpretation PrometheusStatus: deep_copy read_PrometheusStatus refs_PrometheusStatus PrometheusStatus_DeepCopyInto
  unfolding read_PrometheusStatus_def refs_PrometheusStatus_def
  by (rule deep_copy_struct [where with_parts = "\<lambda>c x. x\<lparr>mt_Conditions := c\<rparr>", OF prom_conditions_deep])
    (auto simp: PrometheusStatus_DeepCopyInto_def build_PrometheusStatus_def copy_into_simps split: prod.splits)

type_synonym 'r meta_and_prom = "TypeMeta \<times> 'r ObjectMeta_scheme \<times> Prometheus"

definition build_Prometheus :: "'o mem_Prometheus \<Rightarrow> 'r ObjectMeta_scheme \<times> PrometheusSpec \<times> PrometheusStatus \<Rightarrow> 'r meta_and_prom" where
  "build_Prometheus x = (\<lambda>(meta, spec, status).
     (mg_TypeMeta x, meta, \<lparr>pr_ObjectMeta = ObjectMeta.truncate meta, pr_Spec = spec, pr_Status = status\<rparr>))"

definition read_Prometheus :: "('r, 'o, 'l, 'k) prom_views \<Rightarrow> ('o, 'l, 'k) prom_heap \<Rightarrow> 'o mem_Prometheus \<Rightarrow> 'r meta_and_prom option" where
  "read_Prometheus V = (\<lambda>h x. map_option (build_Prometheus x)
     (read_pair (vw_value (mv_ObjectMeta V)) (read_pair read_PrometheusSpec read_PrometheusStatus) h
       (mg_ObjectMeta x, mg_Spec x, mg_Status x)))"

definition refs_Prometheus :: "('r, 'o, 'l, 'k) prom_views \<Rightarrow> ('o, 'l, 'k) prom_heap \<Rightarrow> 'o mem_Prometheus \<Rightarrow> nat set" where
  "refs_Prometheus V = (\<lambda>h x.
     refs_pair (vw_cells (mv_ObjectMeta V)) (refs_pair refs_PrometheusSpec refs_PrometheusStatus) h
       (mg_ObjectMeta x, mg_Spec x, mg_Status x))"

lemma Prometheus_deep:
  assumes "metav1_contract V L"
  shows "deep_copy (read_Prometheus V) (refs_Prometheus V) (Prometheus_DeepCopyInto L)"
  unfolding read_Prometheus_def refs_Prometheus_def
  by (rule deep_copy_struct [where with_parts = "\<lambda>(m, s, t) x. x\<lparr>mg_ObjectMeta := m, mg_Spec := s, mg_Status := t\<rparr>",
        OF deep_copy_pair [OF metav1_deep(1) [OF assms] deep_copy_pair [OF PrometheusSpec.deep_copy_axioms PrometheusStatus.deep_copy_axioms]]])
    (auto simp: Prometheus_DeepCopyInto_def build_Prometheus_def copy_into_simps split: prod.splits)

definition build_PrometheusList :: "'l mem_PrometheusList \<Rightarrow> ListMeta \<times> 'r meta_and_prom list option \<Rightarrow>
    TypeMeta \<times> ListMeta \<times> 'r meta_and_prom list option" where
  "build_PrometheusList x v = (mh_TypeMeta x, v)"

definition read_PrometheusList :: "('r, 'o, 'l, 'k) prom_views \<Rightarrow> ('o, 'l, 'k) prom_heap \<Rightarrow> 'l mem_PrometheusList \<Rightarrow>
    (TypeMeta \<times> ListMeta \<times> 'r meta_and_prom list option) option" where
  "read_PrometheusList V = (\<lambda>h x. map_option (build_PrometheusList x)
     (read_pair (vw_value (mv_ListMeta V)) (read_ptr as_PrometheusItems (read_list (read_Prometheus V))) h (mh_ListMeta x, mh_Items x)))"

definition refs_PrometheusList :: "('r, 'o, 'l, 'k) prom_views \<Rightarrow> ('o, 'l, 'k) prom_heap \<Rightarrow> 'l mem_PrometheusList \<Rightarrow> nat set" where
  "refs_PrometheusList V = (\<lambda>h x.
     refs_pair (vw_cells (mv_ListMeta V)) (refs_ptr as_PrometheusItems (refs_list (refs_Prometheus V))) h (mh_ListMeta x, mh_Items x))"

lemma prom_items_deep:
  assumes "metav1_contract V L"
  shows "deep_copy (read_ptr as_PrometheusItems (read_list (read_Prometheus V))) (refs_ptr as_PrometheusItems (refs_list (refs_Prometheus V)))
     (copy_slice as_PrometheusItems PrometheusItemsCell (zero_Prometheus (v1_zero_ObjectMeta L)) (Prometheus_DeepCopyInto L))"
  by (rule deep_copy_slice [OF Prometheus_deep [OF assms]]) simp

lemma PrometheusList_deep:
  assumes "metav1_contract V L"
  shows "deep_copy (read_PrometheusList V) (refs_PrometheusList V) (PrometheusList_DeepCopyInto L)"
  unfolding read_PrometheusList_def refs_PrometheusList_def
  by (rule deep_copy_struct [where with_parts = "\<lambda>(m, i) x. x\<lparr>mh_ListMeta := m, mh_Items := i\<rparr>",
        OF deep_copy_pair [OF metav1_deep(2) [OF assms] prom_items_deep [OF assms]]])
    (auto simp: PrometheusList_DeepCopyInto_def build_PrometheusList_def copy_into_simps split: prod.splits)

text \<open>The copies of the parts are deep copies in the same sense, each on its own.\<close>

lemma AuthSpec_DeepCopy_deep: "deep_copy (read_ptr as_Auth read_plain) (refs_ptr as_Auth refs_plain) AuthSpec_DeepCopy"
  unfolding AuthSpec_DeepCopy_def by (rule deep_copy_ptr [OF deep_copy_plain_into]) (simp_all add: AuthSpec_DeepCopyInto_def)

lemma prom_part_DeepCopy_deep:
  "deep_copy (read_ptr as_ServiceReference read_ServiceReference) (refs_ptr as_ServiceReference refs_ServiceReference) ServiceReference_DeepCopy"
  "deep_copy (read_ptr as_PrometheusSpec read_PrometheusSpec) (refs_ptr as_PrometheusSpec refs_PrometheusSpec) PrometheusSpec_DeepCopy"
  "deep_copy (read_ptr as_PrometheusStatus read_PrometheusStatus) (refs_ptr as_PrometheusStatus refs_PrometheusStatus) PrometheusStatus_DeepCopy"
  unfolding ServiceReference_DeepCopy_def PrometheusSpec_DeepCopy_def PrometheusStatus_DeepCopy_def
  by (rule deep_copy_ptr, (rule ServiceReference.deep_copy_axioms PrometheusSpec.deep_copy_axioms PrometheusStatus.deep_copy_axioms), simp)+

lemma prom_library_DeepCopy_deep:
  assumes "metav1_contract V L"
  shows "deep_copy (read_ptr as_Prometheus (read_Prometheus V)) (refs_ptr as_Prometheus (refs_Prometheus V)) (Prometheus_DeepCopy L)"
    and "deep_copy (read_ptr as_PrometheusList (read_PrometheusList V)) (refs_ptr as_PrometheusList (refs_PrometheusList V))
      (PrometheusList_DeepCopy L)"
  unfolding Prometheus_DeepCopy_def PrometheusList_DeepCopy_def
  by (rule deep_copy_ptr, (rule Prometheus_deep PrometheusList_deep, rule assms), simp)+

section \<open>Copies are equal and independent\<close>

definition Prometheus_at :: "('r, 'o, 'l, 'k) prom_views \<Rightarrow> ('o, 'l, 'k) prom_heap \<Rightarrow> nat option \<Rightarrow> 'r meta_and_prom option option" where
  "Prometheus_at V = read_ptr as_Prometheus (read_Prometheus V)"

definition Prometheus_cells :: "('r, 'o, 'l, 'k) prom_views \<Rightarrow> ('o, 'l, 'k) prom_heap \<Rightarrow> nat option \<Rightarrow> nat set" where
  "Prometheus_cells V = refs_ptr as_Prometheus (refs_Prometheus V)"

definition PrometheusList_at :: "('r, 'o, 'l, 'k) prom_views \<Rightarrow> ('o, 'l, 'k) prom_heap \<Rightarrow> nat option \<Rightarrow>
    (TypeMeta \<times> ListMeta \<times> 'r meta_and_prom list option) option option" where
  "PrometheusList_at V = read_ptr as_PrometheusList (read_PrometheusList V)"

definition PrometheusList_cells :: "('r, 'o, 'l, 'k) prom_views \<Rightarrow> ('o, 'l, 'k) prom_heap \<Rightarrow> nat option \<Rightarrow> nat set" where
  "PrometheusList_cells V = refs_ptr as_PrometheusList (refs_PrometheusList V)"

text \<open>
  The deep copies of an event source and of a list of event sources are faithful and
  independent of the original, in both directions, and nil exactly for nil, as long as the
  copies that \<open>metav1\<close> makes of their metadata are.
\<close>

lemma Prometheus_DeepCopy_independent:
  assumes "metav1_contract V L" and "wf_heap h"
    and "Prometheus_at V h p = Some v" and "PrometheusList_at V h l = Some vs"
    and "Prometheus_DeepCopy L p h = (q, h1)" and "PrometheusList_DeepCopy L l h = (m, h2)"
  shows "independent_copy (Prometheus_at V) (Prometheus_cells V) p q v h1 \<and>
    independent_copy (PrometheusList_at V) (PrometheusList_cells V) l m vs h2 \<and>
    Prometheus_DeepCopyObject L p h = (map_option PrometheusObject q, h1) \<and>
    PrometheusList_DeepCopyObject L l h = (map_option PrometheusListObject m, h2) \<and>
    (q = None \<longleftrightarrow> p = None) \<and> (m = None \<longleftrightarrow> l = None)"
proof -
  have "independent_copy (Prometheus_at V) (Prometheus_cells V) p q v h1"
    unfolding Prometheus_at_def Prometheus_cells_def
    by (rule deep_copy.copy_independent [OF prom_library_DeepCopy_deep(1) [OF assms(1)] assms(2) assms(3) [unfolded Prometheus_at_def] assms(5)])
  moreover have "independent_copy (PrometheusList_at V) (PrometheusList_cells V) l m vs h2"
    unfolding PrometheusList_at_def PrometheusList_cells_def
    by (rule deep_copy.copy_independent [OF prom_library_DeepCopy_deep(2) [OF assms(1)] assms(2) assms(4) [unfolded PrometheusList_at_def] assms(6)])
  moreover have "q = None \<longleftrightarrow> p = None" and "m = None \<longleftrightarrow> l = None"
    using calculation unfolding Prometheus_at_def PrometheusList_at_def by (blast dest: independent_copy_nil)+
  ultimately show ?thesis
    using assms(5,6)
    by (simp add: Prometheus_DeepCopyObject_def PrometheusList_DeepCopyObject_def split: option.split)
qed

end
