(* ===== verification/Main_Setup.thy ===== *)
theory Main_Setup
  imports Action_Manager Producer
begin

text \<open>
  \<open>main.go\<close>, the \<open>SetupWithManager\<close> and \<open>SetupWebhookWithManager\<close> functions it calls, and the
  registration of the resource types. First which namespaces the operator watches, then the
  objects that are wired, then \<open>main\<close> itself. Flags, environment variables and the outcome of
  calls into controller-runtime are parameters.
\<close>

section \<open>The watched namespaces\<close>

definition watchNamespaceEnvVar :: string where
  "watchNamespaceEnvVar = ''WATCH_NAMESPACE''"

definition getWatchNamespace :: "(string \<rightharpoonup> string) \<Rightarrow> string \<times> goerror option" where
  "getWatchNamespace LookupEnv =
     (case LookupEnv watchNamespaceEnvVar of
        None \<Rightarrow> ([], Some (Errorf (watchNamespaceEnvVar @ '' must be set'')))
      | Some ns \<Rightarrow> (ns, None))"

text \<open>\<open>strings.TrimSpace\<close> on ASCII.\<close>

definition is_space :: "char \<Rightarrow> bool" where
  "is_space c \<longleftrightarrow> c \<in> {CHR 0x09, CHR 0x0A, CHR 0x0B, CHR 0x0C, CHR 0x0D, CHR '' ''}"

definition TrimSpace :: "string \<Rightarrow> string" where
  "TrimSpace s = rev (dropWhile is_space (rev (dropWhile is_space s)))"

text \<open>The two fields of \<open>ctrl.Options\<close>: the single namespace, and the namespaces of a multi namespace cache.\<close>

record ManagerOptions =
  mg_Namespace :: string
  mg_NewCache :: "string list option"

definition namespace_options :: "string \<Rightarrow> ManagerOptions" where
  "namespace_options watchNamespace =
     (if CHR '','' \<in> set watchNamespace
      then \<lparr>mg_Namespace = [], mg_NewCache = Some (map TrimSpace (split_on CHR '','' watchNamespace))\<rparr>
      else \<lparr>mg_Namespace = watchNamespace, mg_NewCache = None\<rparr>)"

lemma dropWhile_no_head: "(\<And>c. c \<in> set s \<Longrightarrow> \<not> P c) \<Longrightarrow> dropWhile P s = s"
  by (cases s) auto

lemma TrimSpace_padded:
  assumes "set a \<subseteq> Collect is_space" and "set b \<subseteq> Collect is_space" and "\<And>c. c \<in> set s \<Longrightarrow> \<not> is_space c"
  shows "TrimSpace (a @ s @ b) = s"
proof (cases s)
  case Nil
  then show ?thesis
    using assms(1,2) by (auto simp: TrimSpace_def dropWhile_eq_Nil_conv dest!: set_dropWhileD)
next
  case (Cons c cs)
  have "dropWhile is_space (a @ s @ b) = s @ b"
    using assms(1,3) Cons by (subst dropWhile_append2) auto
  moreover have "dropWhile is_space (rev b @ rev s) = rev s"
    using assms(2,3) by (subst dropWhile_append2) (auto intro: dropWhile_no_head)
  ultimately show ?thesis
    by (simp add: TrimSpace_def)
qed

text \<open>
  A comma separated list of two or more names, with any spaces around them, gives exactly
  these names.
\<close>

lemma namespace_options_list:
  assumes "1 < length pieces" and "\<And>a n b. (a, n, b) \<in> set pieces \<Longrightarrow>
      set a \<subseteq> Collect is_space \<and> set b \<subseteq> Collect is_space \<and> (\<forall>c \<in> set n. \<not> is_space c \<and> c \<noteq> CHR '','')"
  shows "namespace_options (join_on CHR '','' (map (\<lambda>(a, n, b). a @ n @ b) pieces)) =
    \<lparr>mg_Namespace = [], mg_NewCache = Some (map (fst \<circ> snd) pieces)\<rparr>"
proof -
  let ?ws = "map (\<lambda>(a, n, b). a @ n @ b) pieces"
  have "\<not> is_space CHR '',''"
    by (simp add: is_space_def)
  then have no_comma: "CHR '','' \<notin> set w" if "w \<in> set ?ws" for w
    using that assms(2) by fastforce
  then have split: "split_on CHR '','' (join_on CHR '','' ?ws) = ?ws"
    using assms(1) by (intro split_join) auto
  then have "CHR '','' \<in> set (join_on CHR '','' ?ws)"
    using assms(1) length_split_gt_1 [of "CHR '',''" "join_on CHR '','' ?ws"] by simp
  moreover have "map TrimSpace ?ws = map (fst \<circ> snd) pieces"
    using assms(2) TrimSpace_padded by (auto simp: comp_def)
  ultimately show ?thesis
    by (simp add: namespace_options_def split)
qed

section \<open>The objects that are wired\<close>

text \<open>
  The scheme: the kinds that are registered with the API machinery. A scheme builder registers
  its types under its group and version; \<open>client_kinds\<close> are those of client-go.
\<close>

definition countermeasure_GroupVersion :: "string \<times> string" where
  "countermeasure_GroupVersion = (''countermeasure.vilaverde.rocks'', ''v1alpha1'')"

definition eventsource_GroupVersion :: "string \<times> string" where
  "eventsource_GroupVersion = (''eventsource.vilaverde.rocks'', ''v1alpha1'')"

definition Register :: "string \<times> string \<Rightarrow> string list \<Rightarrow> GroupVersionKind list" where
  "Register gv kinds = map (\<lambda>k. \<lparr>gvk_Group = fst gv, gvk_Version = snd gv, gvk_Kind = k\<rparr>) kinds"

definition countermeasure_AddToScheme :: "GroupVersionKind list \<Rightarrow> GroupVersionKind list" where
  "countermeasure_AddToScheme scheme = scheme @ Register countermeasure_GroupVersion [''CounterMeasure'', ''CounterMeasureList'']"

definition eventsource_AddToScheme :: "GroupVersionKind list \<Rightarrow> GroupVersionKind list" where
  "eventsource_AddToScheme scheme = scheme @ Register eventsource_GroupVersion [''Prometheus'', ''PrometheusList'']"

definition main_init :: "GroupVersionKind list \<Rightarrow> GroupVersionKind list" where
  "main_init client_kinds = eventsource_AddToScheme (countermeasure_AddToScheme client_kinds)"

text \<open>
  The manager of controller-runtime hands out a client, a configuration and a reader, which are
  known by a number here, and recorders by name.
\<close>

record ctrl_manager =
  mgr_Client :: nat
  mgr_Config :: nat
  mgr_APIReader :: nat
  mgr_Scheme :: "GroupVersionKind list"

datatype callback =
    CM_HandleErrorAndRequeue | CM_HandleSuccess | Prom_HandleErrorAndRequeue | Prom_HandleSuccess

record ReconcilerBase =
  rb_apireader :: nat
  rb_client :: nat
  rb_scheme :: "GroupVersionKind list"
  rb_restConfig :: nat
  rb_recorder :: string
  rb_OnError :: "callback option"
  rb_OnSuccess :: "callback option"

definition NewReconcilerBase :: "nat \<Rightarrow> GroupVersionKind list \<Rightarrow> nat \<Rightarrow> string \<Rightarrow> nat \<Rightarrow> ReconcilerBase" where
  "NewReconcilerBase client scheme restConfig recorder apireader =
     \<lparr>rb_apireader = apireader, rb_client = client, rb_scheme = scheme, rb_restConfig = restConfig,
      rb_recorder = recorder, rb_OnError = None, rb_OnSuccess = None\<rparr>"

definition reconciler_NewFromManager :: "ctrl_manager \<Rightarrow> ReconcilerBase" where
  "reconciler_NewFromManager mgr =
     (let recorder = ''countermeasure_controller''
      in NewReconcilerBase (mgr_Client mgr) (mgr_Scheme mgr) (mgr_Config mgr) recorder (mgr_APIReader mgr))"

definition GetClient :: "ReconcilerBase \<Rightarrow> nat" where "GetClient r = rb_client r"
definition GetRecorder :: "ReconcilerBase \<Rightarrow> string" where "GetRecorder r = rb_recorder r"
definition GetRestConfig :: "ReconcilerBase \<Rightarrow> nat" where "GetRestConfig r = rb_restConfig r"

text \<open>Loggers are as in theory Eventbus.\<close>

record CounterMeasureReconciler =
  cr_Base :: ReconcilerBase
  cr_Log :: "string list option"

record PrometheusReconciler =
  pr_Base :: ReconcilerBase
  pr_eventBus :: bool \<comment> \<open>the bus is set\<close>
  pr_Log :: "string list option"

text \<open>
  \<open>SetupWithManager\<close> sets the callbacks and registers the reconciler for its kind; the outcome of
  the registration is a parameter.
\<close>

definition cm_SetupWithManager :: "(string \<Rightarrow> goerror option) \<Rightarrow> CounterMeasureReconciler \<Rightarrow> goerror option \<times> CounterMeasureReconciler" where
  "cm_SetupWithManager Complete r =
     (let r1 = r\<lparr>cr_Base := (cr_Base r)\<lparr>rb_OnError := Some CM_HandleErrorAndRequeue\<rparr>\<rparr>;
          r2 = r1\<lparr>cr_Base := (cr_Base r1)\<lparr>rb_OnSuccess := Some CM_HandleSuccess\<rparr>\<rparr>
      in (Complete ''CounterMeasure'', r2))"

definition prom_SetupWithManager :: "(string \<Rightarrow> goerror option) \<Rightarrow> PrometheusReconciler \<Rightarrow> goerror option \<times> PrometheusReconciler" where
  "prom_SetupWithManager Complete r =
     (let r1 = r\<lparr>pr_Base := (pr_Base r)\<lparr>rb_OnError := Some Prom_HandleErrorAndRequeue\<rparr>\<rparr>;
          r2 = r1\<lparr>pr_Base := (pr_Base r1)\<lparr>rb_OnSuccess := Some Prom_HandleSuccess\<rparr>\<rparr>;
          r3 = r2\<lparr>pr_eventBus := True\<rparr>
      in (Complete ''Prometheus'', r3))"

text \<open>
  The webhooks; the second keeps the client of the manager in the package variable
  \<open>webhookClient\<close> unless that is set.
\<close>

definition cm_SetupWebhookWithManager :: "(string \<Rightarrow> goerror option) \<Rightarrow> goerror option" where
  "cm_SetupWebhookWithManager Complete = Complete ''CounterMeasure''"

definition prom_SetupWebhookWithManager :: "(string \<Rightarrow> goerror option) \<Rightarrow> ctrl_manager \<Rightarrow> nat option \<Rightarrow> goerror option \<times> nat option" where
  "prom_SetupWebhookWithManager Complete mgr webhookClient =
     (let client = (if webhookClient = None then Some (mgr_Client mgr) else webhookClient)
      in (Complete ''Prometheus'', client))"

section \<open>main\<close>

record CtrlOptions =
  ct_Scheme :: "GroupVersionKind list"
  ct_MetricsBindAddress :: string
  ct_Port :: int
  ct_HealthProbeBindAddress :: string
  ct_LeaderElection :: bool
  ct_LeaderElectionID :: string
  ct_Namespaces :: ManagerOptions

datatype runnable = EventBusRunnable | ProducersRunnable

text \<open>What \<open>main\<close> has set up so far. The first client is \<open>v1alpha1.WebhookClient\<close> of the countermeasures.\<close>

record ('q, 'w, 'api) Operator =
  op_manager :: "(CtrlOptions \<times> ctrl_manager) option"
  op_bus :: "'q EventBus option"
  op_actions :: "('q, 'w) Manager option"
  op_producers :: "'api ProducerManager option"
  op_runnables :: "runnable list"
  op_cm :: "CounterMeasureReconciler option"
  op_prom :: "PrometheusReconciler option"
  op_WebhookClient :: "nat option"
  op_webhookClient :: "nat option"
  op_webhooks :: "string list"
  op_checks :: "string list"
  op_started :: bool

definition no_operator :: "('q, 'w, 'api) Operator" where
  "no_operator = \<lparr>op_manager = None, op_bus = None, op_actions = None, op_producers = None, op_runnables = [],
     op_cm = None, op_prom = None, op_WebhookClient = None, op_webhookClient = None, op_webhooks = [], op_checks = [],
     op_started = False\<rparr>"

text \<open>
  The surroundings of the process: flags (\<open>None\<close> for a flag that is not given), environment
  variables, and how the calls into the libraries end.
\<close>

record setup_env =
  se_metrics_bind_address :: "string option"
  se_health_probe_bind_address :: "string option"
  se_leader_elect :: "bool option"
  se_LookupEnv :: "string \<rightharpoonup> string"
  se_client_kinds :: "GroupVersionKind list"
  se_Become :: "string \<Rightarrow> goerror option"
  se_Error :: "goerror \<Rightarrow> string"
  se_GetConfig :: "goerror + nat"
  se_NewManager :: "nat \<Rightarrow> CtrlOptions \<Rightarrow> goerror + ctrl_manager"
  se_NumCPU :: nat
  se_Add :: "runnable \<Rightarrow> goerror option"
  se_Controller :: "string \<Rightarrow> goerror option"
  se_Webhook :: "string \<Rightarrow> goerror option"
  se_AddHealthzCheck :: "goerror option"
  se_AddReadyzCheck :: "goerror option"
  se_Start :: "goerror option"

datatype 's outcome = Exits nat 's | Continues 's

fun proceed :: "'s outcome \<Rightarrow> ('s \<Rightarrow> 's outcome) \<Rightarrow> 's outcome" where
  "proceed (Exits n s) f = Exits n s"
| "proceed (Continues s) f = f s"

definition exit_on :: "goerror option \<Rightarrow> nat \<Rightarrow> 's \<Rightarrow> 's outcome" where
  "exit_on err code s = (if err = None then Continues s else Exits code s)"

definition flag_value :: "'a option \<Rightarrow> 'a \<Rightarrow> 'a" where
  "flag_value given standard = (case given of None \<Rightarrow> standard | Some v \<Rightarrow> v)"

definition enableLeaderElection :: "setup_env \<Rightarrow> bool" where
  "enableLeaderElection env = flag_value (se_leader_elect env) False"

definition ErrNoNamespace :: string where
  "ErrNoNamespace = ''namespace not found for current environment''"

definition main_leader :: "setup_env \<Rightarrow> 's \<Rightarrow> 's outcome" where
  "main_leader env s =
     (if \<not> enableLeaderElection env
      then (case se_Become env ''countermeasure-op-lock'' of
              None \<Rightarrow> Continues s
            | Some err \<Rightarrow> if se_Error env err \<noteq> ErrNoNamespace then Exits 21 s else Continues s)
      else Continues s)"

definition main_options :: "setup_env \<Rightarrow> CtrlOptions" where
  "main_options env =
     \<lparr>ct_Scheme = main_init (se_client_kinds env),
      ct_MetricsBindAddress = flag_value (se_metrics_bind_address env) '':8080'',
      ct_Port = 9443,
      ct_HealthProbeBindAddress = flag_value (se_health_probe_bind_address env) '':8081'',
      ct_LeaderElection = enableLeaderElection env,
      ct_LeaderElectionID = ''b444787d.vilaverde.rocks'',
      ct_Namespaces = namespace_options (fst (getWatchNamespace (se_LookupEnv env)))\<rparr>"

text \<open>
  \<open>GetConfigOrDie\<close> ends the process with 1 when there is no configuration, and so does \<open>main\<close> when
  there is no manager: \<open>None\<close>.
\<close>

definition main_manager :: "setup_env \<Rightarrow> ctrl_manager option" where
  "main_manager env =
     (case se_GetConfig env of
        Inl err \<Rightarrow> None
      | Inr config \<Rightarrow>
          (case se_NewManager env config (main_options env) of
             Inl err \<Rightarrow> None
           | Inr mgr \<Rightarrow> Some mgr))"

text \<open>\<open>mgr.Add\<close>, whose error \<open>main\<close> drops.\<close>

definition mgr_Add :: "setup_env \<Rightarrow> runnable \<Rightarrow> ('q, 'w, 'api) Operator \<Rightarrow> ('q, 'w, 'api) Operator" where
  "mgr_Add env r s = (if se_Add env r = None then s\<lparr>op_runnables := op_runnables s @ [r]\<rparr> else s)"

definition main_actions :: "setup_env \<Rightarrow> 'q \<Rightarrow> ctrl_manager \<Rightarrow> ('q, 'w, 'api) Operator \<Rightarrow> ('q, 'w, 'api) Operator outcome" where
  "main_actions env q mgr s =
     (let bus = NewEventBus (se_NumCPU env) q;
          s1 = mgr_Add env EventBusRunnable (s\<lparr>op_bus := Some bus\<rparr>);
          cmr = \<lparr>cr_Base = reconciler_NewFromManager mgr, cr_Log = Some [''controllers'', ''countermeasure'']\<rparr>;
          (err, cmr') = cm_SetupWithManager (se_Controller env) cmr
      in exit_on err 1 (s1\<lparr>op_actions := Some (NewFromManager bus), op_cm := Some cmr'\<rparr>))"

definition main_producers :: "setup_env \<Rightarrow> ctrl_manager \<Rightarrow> ('q, 'w, 'api) Operator \<Rightarrow> ('q, 'w, 'api) Operator outcome" where
  "main_producers env mgr s =
     (let s1 = mgr_Add env ProducersRunnable (s\<lparr>op_producers := Some NewManager\<rparr>);
          (err, pr) = prom_SetupWithManager (se_Controller env)
            \<lparr>pr_Base = reconciler_NewFromManager mgr, pr_eventBus = False, pr_Log = None\<rparr>
      in exit_on err 1 (s1\<lparr>op_prom := Some pr\<rparr>))"

definition webhooks_enabled :: "setup_env \<Rightarrow> bool" where
  "webhooks_enabled env \<longleftrightarrow> se_LookupEnv env ''ENABLE_WEBHOOKS'' \<noteq> Some ''false''"

definition main_webhooks :: "setup_env \<Rightarrow> ctrl_manager \<Rightarrow> ('q, 'w, 'api) Operator \<Rightarrow> ('q, 'w, 'api) Operator outcome" where
  "main_webhooks env mgr s =
     (let s1 = s\<lparr>op_WebhookClient := Some (mgr_Client mgr)\<rparr>
      in if webhooks_enabled env
         then proceed (exit_on (cm_SetupWebhookWithManager (se_Webhook env)) 1 s1)
           (\<lambda>s2. let s3 = s2\<lparr>op_webhooks := op_webhooks s2 @ [''CounterMeasure'']\<rparr>;
                     (err, client) = prom_SetupWebhookWithManager (se_Webhook env) mgr (op_webhookClient s3);
                     s4 = s3\<lparr>op_webhookClient := client\<rparr>
                 in proceed (exit_on err 1 s4) (\<lambda>s5. Continues (s5\<lparr>op_webhooks := op_webhooks s5 @ [''Prometheus'']\<rparr>)))
         else Continues s1)"

definition main_checks :: "setup_env \<Rightarrow> ('q, 'w, 'api) Operator \<Rightarrow> ('q, 'w, 'api) Operator outcome" where
  "main_checks env s =
     proceed (exit_on (se_AddHealthzCheck env) 1 s)
       (\<lambda>s1. proceed (exit_on (se_AddReadyzCheck env) 1 (s1\<lparr>op_checks := op_checks s1 @ [''healthz'']\<rparr>))
         (\<lambda>s2. Continues (s2\<lparr>op_checks := op_checks s2 @ [''readyz'']\<rparr>)))"

definition main_start :: "setup_env \<Rightarrow> ('q, 'w, 'api) Operator \<Rightarrow> ('q, 'w, 'api) Operator outcome" where
  "main_start env s = exit_on (se_Start env) 1 (s\<lparr>op_started := True\<rparr>)"

definition main :: "setup_env \<Rightarrow> 'q \<Rightarrow> ('q, 'w, 'api) Operator outcome" where
  "main env q =
     proceed (main_leader env no_operator)
       (\<lambda>s. case main_manager env of
              None \<Rightarrow> Exits 1 s
            | Some mgr \<Rightarrow>
                proceed (main_actions env q mgr (s\<lparr>op_manager := Some (main_options env, mgr)\<rparr>)) (\<lambda>s1.
                  proceed (main_producers env mgr s1) (\<lambda>s2.
                    proceed (main_webhooks env mgr s2) (\<lambda>s3.
                      proceed (main_checks env s3) (main_start env)))))"

section \<open>What main establishes\<close>

definition lock_refused :: "setup_env \<Rightarrow> bool" where
  "lock_refused env \<longleftrightarrow> \<not> enableLeaderElection env \<and>
     (\<exists>err. se_Become env ''countermeasure-op-lock'' = Some err \<and> se_Error env err \<noteq> ErrNoNamespace)"

text \<open>Everything before the start of the manager succeeds.\<close>

definition setup_succeeds :: "setup_env \<Rightarrow> bool" where
  "setup_succeeds env \<longleftrightarrow> main_manager env \<noteq> None \<and>
     (\<forall>kind \<in> {''CounterMeasure'', ''Prometheus''}.
        se_Controller env kind = None \<and> (webhooks_enabled env \<longrightarrow> se_Webhook env kind = None)) \<and>
     se_AddHealthzCheck env = None \<and> se_AddReadyzCheck env = None"

text \<open>
  The operator as it is started: bus and producers run under the manager if it accepted them, the
  components share the bus and satisfy their invariants, both reconcilers have their callbacks and their kinds
  are registered, and a webhook that validates event sources has its client.
\<close>

definition wired :: "setup_env \<Rightarrow> ('q, 'w, 'api) Operator \<Rightarrow> bool" where
  "wired env s \<longleftrightarrow> op_started s \<and> op_runnables s = filter (\<lambda>r. se_Add env r = None) [EventBusRunnable, ProducersRunnable] \<and>
     (\<exists>bus m p c r mgr. op_bus s = Some bus \<and> bus_inv bus \<and> eb_workers bus = se_NumCPU env \<and>
        op_actions s = Some m \<and> manager_inv m \<and> am_eventbus m = bus \<and> op_producers s = Some p \<and> producers_inv p \<and>
        op_cm s = Some c \<and> rb_OnError (cr_Base c) = Some CM_HandleErrorAndRequeue \<and>
        rb_OnSuccess (cr_Base c) = Some CM_HandleSuccess \<and>
        op_prom s = Some r \<and> pr_eventBus r \<and> rb_OnError (pr_Base r) = Some Prom_HandleErrorAndRequeue \<and>
        rb_OnSuccess (pr_Base r) = Some Prom_HandleSuccess \<and>
        op_manager s = Some (main_options env, mgr) \<and>
        (\<forall>gvk \<in> set (Register countermeasure_GroupVersion [''CounterMeasure'', ''CounterMeasureList'']) \<union>
           set (Register eventsource_GroupVersion [''Prometheus'', ''PrometheusList'']).
             gvk \<in> set (ct_Scheme (main_options env))) \<and>
        (if webhooks_enabled env
         then op_webhooks s = [''CounterMeasure'', ''Prometheus''] \<and> op_webhookClient s = Some (mgr_Client mgr)
         else op_webhooks s = []) \<and>
        op_checks s = [''healthz'', ''readyz''])"

lemma main_leader_cases: "main_leader env s = (if lock_refused env then Exits 21 s else Continues s)"
  by (auto simp: main_leader_def lock_refused_def split: option.split)

lemmas main_simps = main_def main_leader_cases main_actions_def main_producers_def main_webhooks_def main_checks_def
  main_start_def exit_on_def cm_SetupWithManager_def prom_SetupWithManager_def cm_SetupWebhookWithManager_def
  prom_SetupWebhookWithManager_def Let_def

lemma mgr_Add_simps [simp]: "op_started (mgr_Add env r s) = op_started s"
  by (simp add: mgr_Add_def)

lemma main_fails: "\<not> lock_refused env \<Longrightarrow> \<not> setup_succeeds env \<Longrightarrow> \<exists>s. main env q = Exits 1 s \<and> \<not> op_started s"
  by (auto simp: main_simps setup_succeeds_def no_operator_def split: option.split)

lemma scheme_registered: "ct_Scheme (main_options env) = se_client_kinds env @
    Register countermeasure_GroupVersion [''CounterMeasure'', ''CounterMeasureList''] @
    Register eventsource_GroupVersion [''Prometheus'', ''PrometheusList'']"
  by (simp add: main_options_def main_init_def countermeasure_AddToScheme_def eventsource_AddToScheme_def)

text \<open>The operator that a complete set-up makes.\<close>

definition the_operator :: "setup_env \<Rightarrow> 'q \<Rightarrow> ctrl_manager \<Rightarrow> ('q, 'w, 'api) Operator" where
  "the_operator env q mgr =
     (let base = reconciler_NewFromManager mgr; bus = NewEventBus (se_NumCPU env) q
      in \<lparr>op_manager = Some (main_options env, mgr), op_bus = Some bus, op_actions = Some (NewFromManager bus),
          op_producers = Some NewManager, op_runnables = filter (\<lambda>r. se_Add env r = None) [EventBusRunnable, ProducersRunnable],
          op_cm = Some \<lparr>cr_Base = base\<lparr>rb_OnError := Some CM_HandleErrorAndRequeue, rb_OnSuccess := Some CM_HandleSuccess\<rparr>,
            cr_Log = Some [''controllers'', ''countermeasure'']\<rparr>,
          op_prom = Some \<lparr>pr_Base = base\<lparr>rb_OnError := Some Prom_HandleErrorAndRequeue, rb_OnSuccess := Some Prom_HandleSuccess\<rparr>,
            pr_eventBus = True, pr_Log = None\<rparr>,
          op_WebhookClient = Some (mgr_Client mgr),
          op_webhookClient = (if webhooks_enabled env then Some (mgr_Client mgr) else None),
          op_webhooks = (if webhooks_enabled env then [''CounterMeasure'', ''Prometheus''] else []),
          op_checks = [''healthz'', ''readyz''], op_started = True\<rparr>)"

lemma main_succeeds:
  assumes "\<not> lock_refused env" and "setup_succeeds env"
  shows "\<exists>s. wired env s \<and> main env q = (if se_Start env = None then Continues s else Exits 1 s) \<and>
    map_option pr_Log (op_prom s) = Some None"
proof -
  obtain mgr where mgr: "main_manager env = Some mgr"
    using assms(2) by (auto simp: setup_succeeds_def)
  let ?bus = "NewEventBus (se_NumCPU env) q"
  have inv: "bus_inv ?bus" "manager_inv (NewFromManager ?bus)"
    by (simp_all add: bus_inv_New manager_inv_New)
  have bus: "am_eventbus (NewFromManager ?bus) = ?bus" "eb_workers ?bus = se_NumCPU env"
    by (simp_all add: NewFromManager_def NewEventBus_def)
  let ?s = "the_operator env q mgr"
  have "wired env ?s"
    using inv bus producers_inv_New scheme_registered [of env]
    by (auto simp: wired_def the_operator_def Let_def)
  moreover have "main env q = (if se_Start env = None then Continues ?s else Exits 1 ?s)"
    using assms mgr by (simp add: main_simps mgr_Add_def the_operator_def setup_succeeds_def no_operator_def)
  moreover have "map_option pr_Log (op_prom ?s) = Some None"
    by (simp add: the_operator_def Let_def)
  ultimately show ?thesis
    by blast
qed

text \<open>C24:
  Starting the program. It ends with code 21 exactly when the leader lock is refused for
  another reason than a missing namespace; otherwise it ends with 1 exactly when a step of the
  set-up or the manager itself fails, and nothing is started before the set-up is complete.
  When the manager is started the operator is wired: all components satisfy their invariants.
  Two gaps are part of the
  statement: the logger of the event source reconciler is left unset, and a bus or a producer
  manager that the manager does not accept is dropped without an error.
\<close>

theorem main_outcome:
  fixes q :: 'q
  shows "((\<exists>s :: ('q, 'w, 'api) Operator. main env q = Exits 21 s) \<longleftrightarrow> lock_refused env) \<and>
   (\<not> lock_refused env \<longrightarrow>
      ((\<exists>s :: ('q, 'w, 'api) Operator. main env q = Continues s) \<longleftrightarrow> setup_succeeds env \<and> se_Start env = None) \<and>
      (\<forall>code (s :: ('q, 'w, 'api) Operator). main env q = Exits code s \<longrightarrow> code = 1 \<and> (op_started s \<longleftrightarrow> setup_succeeds env))) \<and>
   (\<forall>s :: ('q, 'w, 'api) Operator. main env q = Continues s \<or> (\<exists>code. main env q = Exits code s \<and> op_started s) \<longrightarrow>
      wired env s \<and> map_option pr_Log (op_prom s) = Some None)"
proof (cases "lock_refused env")
  case True
  then have "main env q = Exits 21 (no_operator :: ('q, 'w, 'api) Operator)"
    by (simp add: main_def main_leader_cases)
  moreover have "\<not> op_started (no_operator :: ('q, 'w, 'api) Operator)"
    by (simp add: no_operator_def)
  ultimately show ?thesis
    using True by simp
next
  case False
  show ?thesis
  proof (cases "setup_succeeds env")
    case True
    obtain s :: "('q, 'w, 'api) Operator" where "wired env s" "map_option pr_Log (op_prom s) = Some None"
      and "main env q = (if se_Start env = None then Continues s else Exits 1 s)"
      using main_succeeds [OF False True, of q] by blast
    moreover have "op_started s"
      using \<open>wired env s\<close> by (simp add: wired_def)
    ultimately show ?thesis
      using False True by (simp split: if_splits)
  next
    case failed: False
    obtain s :: "('q, 'w, 'api) Operator" where "main env q = Exits 1 s" and "\<not> op_started s"
      using main_fails [OF False failed, of q] by blast
    then show ?thesis
      using False failed by simp
  qed
qed

definition demo_setup :: setup_env where
  "demo_setup = \<lparr>se_metrics_bind_address = None, se_health_probe_bind_address = None, se_leader_elect = None,
     se_LookupEnv = (\<lambda>_. None), se_client_kinds = [], se_Become = (\<lambda>_. Some (Errorf ErrNoNamespace)),
     se_Error = (\<lambda>e. case e of Errorf m \<Rightarrow> m | _ \<Rightarrow> []), se_GetConfig = Inr 1,
     se_NewManager = (\<lambda>c opts. Inr \<lparr>mgr_Client = 2, mgr_Config = c, mgr_APIReader = 3, mgr_Scheme = ct_Scheme opts\<rparr>),
     se_NumCPU = 4, se_Add = (\<lambda>_. None), se_Controller = (\<lambda>_. None), se_Webhook = (\<lambda>_. None), se_AddHealthzCheck = None,
     se_AddReadyzCheck = None, se_Start = None\<rparr>"

theorem main_outcome_witness:
  "\<exists>s :: (fifo, unit, unit) Operator. main demo_setup ([], False) = Continues s \<and> wired demo_setup s"
proof -
  have "\<not> lock_refused demo_setup" and "setup_succeeds demo_setup" and "se_Start demo_setup = None"
    by (simp_all add: lock_refused_def setup_succeeds_def demo_setup_def main_manager_def)
  then show ?thesis
    using main_outcome [of demo_setup "([], False)"] by blast
qed

end
