(* ===== verification/Metrics.thy ===== *)
theory Metrics
  imports Runner
begin

text \<open>
  \<open>pkg/metrics/metrics.go\<close>: the two counters of the operator and their registration, and what a
  scrape of the registry shows after a run of actions.
\<close>

section \<open>The counters\<close>

record CounterVec =
  cv_Name :: string
  cv_Help :: string
  cv_labels :: "string list"

definition ActionsTaken_vec :: CounterVec where
  "ActionsTaken_vec = \<lparr>cv_Name = ''countermeasures_actions_taken_total'',
     cv_Help = ''Number of total actions the controller executed as a result of an event'',
     cv_labels = [''namespace'', ''type'']\<rparr>"

definition ActionErrors_vec :: CounterVec where
  "ActionErrors_vec = \<lparr>cv_Name = ''countermeasures_action_errors_total'',
     cv_Help = ''Number of total errors encountered while the controller attempted to execute an action'',
     cv_labels = [''namespace'', ''type'']\<rparr>"

text \<open>\<open>MustRegister\<close> panics when the registry has a collector of the same name.\<close>

definition MustRegister :: "CounterVec \<Rightarrow> CounterVec list \<Rightarrow> CounterVec list go" where
  "MustRegister c registry =
     (if \<exists>d \<in> set registry. cv_Name d = cv_Name c then Panics ''duplicate metrics collector registration attempted''
      else Ret (registry @ [c]))"

definition metrics_init :: "CounterVec list \<Rightarrow> CounterVec list go" where
  "metrics_init registry = MustRegister ActionsTaken_vec registry"

text \<open>Which counter, under which labels, a report of the runner increments.\<close>

fun incremented :: "report \<Rightarrow> (CounterVec \<times> string list) option" where
  "incremented (ActionsTaken ns t) = Some (ActionsTaken_vec, [ns, t])"
| "incremented (ActionErrors ns t) = Some (ActionErrors_vec, [ns, t])"
| "incremented (Recorded kind reason text) = None"

definition counted :: "CounterVec \<Rightarrow> string list \<Rightarrow> report list \<Rightarrow> nat" where
  "counted c labels out = length (filter (\<lambda>r. incremented r = Some (c, labels)) out)"

text \<open>What the metrics endpoint shows under a name: nothing unless the counter is registered.\<close>

definition scrape :: "CounterVec list \<Rightarrow> report list \<Rightarrow> string \<Rightarrow> string list \<Rightarrow> nat option" where
  "scrape registry out name labels = map_option (\<lambda>c. counted c labels out) (find (\<lambda>c. cv_Name c = name) registry)"

section \<open>What a run shows\<close>

lemma counted_simps [simp]:
  "counted c ls [] = 0" "counted c ls (xs @ ys) = counted c ls xs + counted c ls ys"
  by (simp_all add: counted_def)

lemma vec_distinct [simp]: "ActionsTaken_vec \<noteq> ActionErrors_vec" "ActionErrors_vec \<noteq> ActionsTaken_vec"
  by (simp_all add: ActionsTaken_vec_def ActionErrors_vec_def)

lemma counted_error_reports [simp]:
  "counted ActionsTaken_vec ls (error_reports ctx a err) = 0"
  "counted ActionErrors_vec [om_Namespace (cm_ObjectMeta (ctx_CounterMeasure ctx)), GetType a] (error_reports ctx a err) = 1"
  by (simp_all add: counted_def error_reports_def)

lemma counted_taken_reports:
  "counted ActionErrors_vec ls (taken_reports ctx event a) = 0"
  "returns (taken_message (ctx_env ctx) (ctx_CounterMeasure ctx) a event) \<Longrightarrow>
   counted ActionsTaken_vec [om_Namespace (cm_ObjectMeta (ctx_CounterMeasure ctx)), t] (taken_reports ctx event a) = of_bool (GetType a = t)"
  by (auto simp: counted_def taken_reports_def split: go.split)

lemma counted_concat_taken:
  "\<forall>a \<in> set seq. returns (taken_message (ctx_env ctx) (ctx_CounterMeasure ctx) a event) \<Longrightarrow>
   counted ActionsTaken_vec [om_Namespace (cm_ObjectMeta (ctx_CounterMeasure ctx)), t] (concat (map (taken_reports ctx event) seq)) =
     length (filter (\<lambda>a. GetType a = t) seq)"
  by (induction seq) (simp_all add: counted_taken_reports)

lemma counted_concat_errors: "counted ActionErrors_vec ls (concat (map (taken_reports ctx event) seq)) = 0"
  by (induction seq) (simp_all add: counted_taken_reports)

lemma find_append_Some: "\<forall>x \<in> set xs. \<not> P x \<Longrightarrow> find P (xs @ ys) = find P ys"
  by (induction xs) auto

lemma find_registered:
  "metrics_init registry = Ret registry' \<Longrightarrow> find (\<lambda>c. cv_Name c = cv_Name ActionsTaken_vec) registry' = Some ActionsTaken_vec"
  by (auto simp: metrics_init_def MustRegister_def find_append_Some find_None_iff split: if_split_asm)

text \<open>
  The exported metrics see successes only: after a run the counter of taken actions shows, for
  the namespace of the countermeasure and each type, how many actions of that type ran before
  the end or the first failure; the failure, if there is one, is counted once under its type,
  but that counter is not registered, so a scrape shows nothing of it.
\<close>

lemma failures_are_not_exported:
  assumes "Run OnError seq ctx event cl = Ret (cl', out)" and "metrics_init registry = Ret registry'"
    and "\<forall>c \<in> set registry. cv_Name c \<noteq> cv_Name ActionErrors_vec"
  shows "\<exists>k \<le> length seq.
    (\<forall>t. scrape registry' out (cv_Name ActionsTaken_vec) [om_Namespace (cm_ObjectMeta (ctx_CounterMeasure ctx)), t] =
       Some (length (filter (\<lambda>a. GetType a = t) (take k seq)))) \<and>
    (\<forall>labels. counted ActionErrors_vec labels out =
       of_bool (k < length seq \<and> labels = [om_Namespace (cm_ObjectMeta (ctx_CounterMeasure ctx)), GetType (seq ! k)])) \<and>
    (\<forall>labels. scrape registry' out (cv_Name ActionErrors_vec) labels = None)"
proof -
  have "run_loop OnError ctx event seq (cl, []) = Ret (cl', out)"
    using assms(1) by (simp add: Run_def)
  from run_loop_trace [OF this] obtain k where k: "k \<le> length seq"
    "\<forall>a \<in> set (take k seq). returns (taken_message (ctx_env ctx) (ctx_CounterMeasure ctx) a event)"
    "if k = length seq then out = concat (map (taken_reports ctx event) (take k seq))
     else \<exists>err. out = concat (map (taken_reports ctx event) (take k seq)) @ error_reports ctx (seq ! k) err"
    unfolding append_Nil by (metis succeeding_messages take_all_iff order_refl)
  have "find (\<lambda>c. cv_Name c = cv_Name ActionErrors_vec) registry' = None"
    using assms(2,3) by (auto simp: metrics_init_def MustRegister_def find_None_iff ActionsTaken_vec_def ActionErrors_vec_def split: if_split_asm)
  moreover have "counted ActionErrors_vec labels (error_reports ctx a err) =
      of_bool (labels = [om_Namespace (cm_ObjectMeta (ctx_CounterMeasure ctx)), GetType a])" for labels a err
    by (auto simp: counted_def error_reports_def)
  ultimately show ?thesis
    using k find_registered [OF assms(2)] counted_concat_taken [OF k(2)]
    by (intro exI [of _ k]) (auto simp: scrape_def counted_concat_errors split: if_split_asm)
qed

end
