(* ===== verification/Spec2Isabelle.thy ===== *)
theory Spec2Isabelle
  imports Whole_Reconcile Handler_Shutdown Worker_Shutdown Exclusive_Runs Handler_Runs Convergence Prom_Controller Deep_Copy_Prom Main_Setup Metrics
begin

text \<open>
  Verification library of the k8s-countermeasures operator (Go sources under \<open>src/\<close>).

  \<^bold>\<open>The program.\<close> The operator watches two custom resources. A \<open>Prometheus\<close> resource names an
  event source; its reconciler (\<open>controllers/eventsource\<close>) builds a client and registers an
  event producer with the producer manager (\<open>pkg/producer\<close>), which polls the alerts API,
  turns active alerts into events and publishes them on the event bus (\<open>pkg/eventbus\<close>). A
  \<open>CounterMeasure\<close> resource names an event and a list of actions; its reconciler
  (\<open>controllers/countermeasure\<close>) validates it and registers it with the action manager
  (\<open>pkg/actions/manager.go\<close>), which subscribes to the event and starts a goroutine. For every
  event the goroutine looks up the countermeasure in the action state
  (\<open>pkg/actions/state\<close>), drops the event if the countermeasure runs or the event is
  suppressed, builds the runner (\<open>pkg/actions/action.go\<close>) and performs the actions delete,
  patch, restart and debug against the Kubernetes API.

  \<^bold>\<open>Conventions.\<close> Theory Prelude: Go errors are \<open>goerror\<close>, a call that may panic returns
  \<open>'a go\<close> with constructors \<open>Ret\<close> and \<open>Panics\<close>, a Go map is an association list \<open>gomap\<close> whose
  order is the order in which the runtime happens to iterate, a pointer that is compared by
  identity is \<open>ptr\<close>. Times and durations are integers in nanoseconds. Names are those of the
  sources; a prefix tells apart operations that several types share (\<open>state_Add\<close>,
  \<open>manager_Add\<close>, \<open>producers_Add\<close>), and record fields carry the initials of their type.

  \<^bold>\<open>Theories and sources.\<close>
  \<^item> Hash_Hex and Channels: what the sources use of \<open>hash/fnv\<close>, \<open>encoding/hex\<close> and of Go
    channels (a store of buffered channels; sends to and closes of a closed channel panic).
  \<^item> Manager_Base: \<open>pkg/manager/base_manager.go\<close>. The interface \<open>Manager[T]\<close> is the locale
    \<open>object_manager\<close>, interpreted for the action manager (Action_Manager) and the producer
    manager (Producer).
  \<^item> Events: \<open>pkg/events/events.go\<close>; the key of an event (\<open>event_Key\<close>) does not depend on the map
    order, and what it confuses; the names of topics.
  \<^item> Matcher: \<open>pkg/eventbus/matcher.go\<close>; \<open>SubscriberMatch\<close> with its termination proof and its
    specification by prefixes of the topic.
  \<^item> Eventbus: \<open>pkg/eventbus/eventbus.go\<close>; \<open>Publish\<close>, \<open>Subscribe\<close>, \<open>unsubscribe\<close>, the worker turn
    \<open>processNextWorkItem\<close>, \<open>runWorker\<close>, \<open>Start\<close>. The invariant \<open>bus_inv\<close> and the exact effect of a
    turn: delivery, re-queueing, nothing lost.
  \<^item> Bus_Concurrency: the same operations as the steps of interleaved goroutines
    (\<open>bus_step\<close>), with the locks of the code and the shutdown of \<open>Start\<close> in single steps; no
    reachable state has panicked, and the sequential turn and shutdown are among the runs.
    Worker_Shutdown: once the queue shuts down the loop of a worker ends. Bus_Provenance: a
    queue that neither invents nor alters items lets only published messages through.
  \<^item> Consumers: \<open>pkg/eventbus/consumer.go\<close>; unsubscribing, and the goroutine of
    \<open>MergeConsumers\<close> as a step relation (\<open>pump_step\<close>) that keeps every member's stream.
  \<^item> Api_CounterMeasure, Api_EventSource: \<open>apis/*/v1alpha1\<close>; the resources, the defaulting and
    the validating webhooks, with validation characterised exactly.
  \<^item> Deep_Copy, Deep_Copy_CM, Deep_Copy_Prom: \<open>apis/*/v1alpha1/zz_generated.deepcopy.go\<close>. Only here
    the resources are structs in a heap of cells, with pointers and slices as addresses
    (\<open>mem_\<close> records). Deep_Copy has the locales \<open>deep_copy\<close> (what a copy function promises),
    \<open>stored_copy\<close>, \<open>copy_in_order\<close> and \<open>struct_copy\<close> (how pointers, pairs and structs inherit it);
    the other two interpret them for the generated functions, or, where a struct holds types of
    \<open>metav1\<close>, prove the same under \<open>metav1_contract\<close> and \<open>selector_contract\<close>. A read of the heap
    gives the records of the API theories, with all of the object metadata, so that a deep copy, such as the one that \<open>Manager.Add\<close> hands
    to \<open>state.Add\<close>, is the identity on the values that the rest of the model works with.
  \<^item> Action_State: \<open>pkg/actions/state/state.go\<close>; the map from keys to entries with its aliasing
    (a goroutine keeps the address of an entry), refined to a map from names to
    countermeasures by the locale \<open>deployment_store\<close>; the suppression window.
  \<^item> Actions, Retry, Runner: \<open>pkg/actions/{delete,patch,restart,debug,action}.go\<close>,
    each action as the sequence of API requests it sends (the state \<open>cluster\<close>
    keeps the log), the locale \<open>api_action\<close> with dry-run and write bounds, interpreted for
    the four actions and for \<open>Perform\<close>; registry, runner, reports and retries. Metrics:
    \<open>pkg/metrics\<close>; the two counters, of which one is registered, and what a scrape shows.
  \<^item> Action_Manager: \<open>pkg/actions/manager.go\<close>; \<open>Add\<close>, \<open>Remove\<close>, \<open>Exists\<close> and the handling of one
    event. Manager_Concurrency: the critical sections of the reconciler and the goroutines
    as labelled steps (\<open>am_do\<close>); which discipline makes the run bookkeeping safe, and what a
    removal without it leads to. Handler_Runs: handling an event without interruption
    is one of the interleavings. Exclusive_Runs: when the runs of a countermeasure are
    mutually exclusive, and when they are not.
  \<^item> Prometheus_Source, Producer: \<open>pkg/producer\<close>; alerts to events, polling, and the set of
    running producers. Producer_Concurrency: \<open>Manager.Start\<close>, the calls of the reconciler, the
    goroutines of \<open>Add\<close> and those that poll as labelled steps (\<open>pm_do\<close>) with the lock
    \<open>producersMux\<close>; the deadlock of a start with producers, and the end of all polling at the
    shutdown. The field \<open>py_answers\<close> is auxiliary: it records what the alerts API answered to each
    producer, and no step reads it. The sequential operations and \<open>poll\<close> are among the steps and runs.
  \<^item> Reconciler, Status_Update, CM_Controller, Prom_Controller: \<open>pkg/reconciler\<close> and the two
    controllers; the reconcile loops over any manager that satisfies the locales
    \<open>cm_manager\<close> and \<open>prom_manager\<close>, interpreted for the two managers of the program; when the
    reconciler of event sources panics. Convergence: what any sequence of reconciliations
    against a server at rest leaves deployed.
  \<^item> Operator_System: the bus, the action manager with its goroutines and the publishers as one
    system (\<open>op_step\<close>) over one bus, whose steps are those of Bus_Concurrency and
    Manager_Concurrency under the lock of the subscribers; the steps of Producer_Concurrency are
    runs of it. The events that a goroutine handles are those of its countermeasure.
    Whole_Operator: that system together with the producer manager and the reconciler of
    countermeasures, whose calls of the manager interleave with everything else section by
    section (\<open>wo_step\<close>, from the state \<open>wo_init\<close> that \<open>main\<close> sets up); what holds in every
    reachable state of the operator. Whole_Reconcile: run without interruption, the
    reconciler does what \<open>Reconcile\<close> of CM_Controller does; this is one of the schedules, and what
    \<open>Reconcile\<close> guarantees does not carry over to the others.
    Handler_Shutdown: every goroutine listens on a channel that is subscribed or closed, so
    none is left waiting after a removal or the shutdown of the bus.
  \<^item> Main_Setup: \<open>main.go\<close>, the registration of the resource types, \<open>SetupWithManager\<close> and
    \<open>SetupWebhookWithManager\<close>; every way in which the program ends, and what it has set up when
    it starts.
  \<^item> This theory: from an active alert to the channel of the countermeasure's goroutine; the
    operator that \<open>main\<close> starts is the initial state of Whole_Operator.

  \<^bold>\<open>Parameters.\<close> Code outside the repository is an argument of the definitions. The work
  queue of client-go is \<open>workqueue_ops\<close> with \<open>workqueue_contract\<close> (an added item waits until
  it is handed out, unless the queue shuts down) and \<open>drain_contract\<close> (a drained queue hands
  out nothing more), and \<open>get_contract\<close> (while it shuts down, \<open>Get\<close> hands out a waiting item
  or reports the end), and \<open>source_contract\<close> (\<open>Get\<close> hands out only what was added);
  \<open>retry.OnError\<close> is a \<open>retrier\<close> with \<open>retry_contract n\<close> (it behaves as at
  most \<open>n\<close> attempts, repeated while the error is retriable); the aggregation of errors has
  \<open>aggregate_contract\<close>, \<open>SetStatusCondition\<close> has \<open>condition_contract\<close>, the API server returns
  the object it was asked for (\<open>named_api\<close>), and a \<open>steady_server\<close> keeps the specs
  and fails no request. The structs \<open>ObjectMeta\<close>, \<open>ListMeta\<close> and \<open>LabelSelector\<close> in memory and
  their \<open>DeepCopyInto\<close> are a record \<open>metav1\<close> of functions, with the contracts that these are deep
  copies; everywhere else their values are the fields that the sources read. The logger of a reconciler is a call that may panic. The API server, the template engine, the
  YAML-to-JSON converter, the random suffixes and the clock are fields of \<open>env\<close>, \<open>cr_api\<close> and
  \<open>p8s_env\<close> or arguments; flags, environment variables and the outcome of the calls into
  controller-runtime are fields of \<open>setup_env\<close>. Each contract is shown to be satisfiable by
  a concrete instance (\<open>fifo_ops\<close>, \<open>bounded_attempts\<close>, \<open>plain_aggregate\<close>, the \<open>demo_\<close>
  definitions).

  \<^bold>\<open>Loops.\<close> The loops over slices are structural recursions. \<open>SubscriberMatch\<close> ends because the
  topic gets shorter. \<open>runWorker\<close> may run forever; its fuel counts turns, and \<open>runWorker_ends\<close>
  gives the fuel that is enough during a shutdown: one turn per waiting item and one more.
  The other properties speak of single turns or of all reachable states of the step
  relations, whose runs have any length. The goroutines of the producers end at a shutdown
  because each step lowers a lexicographic measure (\<open>steps_left\<close>, \<open>events_left\<close>), and so do
  those of the countermeasures (\<open>buffered\<close>, \<open>handlers_left\<close>). \<open>bounded_attempts\<close> counts the
  attempts that a retry makes, and the properties hold for every bound. A worker that waits in \<open>Get\<close>, a send that
  waits for a receiver and a start that waits for a channel are the value \<open>None\<close> or \<open>Blocked\<close>.

  \<^bold>\<open>What the properties show.\<close> The running operator acts only on validated resources and on
  alerts of their own that the API answered, under every interleaving, and the sequential
  reconciler is one of its schedules.
  Safety of the concurrent bus; delivery to exactly the matching
  subscribers, and at least once under full buffers; the end of the workers at shutdown;
  no goroutine is left waiting; suppression of repeated events; mutual exclusion of the runs of one countermeasure;
  dry-run and bounds on writes, and the requests of each action on every branch; the first
  failing action ends a run; reconciling keeps
  the managers consistent and deploys only validated resources, and any sequence of
  reconciliations against a server that changes no spec and fails no request converges to what
  the server holds; polls publish exactly the
  active alerts, and all polling ends at the shutdown; both managers refine simple maps or sets; deep copies are equal to and
  independent of their originals, given that those of the library are; the exit codes of the program and the invariants of what
  it starts. Several theorems state behaviour that the code probably does not intend: a
  removal during a run and a template that does not parse end the process, runs of a
  recreated countermeasure overlap, the reconciler of event sources has no logger and
  panics when credentials are missing, updates
  of a deployed countermeasure are ignored, removed producers keep polling, a
  manager that starts with a producer deadlocks, failed reconciliations look successful, event
  keys ignore the boundaries of labels, a merge of consumers ends with its first closed member,
  the path of a service reference is ignored.

  \<^bold>\<open>Not modelled.\<close> Logging and the HTTP transport: calls into libraries without state of the
  program. The delays that the rate limiter of the queue computes are those of client-go
  (\<open>NewRateLimiter\<close> records how it is made). The actions of a run are one step of the
  interleavings. Of \<open>main\<close>: the exit of the flag library on a bad flag, and the second signal,
  which ends the process at once. Struct tags and the kubebuilder annotations are
  input of the code generators.

  In theory Whole_Operator one reconciliation of countermeasures runs at a time, which is the
  default of controller-runtime, and the calls of the reconciler of event sources are the
  steps \<open>PAdd\<close>, \<open>PRemove\<close> and \<open>PExists\<close> in any order. The order in which controller-runtime
  stops its runnables is that library's; every order of their steps is among the interleavings.
\<close>

section \<open>From an alert to the goroutine of a countermeasure\<close>

lemma added_handler_subscribed:
  assumes "manager_inv m"
  shows "\<exists>h \<in> set (am_goroutines (added now cm m)). h_key h = ToKey (cm_ObjectMeta cm) \<and>
    h_chan h \<in> set (subs_at (eb_subscribers (am_eventbus (added now cm m))) (oe_EventName (cs_OnEvent (cm_Spec cm))))"
  by (simp add: added_def new_handler_def NewConsumer_def Let_def subs_at_put)

lemma matched_by_name:
  "c \<in> set (subs_at (eb_subscribers b) t) \<Longrightarrow> msg_topic msg = CreateFullyQualifiedTopicName t source \<Longrightarrow>
   c \<in> set (matched msg b)"
  using fully_qualified_covers [of t source] by (auto simp: matched_def set_SubscriberMatch)

lemma polled_message:
  assumes "al \<in> set alerts" and "is_active p al"
  shows "\<exists>a. MessageItem \<lparr>msg_event = event_of a al,
      msg_topic = CreateFullyQualifiedTopicName (ev_Name (event_of a al)) name\<rparr> \<in> set (messages_of name (polled fresh p alerts))"
proof -
  let ?as = "filter (is_active p) alerts"
  have "al \<in> set ?as"
    using assms by simp
  then obtain i where i: "i < length ?as" "?as ! i = al"
    by (auto simp only: in_set_conv_nth)
  have "(fresh + i, al) \<in> set (zip [fresh..<fresh + length ?as] ?as)"
    using i by (auto simp: set_zip intro!: exI [of _ i])
  then have "event_of (fresh + i) al \<in> set (polled fresh p alerts)"
    by (force simp: polled_def Let_def)
  then show ?thesis
    by (auto simp: messages_of_def)
qed

text \<open>A turn that takes a message whose topic has the name of an event, on any later bus.\<close>

lemma turn_delivers_or_requeues:
  assumes "workqueue_contract wq pend closing" and "bus_inv b" and "c \<in> set (subs_at (eb_subscribers b) t)"
    and "msg_topic msg = CreateFullyQualifiedTopicName t source"
    and "wq_Get wq (eb_workqueue b) = Some (Some (MessageItem msg), q)"
  shows "c \<in> set (matched msg b) \<and>
    (\<exists>out b'. processNextWorkItem wq b = Some (Ret (True, out, b')) \<and>
      (if \<forall>d \<in> set (matched msg b). has_room (eb_store b) d
       then out = [] \<and> buf (eb_store b') c = buf (eb_store b) c @ [msg_event msg]
       else out = [not_ready_error msg] \<and> (closing (eb_workqueue b) \<or> MessageItem msg \<in> pend (eb_workqueue b'))))"
proof -
  note wqD = workqueue_contractD [OF assms(1)]
  have match: "c \<in> set (matched msg b)"
    using assms(3,4) by (rule matched_by_name)
  have "closing q = closing (eb_workqueue b)"
    using wqD(6) [OF assms(5)] .
  then show ?thesis
    using turn_message [OF assms(2,5)] match receivers_all [of msg b] matched_open [OF assms(2) match]
    by (auto simp: Let_def buf_sent_to wqD)
qed

text \<open>C2:
  End to end: adding a countermeasure starts a goroutine whose channel is subscribed to the
  name of its event, and every later poll, by any producer and on any bus whose queue is
  open, that sees an active alert with this name puts a message with the alert's labels on
  the queue. On every later bus on which the channel is still subscribed, that message
  matches the channel, and the worker turn that takes it appends the event to the channel if
  all matched channels have room; if some matched channel is full, the turn reports that and
  the message waits in the queue again, unless the queue is closing.
\<close>

theorem alert_reaches_countermeasure:
  fixes m :: "('q, 'w) Manager"
  assumes "workqueue_contract wq pend closing" and "manager_inv m" and "retry_contract n OnError"
    and "manager_Add asSelector List now cm m = Ret (None, m')"
    and "Alerts (pc_Client (ep_config d)) w = (Inr alerts, w')" and "al \<in> set alerts"
    and "is_active (pc_IncludePending (ep_config d)) al"
    and "EventData_Get (al_Labels al) ''alertname'' = oe_EventName (cs_OnEvent (cm_Spec cm))"
    and "\<not> closing (eb_workqueue b)"
  shows "\<exists>h \<in> set (am_goroutines m'). h_key h = ToKey (cm_ObjectMeta cm) \<and>
    h_chan h \<in> set (subs_at (eb_subscribers (am_eventbus m')) (oe_EventName (cs_OnEvent (cm_Spec cm)))) \<and>
    (\<exists>b' f msg a. poll Alerts OnError wq d (b, fresh, w) = Ret (b', f, w') \<and>
      MessageItem msg \<in> pend (eb_workqueue b') \<and> msg_event msg = event_of a al \<and>
      (\<forall>later q. bus_inv later \<and> h_chan h \<in> set (subs_at (eb_subscribers later) (oe_EventName (cs_OnEvent (cm_Spec cm)))) \<and>
         wq_Get wq (eb_workqueue later) = Some (Some (MessageItem msg), q) \<longrightarrow>
         h_chan h \<in> set (matched msg later) \<and>
         (\<exists>out after. processNextWorkItem wq later = Some (Ret (True, out, after)) \<and>
           (if \<forall>c \<in> set (matched msg later). has_room (eb_store later) c
            then out = [] \<and> buf (eb_store after) (h_chan h) = buf (eb_store later) (h_chan h) @ [event_of a al]
            else out = [not_ready_error msg] \<and>
              (closing (eb_workqueue later) \<or> MessageItem msg \<in> pend (eb_workqueue after))))))"
proof -
  let ?t = "oe_EventName (cs_OnEvent (cm_Spec cm))" and ?p = "pc_IncludePending (ep_config d)"
  have "m' = added now cm m"
    using assms(4) by (auto simp: manager_Add_cases split: option.split_asm)
  then obtain h where h: "h \<in> set (am_goroutines m')" "h_key h = ToKey (cm_ObjectMeta cm)"
    "h_chan h \<in> set (subs_at (eb_subscribers (am_eventbus m')) ?t)"
    using added_handler_subscribed [OF assms(2)] by blast
  let ?b = "b\<lparr>eb_workqueue := fold (wq_Add wq) (messages_of (getName d) (polled fresh ?p alerts)) (eb_workqueue b)\<rparr>"
  have poll: "poll Alerts OnError wq d (b, fresh, w) = Ret (?b, fresh + length (filter (is_active ?p) alerts), w')"
    by (rule poll_alerts [where Alerts = Alerts and d = d, OF assms(3,5)])
  obtain a where a: "MessageItem \<lparr>msg_event = event_of a al, msg_topic = CreateFullyQualifiedTopicName ?t (getName d)\<rparr> \<in>
      set (messages_of (getName d) (polled fresh ?p alerts))"
    using polled_message [OF assms(6,7)] assms(8) by (fastforce simp: event_of_def)
  let ?msg = "\<lparr>msg_event = event_of a al, msg_topic = CreateFullyQualifiedTopicName ?t (getName d)\<rparr>"
  have pend: "MessageItem ?msg \<in> pend (eb_workqueue ?b)"
    using a pend_fold_Add [OF assms(1,9)] by auto
  have "msg_topic ?msg = CreateFullyQualifiedTopicName ?t (getName d)" and "msg_event ?msg = event_of a al"
    by simp_all
  note turn = turn_delivers_or_requeues [OF assms(1) _ _ this(1), unfolded this(2)]
  show ?thesis
    by (rule bexI [OF _ h(1)], intro conjI h(2,3) exI [of _ ?b] exI [of _ "fresh + length (filter (is_active ?p) alerts)"]
      exI [of _ ?msg] exI [of _ a] poll pend) (simp_all add: turn)
qed

theorem alert_reaches_countermeasure_witness:
  "\<exists>h \<in> set (am_goroutines (added ''t'' sample_cm demo_manager)). \<exists>b f msg a.
    poll demo_api (bounded_attempts 3) fifo_ops demo_producer (am_eventbus (added ''t'' sample_cm demo_manager), 0, ()) = Ret (b, f, ()) \<and>
    MessageItem msg \<in> set (fst (eb_workqueue b)) \<and> msg_event msg = event_of a demo_alert"
proof -
  have add: "manager_Add (\<lambda>ls. Inr ls) (\<lambda>ls. None) ''t'' sample_cm demo_manager = Ret (None, added ''t'' sample_cm demo_manager)"
    by (simp add: manager_Add_cases resolve_sources_def sample_cm_def sample_spec_def)
  have "\<not> snd (eb_workqueue (am_eventbus (added ''t'' sample_cm demo_manager)))"
    by (simp add: demo_manager_def NewFromManager_def NewEventBus_def added_def Let_def)
  moreover have "demo_api (pc_Client (ep_config demo_producer)) () = (Inr [demo_alert], ())"
    by (simp add: demo_api_def)
  moreover have "is_active (pc_IncludePending (ep_config demo_producer)) demo_alert"
    "EventData_Get (al_Labels demo_alert) ''alertname'' = oe_EventName (cs_OnEvent (cm_Spec sample_cm))"
    by (simp_all add: is_active_def demo_alert_def EventData_Get_def sample_cm_def sample_spec_def)
  ultimately show ?thesis
    using alert_reaches_countermeasure [where Alerts = demo_api and d = demo_producer and alerts = "[demo_alert]" and al = demo_alert
        and fresh = 0, OF fifo_contract demo_manager_inv bounded_attempts_contract [of 3] add] by (metis list.set_intros(1))
qed

section \<open>The operator that main starts\<close>

text \<open>The components that \<open>main\<close> made, with the runnables that the manager accepted started.\<close>

definition launched :: "('q, 'w, 'api) Operator \<Rightarrow> 'w cluster \<Rightarrow> 'x \<Rightarrow> 'y \<Rightarrow> ('q, 'w, 'x, 'y, 'api) operator option" where
  "launched s cl x y =
     (case (op_actions s, op_producers s) of
        (Some m, Some p) \<Rightarrow>
          (let bus = (if EventBusRunnable \<in> set (op_runnables s) then Start_launch (am_eventbus m) else am_eventbus m)
           in Some \<lparr>wo_op = \<lparr>os_am = \<lparr>sy_manager = m\<lparr>am_eventbus := bus\<rparr>, sy_reconciler = RIdle, sy_cluster = cl, sy_reports = [], sy_crash = None\<rparr>,
                             os_worker = (\<lambda>_. Idle), os_stop = Serving, os_bus_crashed = False, os_origins = []\<rparr>,
                     wo_producers = (pm_init bus y)\<lparr>py_manager := p\<rparr>, wo_pc = RcIdle, wo_server = x, wo_panicked = False\<rparr>)
      | _ \<Rightarrow> None)"

lemma main_starts_operator:
  fixes s :: "('q, 'w, 'api) Operator"
  assumes "main env q = Continues s" and "se_Add env EventBusRunnable = None"
  shows "launched s cl x y = Some (wo_init (se_NumCPU env) q cl x y)"
proof -
  have lock: "\<not> lock_refused env"
    using assms(1) by (auto simp: main_def main_leader_cases)
  moreover have "setup_succeeds env"
  proof (rule ccontr)
    assume "\<not> setup_succeeds env"
    then obtain s' :: "('q, 'w, 'api) Operator" where "main env q = Exits 1 s'"
      using main_fails [OF lock, of q] by blast
    then show False
      using assms(1) by simp
  qed
  ultimately have ok: "\<not> lock_refused env" "setup_succeeds env"
    by simp_all
  then obtain mgr where mgr: "main_manager env = Some mgr"
    by (auto simp: setup_succeeds_def)
  have "s = the_operator env q mgr"
    using assms(1) ok mgr by (auto simp: main_simps mgr_Add_def the_operator_def setup_succeeds_def no_operator_def split: if_split_asm)
  then show ?thesis
    using assms(2)
    by (simp add: launched_def the_operator_def Let_def wo_init_def op_init_def am_init_def pm_init_def NewFromManager_def)
qed

end
